(* ===== verification/Prelude.thy ===== *)
theory Prelude
  imports Main "HOL-Library.Word" "HOL-Library.Code_Target_Nat"
begin

text \<open>
  Shared vocabulary of the development: the result type of fallible Go calls, the type names of
  Go's machine integers, the collections of facts the component theories fill, and the generic
  lemmas on lists that more than one component uses.
\<close>

section \<open>Names for Go's types\<close>

type_synonym byte = "8 word"
type_synonym uint8 = "8 word"
type_synonym uint32 = "32 word"
type_synonym int32 = "32 word"
type_synonym uint64 = "64 word"
type_synonym go_uint = "64 word"
type_synonym go_int = int
type_synonym uuid = "128 word"

text \<open>
  A Go call that returns \<open>(T, error)\<close> is a value of the sum type: \<open>Inl\<close> carries a non-nil error,
  \<open>Inr\<close> the value that comes with a nil error.
\<close>

type_synonym ('e, 'a) result = "'e + 'a"

definition is_ok :: "('e, 'a) result \<Rightarrow> bool" where
  "is_ok r = (case r of Inl _ \<Rightarrow> False | Inr _ \<Rightarrow> True)"

lemma is_ok_simps [simp]: "\<not> is_ok (Inl e)" "is_ok (Inr x)"
  by (simp_all add: is_ok_def)

lemma is_ok_iff: "is_ok r \<longleftrightarrow> (\<exists>x. r = Inr x)"
  by (cases r) auto

section \<open>Collections of facts\<close>

named_theorems go_const \<open>values of the constants the Go source declares\<close>
named_theorems sql_simps \<open>what one SQL statement does to a table\<close>
named_theorems frame_simps \<open>parts of the state an operation leaves alone\<close>

section \<open>Generic lemmas\<close>

lemma take_append_eq_length: "n = length xs \<Longrightarrow> take n (xs @ ys) = xs"
  by simp

lemma drop_append_eq_length: "n = length xs \<Longrightarrow> drop n (xs @ ys) = ys"
  by simp

lemma append_eq_same_length:
  assumes "xs @ us = ys @ vs" and "length xs = length ys"
  shows "xs = ys \<and> us = vs"
  using assms by simp

lemma distinct_map_filter: "distinct (map f xs) \<Longrightarrow> distinct (map f (filter P xs))"
  by (induction xs) auto

lemma list_all_map_if:
  "(\<And>x. x \<in> set xs \<Longrightarrow> P x \<Longrightarrow> Q (f x)) \<Longrightarrow> (\<And>x. x \<in> set xs \<Longrightarrow> \<not> P x \<Longrightarrow> Q x) \<Longrightarrow>
   \<forall>y \<in> set (map (\<lambda>x. if P x then f x else x) xs). Q y"
  by auto

lemma sum_list_map_le:
  fixes f g :: "'a \<Rightarrow> nat"
  assumes "\<And>x. x \<in> set xs \<Longrightarrow> f x \<le> g x"
  shows "sum_list (map f xs) \<le> sum_list (map g xs)"
  using assms by (induction xs) (auto intro: add_mono)

lemma sum_list_map_less:
  fixes f g :: "'a \<Rightarrow> nat"
  assumes "\<And>x. x \<in> set xs \<Longrightarrow> f x \<le> g x" and "y \<in> set xs" and "f y < g y"
  shows "sum_list (map f xs) < sum_list (map g xs)"
  using assms
proof (induction xs)
  case Nil
  then show ?case by simp
next
  case (Cons x xs)
  have le: "sum_list (map f xs) \<le> sum_list (map g xs)"
    using Cons.prems(1) by (intro sum_list_map_le) auto
  show ?case
  proof (cases "y = x")
    case True
    with le Cons.prems(3) show ?thesis by simp
  next
    case False
    with Cons have "sum_list (map f xs) < sum_list (map g xs)" by auto
    moreover have "f x \<le> g x" using Cons.prems(1) by simp
    ultimately show ?thesis by simp
  qed
qed

section \<open>Fixed-width encodings\<close>

text \<open>
  The interface of an encoder that writes every value in the same number of units. Whoever
  concatenates encoded values (the packed match identity, a hex string) relies on two laws only:
  the width, and that different values have different encodings.
\<close>

locale fixed_width_codec =
  fixes enc :: "'a \<Rightarrow> 'b list" and width :: nat
  assumes enc_width: "length (enc x) = width"
    and enc_inj: "enc x = enc y \<Longrightarrow> x = y"
    and width_pos: "0 < width"
begin

lemma length_concat_enc: "length (concat (map enc xs)) = width * length xs"
  by (induction xs) (simp_all add: enc_width)

lemma enc_append_inj:
  assumes "enc x @ u = enc y @ v"
  shows "x = y \<and> u = v"
proof -
  have "length (enc x) = length (enc y)" by (simp add: enc_width)
  with assms have "enc x = enc y" and "u = v" by simp_all
  then show ?thesis using enc_inj by blast
qed

lemma concat_enc_inj: "concat (map enc xs) = concat (map enc ys) \<Longrightarrow> xs = ys"
proof (induction xs arbitrary: ys)
  case Nil
  then have "length (concat (map enc ys)) = 0" by simp
  then show ?case using width_pos by (simp add: length_concat_enc)
next
  case (Cons x xs)
  have "length ys = length (x # xs)"
    using arg_cong [OF Cons.prems, of length] width_pos
    by (simp only: length_concat_enc) (metis mult_cancel1 not_gr_zero)
  then obtain y ys' where ys: "ys = y # ys'" by (cases ys) auto
  with Cons.prems have "enc x @ concat (map enc xs) = enc y @ concat (map enc ys')" by simp
  then have "x = y \<and> concat (map enc xs) = concat (map enc ys')" by (rule enc_append_inj)
  with Cons.IH ys show ?case by simp
qed

end

lemma map_of_all: "list_all (P \<circ> snd) xs \<Longrightarrow> map_of xs k = Some v \<Longrightarrow> P v"
  by (auto simp: list_all_iff dest!: map_of_SomeD)

end
