(* ===== verification/Go_Text.thy ===== *)
theory Go_Text
  imports Prelude
begin

text \<open>
  What the source uses of Go's \<open>strings\<close>, \<open>encoding/hex\<close>, \<open>encoding/binary\<close>, \<open>strconv\<close> and
  \<open>fmt\<close> packages. A Go string is a byte sequence, here a HOL \<open>string\<close> (a list of 8-bit characters).
\<close>

section \<open>strings\<close>

definition has_prefix :: "string \<Rightarrow> string \<Rightarrow> bool" where
  "has_prefix s p = (take (length p) s = p)"

definition trim_prefix :: "string \<Rightarrow> string \<Rightarrow> string" where
  "trim_prefix s p = (if has_prefix s p then drop (length p) s else s)"

definition lower_char :: "char \<Rightarrow> char" where
  "lower_char c = (let n = (of_char c :: nat) in if 65 \<le> n \<and> n \<le> 90 then char_of (n + 32) else c)"

text \<open>\<open>strings.ToLower\<close> on ASCII input: the only strings the source compares the result with are ASCII.\<close>

definition to_lower :: "string \<Rightarrow> string" where
  "to_lower s = map lower_char s"

fun join_strings :: "string \<Rightarrow> string list \<Rightarrow> string" where
  "join_strings sep [] = []"
| "join_strings sep [x] = x"
| "join_strings sep (x # y # zs) = x @ sep @ join_strings sep (y # zs)"

lemma trim_prefix_append [simp]: "trim_prefix (p @ s) p = s"
  by (simp add: trim_prefix_def has_prefix_def)

lemma has_prefix_append [simp]: "has_prefix (p @ s) p"
  by (simp add: has_prefix_def)

lemma trim_prefix_no: "\<not> has_prefix s p \<Longrightarrow> trim_prefix s p = s"
  by (simp add: trim_prefix_def)

section \<open>Digits\<close>

definition digit_val :: "char \<Rightarrow> nat option" where
  "digit_val c = (let n = of_char c in if 48 \<le> n \<and> n \<le> 57 then Some (n - 48) else None)"

definition digit_char :: "nat \<Rightarrow> char" where
  "digit_char n = char_of (48 + n)"

lemma digit_val_char: "n < 10 \<Longrightarrow> digit_val (digit_char n) = Some n"
  by (simp add: digit_val_def digit_char_def Let_def)

lemma digit_val_bound: "digit_val c = Some d \<Longrightarrow> d < 10"
  by (auto simp: digit_val_def Let_def split: if_splits)

section \<open>encoding/hex\<close>

datatype hex_error = InvalidByteError char | ErrLength

definition hex_val :: "char \<Rightarrow> nat option" where
  "hex_val c = (let n = of_char c in
     if 48 \<le> n \<and> n \<le> 57 then Some (n - 48)
     else if 97 \<le> n \<and> n \<le> 102 then Some (n - 87)
     else if 65 \<le> n \<and> n \<le> 70 then Some (n - 55)
     else None)"

definition hex_char :: "nat \<Rightarrow> char" where
  "hex_char n = char_of (if n < 10 then 48 + n else 87 + n)"

definition hex_encode_byte :: "byte \<Rightarrow> string" where
  "hex_encode_byte b = [hex_char (unat b div 16), hex_char (unat b mod 16)]"

definition hex_encode :: "byte list \<Rightarrow> string" where
  "hex_encode bs = concat (map hex_encode_byte bs)"

text \<open>
  \<open>hex.DecodeString\<close> reads pairs from the left; a left-over last digit is reported as a bad byte
  when it is no hex digit, and as a length error otherwise.
\<close>

fun hex_decode :: "string \<Rightarrow> (hex_error, byte list) result" where
  "hex_decode [] = Inr []"
| "hex_decode [p] = (case hex_val p of None \<Rightarrow> Inl (InvalidByteError p) | Some _ \<Rightarrow> Inl ErrLength)"
| "hex_decode (p # q # rest) =
     (case hex_val p of
        None \<Rightarrow> Inl (InvalidByteError p)
      | Some a \<Rightarrow>
          (case hex_val q of
             None \<Rightarrow> Inl (InvalidByteError q)
           | Some b \<Rightarrow>
               (case hex_decode rest of
                  Inl e \<Rightarrow> Inl e
                | Inr bs \<Rightarrow> Inr (word_of_nat (a * 16 + b) # bs))))"

lemma hex_val_char: "n < 16 \<Longrightarrow> hex_val (hex_char n) = Some n"
  by (auto simp: hex_val_def hex_char_def Let_def)

lemma unat_byte_less: "unat (b :: byte) < 256"
  using unsigned_less [of b] by simp

lemma hex_decode_byte:
  "hex_decode (hex_encode_byte b @ s) =
     (case hex_decode s of Inl e \<Rightarrow> Inl e | Inr bs \<Rightarrow> Inr (b # bs))"
proof -
  have "unat b div 16 < 16" using unat_byte_less [of b] by linarith
  then show ?thesis
    by (simp add: hex_encode_byte_def hex_val_char split: sum.splits)
qed

lemma hex_decode_encode: "hex_decode (hex_encode bs) = Inr bs"
  by (induction bs) (simp_all add: hex_encode_def hex_decode_byte)

lemma hex_encode_byte_inj: "hex_encode_byte b = hex_encode_byte c \<Longrightarrow> b = c"
  using hex_decode_byte [of b "[]"] hex_decode_byte [of c "[]"] by simp

interpretation hex: fixed_width_codec hex_encode_byte 2
proof unfold_locales
  show "length (hex_encode_byte b) = 2" for b by (simp add: hex_encode_byte_def)
qed (auto dest: hex_encode_byte_inj)

lemma hex_encode_inj: "hex_encode bs = hex_encode cs \<Longrightarrow> bs = cs"
  unfolding hex_encode_def by (rule hex.concat_enc_inj)

lemma length_hex_encode [simp]: "length (hex_encode bs) = 2 * length bs"
  unfolding hex_encode_def by (rule hex.length_concat_enc)

lemma hex_decode_length: "hex_decode s = Inr bs \<Longrightarrow> length s = 2 * length bs"
  by (induction s arbitrary: bs rule: hex_decode.induct) (auto split: option.splits sum.splits)

lemma hex_char_not_x: "n < 16 \<Longrightarrow> hex_char n \<noteq> CHR ''x''"
proof
  assume n: "n < 16" and "hex_char n = CHR ''x''"
  then have "(of_char (hex_char n) :: nat) = of_char (CHR ''x'')" by simp
  with n show False by (simp add: hex_char_def split: if_splits)
qed

lemma hex_encode_no_prefix: "\<not> has_prefix (hex_encode bs) ''0x''"
proof (cases bs)
  case Nil
  then show ?thesis by (simp add: has_prefix_def hex_encode_def)
next
  case (Cons b cs)
  have "hex_char (unat b mod 16) \<noteq> CHR ''x''" by (rule hex_char_not_x) simp
  with Cons show ?thesis
    by (auto simp: has_prefix_def hex_encode_def hex_encode_byte_def)
qed

lemma hex_encode_trim [simp]: "trim_prefix (hex_encode bs) ''0x'' = hex_encode bs"
  by (rule trim_prefix_no) (rule hex_encode_no_prefix)

section \<open>encoding/binary: big-endian words\<close>

text \<open>\<open>binary.BigEndian.PutUint32\<close>: four bytes, the most significant first.\<close>

definition put_uint32 :: "uint32 \<Rightarrow> byte list" where
  "put_uint32 v = map (\<lambda>k. ucast (drop_bit k v)) [24, 16, 8, 0]"

lemma length_put_uint32 [simp]: "length (put_uint32 v) = 4"
  by (simp add: put_uint32_def)

lemma put_uint32_inj: "put_uint32 v = put_uint32 w \<Longrightarrow> v = w"
proof (rule bit_word_eqI)
  fix n
  assume eq: "put_uint32 v = put_uint32 w" and n: "n < LENGTH(32)"
  have bytes: "bit (drop_bit k v) m = bit (drop_bit k w) m"
    if "k \<in> {24, 16, 8, 0}" and "m < 8" for k m
  proof -
    from eq that(1) have "(ucast (drop_bit k v) :: byte) = ucast (drop_bit k w)"
      by (auto simp: put_uint32_def)
    then have "bit (ucast (drop_bit k v) :: byte) m = bit (ucast (drop_bit k w) :: byte) m"
      by simp
    with that(2) show ?thesis by (simp add: bit_ucast_iff)
  qed
  have "n < 32" using n by simp
  then have "n div 8 * 8 \<in> {24, 16, 8, 0}" and "n mod 8 < 8" by auto
  from bytes [OF this] show "bit v n = bit w n"
    by (simp add: bit_drop_bit_eq)
qed

interpretation be32: fixed_width_codec put_uint32 4
  by unfold_locales (auto dest: put_uint32_inj)

section \<open>strconv and fmt\<close>

datatype num_error = ErrSyntax | ErrRange

text \<open>
  \<open>strconv.ParseUint(s, 10, bits)\<close>. The loop reads one character at a time and stops at the first
  offence: a character that is no digit is a syntax error, a prefix above the type's maximum is a
  range error, whichever comes first.
\<close>

fun parse_uint_loop :: "nat \<Rightarrow> nat \<Rightarrow> string \<Rightarrow> (num_error, nat) result" where
  "parse_uint_loop mx acc [] = Inr acc"
| "parse_uint_loop mx acc (c # cs) =
     (case digit_val c of
        None \<Rightarrow> Inl ErrSyntax
      | Some d \<Rightarrow> if acc * 10 + d > mx then Inl ErrRange else parse_uint_loop mx (acc * 10 + d) cs)"

definition parse_uint :: "nat \<Rightarrow> string \<Rightarrow> (num_error, nat) result" where
  "parse_uint bits s = (if s = [] then Inl ErrSyntax else parse_uint_loop (2 ^ bits - 1) 0 s)"

text \<open>\<open>strconv.ParseInt(s, 10, bits)\<close>: an optional sign, then the digits, then the signed range.\<close>

definition parse_int :: "nat \<Rightarrow> string \<Rightarrow> (num_error, int) result" where
  "parse_int bits s =
     (case s of
        [] \<Rightarrow> Inl ErrSyntax
      | c # cs \<Rightarrow>
          let neg = (c = CHR ''-'');
              digits = (if c = CHR ''+'' \<or> c = CHR ''-'' then cs else s)
          in (case parse_uint bits digits of
                Inl e \<Rightarrow> Inl e
              | Inr n \<Rightarrow>
                  if \<not> neg \<and> 2 ^ (bits - 1) \<le> n then Inl ErrRange
                  else if neg \<and> 2 ^ (bits - 1) < n then Inl ErrRange
                  else Inr (if neg then - int n else int n)))"

text \<open>Decimal digits of a number (\<open>%d\<close>), and the same padded with zeros to a width.\<close>

fun show_nat :: "nat \<Rightarrow> string" where
  "show_nat n = (if n < 10 then [digit_char n] else show_nat (n div 10) @ [digit_char (n mod 10)])"

declare show_nat.simps [simp del]

definition show_int :: "int \<Rightarrow> string" where
  "show_int i = (if i < 0 then CHR ''-'' # show_nat (nat (- i)) else show_nat (nat i))"

definition pad_zeros :: "nat \<Rightarrow> string \<Rightarrow> string" where
  "pad_zeros w s = replicate (w - length s) (CHR ''0'') @ s"

text \<open>The value a digit string denotes, read from the left with an accumulator.\<close>

fun digits_val :: "nat \<Rightarrow> string \<Rightarrow> nat option" where
  "digits_val acc [] = Some acc"
| "digits_val acc (c # cs) =
     (case digit_val c of None \<Rightarrow> None | Some d \<Rightarrow> digits_val (acc * 10 + d) cs)"

lemma digits_val_append:
  "digits_val acc (s @ t) = (case digits_val acc s of None \<Rightarrow> None | Some v \<Rightarrow> digits_val v t)"
  by (induction s arbitrary: acc) (auto split: option.splits)

lemma digits_val_mono: "digits_val acc s = Some v \<Longrightarrow> acc \<le> v"
  by (induction s arbitrary: acc) (force split: option.splits)+

lemma digits_val_zeros: "digits_val 0 (replicate k (CHR ''0'') @ s) = digits_val 0 s"
proof (induction k)
  case 0
  then show ?case by simp
next
  case (Suc k)
  have "digit_val (CHR ''0'') = Some 0" by (simp add: digit_val_def)
  with Suc show ?case by simp
qed

lemma digits_val_show_nat: "digits_val 0 (show_nat n) = Some n"
proof (induction n rule: show_nat.induct)
  case (1 n)
  show ?case
  proof (cases "n < 10")
    case True
    then show ?thesis by (simp add: show_nat.simps [of n] digit_val_char)
  next
    case False
    with 1 have "digits_val 0 (show_nat (n div 10)) = Some (n div 10)" by simp
    moreover have "digit_val (digit_char (n mod 10)) = Some (n mod 10)"
      by (rule digit_val_char) simp
    ultimately show ?thesis
      using False by (simp add: show_nat.simps [of n] digits_val_append)
  qed
qed

lemma digits_val_pad: "digits_val 0 (pad_zeros w s) = digits_val 0 s"
  by (simp add: pad_zeros_def digits_val_zeros)

text \<open>The loop succeeds exactly on the digit strings whose value fits, and returns that value.\<close>

lemma parse_uint_loop_ok:
  "acc \<le> mx \<Longrightarrow> parse_uint_loop mx acc s = Inr v \<longleftrightarrow> digits_val acc s = Some v \<and> v \<le> mx"
proof (induction s arbitrary: acc)
  case Nil
  then show ?case by auto
next
  case (Cons c cs)
  then show ?case
    by (auto split: option.splits dest: digits_val_mono)
qed

lemma parse_uint_ok:
  "parse_uint bits s = Inr v \<longleftrightarrow> s \<noteq> [] \<and> digits_val 0 s = Some v \<and> v < 2 ^ bits"
proof -
  have "v \<le> 2 ^ bits - 1 \<longleftrightarrow> v < 2 ^ bits"
    by (metis Suc_pred' le_imp_less_Suc less_Suc_eq_le zero_less_power zero_less_numeral)
  then show ?thesis
    by (auto simp: parse_uint_def parse_uint_loop_ok)
qed

lemma show_nat_nonempty [simp]: "show_nat n \<noteq> []"
  by (subst show_nat.simps) simp

lemma parse_uint_show_nat: "n < 2 ^ bits \<Longrightarrow> parse_uint bits (show_nat n) = Inr n"
  by (simp add: parse_uint_ok digits_val_show_nat)

end
