(* ===== verification/Go_Time.thy ===== *)
theory Go_Time
  imports Go_Text "HOL-Library.Monad_Syntax"
begin

text \<open>
  What the source uses of Go's \<open>time\<close> package. A \<open>time.Time\<close> is an instant (nanoseconds since the
  Unix epoch) together with the offset of its location; its calendar fields are those of its own
  location, comparisons are those of the instant. Calendar dates are proleptic Gregorian.
\<close>

record go_time =
  unix_ns :: int
  zone_off :: int

type_synonym duration = int

definition second_ns :: int where "second_ns = 1000000000"
definition hours :: "int \<Rightarrow> duration" where "hours n = n * 3600 * second_ns"
definition seconds :: "int \<Rightarrow> duration" where "seconds n = n * second_ns"
definition minutes :: "int \<Rightarrow> duration" where "minutes n = n * 60 * second_ns"

lemmas duration_defs = second_ns_def hours_def seconds_def minutes_def

definition time_add :: "go_time \<Rightarrow> duration \<Rightarrow> go_time" where
  "time_add t d = t\<lparr>unix_ns := unix_ns t + d\<rparr>"

definition time_before :: "go_time \<Rightarrow> go_time \<Rightarrow> bool" where
  "time_before t u = (unix_ns t < unix_ns u)"

definition time_after :: "go_time \<Rightarrow> go_time \<Rightarrow> bool" where
  "time_after t u = (unix_ns u < unix_ns t)"

section \<open>Civil dates\<close>

text \<open>
  Days are counted from 1970-01-01. A year here starts on 1 March, so that the leap day is its
  last one; eras are blocks of 400 years, 146097 days.
\<close>

definition days_before_year :: "int \<Rightarrow> int" where
  "days_before_year y = 365 * y + y div 4 - y div 100"

definition days_before_month :: "int \<Rightarrow> int" where
  "days_before_month m = (153 * m + 2) div 5"

definition days_from_civil :: "int \<Rightarrow> int \<Rightarrow> int \<Rightarrow> int" where
  "days_from_civil y m d =
     (let y' = (if m \<le> 2 then y - 1 else y);
          mp = (if 2 < m then m - 3 else m + 9)
      in (y' div 400) * 146097 + days_before_year (y' mod 400) + days_before_month mp + d - 1 - 719468)"

definition year_of_era :: "int \<Rightarrow> int" where
  "year_of_era doe = (let y = doe div 366 in
     if days_before_year (y + 1) \<le> doe \<and> y < 399 then y + 1 else y)"

definition civil_from_days :: "int \<Rightarrow> int \<times> int \<times> int" where
  "civil_from_days z =
     (let doe = (z + 719468) mod 146097;
          yoe = year_of_era doe;
          doy = doe - days_before_year yoe;
          mp = (5 * doy + 2) div 153;
          m = (if mp < 10 then mp + 3 else mp - 9)
      in (yoe + (z + 719468) div 146097 * 400 + (if m \<le> 2 then 1 else 0),
          m, doy - days_before_month mp + 1))"

definition leap_year :: "int \<Rightarrow> bool" where
  "leap_year y \<longleftrightarrow> y mod 4 = 0 \<and> (y mod 100 \<noteq> 0 \<or> y mod 400 = 0)"

definition days_in_month :: "int \<Rightarrow> int \<Rightarrow> int" where
  "days_in_month y m =
     (if m = 2 then (if leap_year y then 29 else 28)
      else if m \<in> {4, 6, 9, 11} then 30 else 31)"

definition valid_civil :: "int \<Rightarrow> int \<Rightarrow> int \<Rightarrow> bool" where
  "valid_civil y m d \<longleftrightarrow> 1 \<le> m \<and> m \<le> 12 \<and> 1 \<le> d \<and> d \<le> days_in_month y m"

subsection \<open>The two directions are inverse\<close>

lemma div_bounds:
  fixes x k :: int
  assumes "0 < k"
  shows "k * (x div k) \<le> x" and "x < k * (x div k) + k"
  using assms pos_mod_bound [of k x] pos_mod_sign [of k x] mult_div_mod_eq [of k x] by linarith+

lemma div_succ:
  fixes x k :: int
  assumes "0 < k"
  shows "(x + 1) div k = x div k + (if (x + 1) mod k = 0 then 1 else 0)"
proof -
  have r: "0 \<le> x mod k" "x mod k < k" using assms by simp_all
  have x: "x = k * (x div k) + x mod k" by simp
  show ?thesis
  proof (cases "x mod k + 1 = k")
    case True
    then have "x + 1 = k * (x div k + 1)" using x by (simp only: distrib_left)
    then show ?thesis using assms by simp
  next
    case False
    then have s: "0 \<le> x mod k + 1" "x mod k + 1 < k" using r by linarith+
    have "x + 1 = k * (x div k) + (x mod k + 1)" using x by linarith
    then have "(x + 1) div k = x div k" "(x + 1) mod k = x mod k + 1"
      using s div_pos_pos_trivial [OF s] mod_pos_pos_trivial [OF s] assms
      by (metis add.commute add.right_neutral div_mult_self2 less_irrefl, metis mod_mult_self4)
    with r show ?thesis by simp
  qed
qed

lemma days_before_year_diff:
  "days_before_year (y + 1) - days_before_year y =
     365 + (if (y + 1) mod 4 = 0 then 1 else 0) - (if (y + 1) mod 100 = 0 then 1 else 0)"
  unfolding days_before_year_def div_succ [of 4 y, simplified] div_succ [of 100 y, simplified]
  by (simp only: distrib_left)

lemma century_mod: "(y::int) mod 100 = 0 \<Longrightarrow> y mod 4 = 0"
proof -
  assume "y mod 100 = 0"
  moreover have "y mod 4 = y mod 100 mod 4" by (simp add: mod_mod_cancel)
  ultimately show ?thesis by simp
qed

lemma days_before_year_step:
  "days_before_year y + 365 \<le> days_before_year (y + 1) \<and> days_before_year (y + 1) \<le> days_before_year y + 366"
  using days_before_year_diff [of y] century_mod [of "y + 1"] by (simp split: if_splits)

lemma days_before_year_mono:
  assumes "y \<le> y'"
  shows "days_before_year y + 365 * (y' - y) \<le> days_before_year y'"
proof -
  have "days_before_year y + 365 * int n \<le> days_before_year (y + int n)" for n
  proof (induction n)
    case 0
    then show ?case by simp
  next
    case (Suc n)
    with days_before_year_step [of "y + int n"] show ?case by (simp add: algebra_simps)
  qed
  from this [of "nat (y' - y)"] assms show ?thesis by simp
qed

lemma year_of_days_unique:
  assumes "days_before_year y \<le> d" and "d < days_before_year (y + 1)"
    and "days_before_year y' \<le> d" and "d < days_before_year (y' + 1)"
  shows "y = y'"
proof (rule ccontr)
  assume "y \<noteq> y'"
  then consider "y + 1 \<le> y'" | "y' + 1 \<le> y" by linarith
  then show False
    using assms days_before_year_mono [of "y + 1" y'] days_before_year_mono [of "y' + 1" y]
    by cases auto
qed

lemma year_of_era_bounds:
  assumes "0 \<le> doe" and "doe < 146097"
  shows "0 \<le> year_of_era doe" and "year_of_era doe \<le> 399"
    and "days_before_year (year_of_era doe) \<le> doe"
    and "doe < days_before_year (year_of_era doe) + 366"
    and "year_of_era doe < 399 \<Longrightarrow> doe < days_before_year (year_of_era doe + 1)"
proof -
  define y where "y = doe div 366"
  have doe: "366 * y \<le> doe" "doe < 366 * y + 366"
    unfolding y_def using div_bounds [of 366 doe] by simp_all
  have y: "0 \<le> y" "y \<le> 399" using assms doe by linarith+
  have low: "days_before_year y \<le> doe"
    unfolding days_before_year_def
    using doe y div_bounds [of 4 y] div_bounds [of 100 y] by linarith
  have high: "doe < days_before_year (y + 2)"
  proof -
    define a b where "a = (y + 2) div 4" and "b = (y + 2) div 100"
    have "y + 2 < 4 * a + 4" "100 * b \<le> y + 2"
      unfolding a_def b_def using div_bounds [of 4 "y + 2"] div_bounds [of 100 "y + 2"] by simp_all
    then have "doe < 365 * y + 730 + a - b" using doe y by linarith
    then show ?thesis by (simp add: days_before_year_def a_def b_def)
  qed
  have last: "days_before_year 399 = 145731" by (simp add: days_before_year_def)
  have def: "year_of_era doe = (if days_before_year (y + 1) \<le> doe \<and> y < 399 then y + 1 else y)"
    by (simp add: year_of_era_def Let_def y_def)
  show "0 \<le> year_of_era doe" "year_of_era doe \<le> 399" using y by (auto simp: def)
  show "days_before_year (year_of_era doe) \<le> doe" using low by (auto simp: def)
  show next_year: "doe < days_before_year (year_of_era doe + 1)" if "year_of_era doe < 399"
    using that high by (auto simp: def add.commute split: if_splits)
  show "doe < days_before_year (year_of_era doe) + 366"
  proof (cases "year_of_era doe < 399")
    case True
    with next_year days_before_year_step [of "year_of_era doe"] show ?thesis by linarith
  next
    case False
    with \<open>year_of_era doe \<le> 399\<close> have "year_of_era doe = 399" by linarith
    with last assms show ?thesis by simp
  qed
qed

lemma year_of_era_unique:
  assumes "0 \<le> y" and "y \<le> 399" and "days_before_year y \<le> doe"
    and "doe < days_before_year (y + 1) \<or> y = 399 \<and> doe < 146097"
  shows "year_of_era doe = y"
proof -
  have "days_before_year 0 = 0" "days_before_year 400 = 146096" "days_before_year 399 = 145731"
    by (simp_all add: days_before_year_def)
  note vals = this
  have doe: "0 \<le> doe"
    using assms(1,3) days_before_year_mono [of 0 y] vals by simp
  have doe': "doe < 146097"
    using assms days_before_year_mono [of "y + 1" 400] vals by auto
  note b = year_of_era_bounds [OF doe doe']
  show ?thesis
  proof (cases "y = 399")
    case True
    have "\<not> year_of_era doe < 399"
    proof
      assume lt: "year_of_era doe < 399"
      with b(5) have "doe < days_before_year (year_of_era doe + 1)" by simp
      moreover have "days_before_year (year_of_era doe + 1) \<le> days_before_year 399"
        using days_before_year_mono [of "year_of_era doe + 1" 399] lt by simp
      ultimately show False using assms(3) True by simp
    qed
    with b(2) True show ?thesis by simp
  next
    case False
    with assms have up: "doe < days_before_year (y + 1)" by auto
    have "year_of_era doe < 399"
    proof (rule ccontr)
      assume "\<not> year_of_era doe < 399"
      with b(2) have "year_of_era doe = 399" by simp
      with b(3) have "days_before_year 399 \<le> doe" by simp
      moreover have "days_before_year (y + 1) \<le> days_before_year 399"
        using days_before_year_mono [of "y + 1" 399] False assms(2) by simp
      ultimately show False using up by simp
    qed
    with b up assms(3) show ?thesis by (intro year_of_days_unique) auto
  qed
qed

lemma month_of_year_bounds:
  assumes "0 \<le> doy" and "doy < 366"
  shows "0 \<le> (5 * doy + 2) div 153" and "(5 * doy + 2) div 153 \<le> 11"
    and "days_before_month ((5 * doy + 2) div 153) \<le> doy"
proof -
  define m where "m = (5 * doy + 2) div 153"
  have m: "153 * m \<le> 5 * doy + 2" "5 * doy + 2 < 153 * m + 153"
    unfolding m_def using div_bounds [of 153 "5 * doy + 2"] by simp_all
  show "0 \<le> m" "m \<le> 11" using m assms by linarith+
  show "days_before_month m \<le> doy"
    unfolding days_before_month_def using m div_bounds [of 5 "153 * m + 2"] by linarith
qed

lemma month_of_year_unique:
  assumes "days_before_month m \<le> doy" and "doy < days_before_month (m + 1)"
  shows "(5 * doy + 2) div 153 = m"
proof -
  define q where "q = (5 * doy + 2) div 153"
  have q: "153 * q \<le> 5 * doy + 2" "5 * doy + 2 < 153 * q + 153"
    unfolding q_def using div_bounds [of 153 "5 * doy + 2"] by simp_all
  have step: "153 * (m + 1) + 2 = 153 * m + 155" by simp
  have "153 * m + 2 < 5 * doy + 5" "5 * doy + 5 \<le> 153 * m + 155"
    using assms div_bounds [of 5 "153 * m + 2"] div_bounds [of 5 "153 * m + 155"]
    unfolding days_before_month_def step by linarith+
  with q have "q \<le> m" and "m \<le> q" by linarith+
  then show ?thesis by (simp add: q_def)
qed

lemma days_from_civil_from_days:
  assumes "civil_from_days z = (y, m, d)"
  shows "days_from_civil y m d = z"
proof -
  define era where "era = (z + 719468) div 146097"
  define doe where "doe = (z + 719468) mod 146097"
  define yoe where "yoe = year_of_era doe"
  define doy where "doy = doe - days_before_year yoe"
  define mp where "mp = (5 * doy + 2) div 153"
  have doe: "0 \<le> doe" "doe < 146097" by (simp_all add: doe_def)
  note yb = year_of_era_bounds [OF doe, folded yoe_def]
  have doy: "0 \<le> doy" "doy < 366" using yb by (simp_all add: doy_def)
  note mb = month_of_year_bounds [OF doy, folded mp_def]
  have z: "z = era * 146097 + doe - 719468"
    by (simp add: era_def doe_def)
  have "civil_from_days z =
      (yoe + era * 400 + (if (if mp < 10 then mp + 3 else mp - 9) \<le> 2 then 1 else 0),
       if mp < 10 then mp + 3 else mp - 9, doy - days_before_month mp + 1)"
    unfolding civil_from_days_def Let_def era_def doe_def yoe_def doy_def mp_def by (rule refl)
  with assms have all0: "(yoe + era * 400 + (if (if mp < 10 then mp + 3 else mp - 9) \<le> 2 then 1 else 0),
       if mp < 10 then mp + 3 else mp - 9, doy - days_before_month mp + 1) = (y, m, d)"
    by (simp only:)
  from all0 have m0: "m = (if mp < 10 then mp + 3 else mp - 9)" by (simp only: prod.inject)
  from all0 have "y = yoe + era * 400 + (if m \<le> 2 then 1 else 0)"
    unfolding m0 by (simp only: prod.inject)
  moreover from all0 have "d = doy - days_before_month mp + 1" by (simp only: prod.inject)
  ultimately have ymd: "m = (if mp < 10 then mp + 3 else mp - 9)"
    "y = yoe + era * 400 + (if m \<le> 2 then 1 else 0)" "d = doy - days_before_month mp + 1"
    using m0 by blast+
  have mp': "(if 2 < m then m - 3 else m + 9) = mp" "(m \<le> 2) = (10 \<le> mp)"
    using mb(1,2) ymd(1) by (auto split: if_splits)
  have y': "(if m \<le> 2 then y - 1 else y) = yoe + era * 400" using ymd(2) by simp
  have "(yoe + era * 400) div 400 = era" "(yoe + era * 400) mod 400 = yoe"
    using yb(1,2) by simp_all
  then show ?thesis
    unfolding days_from_civil_def Let_def mp'(1) y' using ymd(3) z by (simp add: doy_def)
qed

lemma days_in_civil_month:
  assumes "valid_civil y m d" and "y' = (if m \<le> 2 then y - 1 else y)"
    and "mp = (if 2 < m then m - 3 else m + 9)"
  shows "0 \<le> mp" and "mp \<le> 11" and "d \<le> days_before_month (mp + 1) - days_before_month mp"
    and "mp = 11 \<Longrightarrow> days_before_month mp + d \<le> 365 + (if leap_year (y' + 1) then 1 else 0)"
proof -
  have "m = 1 \<or> m = 2 \<or> m = 3 \<or> m = 4 \<or> m = 5 \<or> m = 6 \<or> m = 7 \<or> m = 8 \<or> m = 9 \<or> m = 10 \<or>
      m = 11 \<or> m = 12" and d: "d \<le> days_in_month y m"
    using assms(1) unfolding valid_civil_def by presburger+
  then have m: "m \<in> {1, 2, 3, 4, 5, 6, 7, 8, 9, 10, 11, 12}" by auto
  show "0 \<le> mp" "mp \<le> 11" using m assms(3) by auto
  show "d \<le> days_before_month (mp + 1) - days_before_month mp"
    using m d assms(3) by (auto simp: days_in_month_def days_before_month_def split: if_splits)
  show "days_before_month mp + d \<le> 365 + (if leap_year (y' + 1) then 1 else 0)" if "mp = 11"
    using that m d assms(2,3) by (auto simp: days_in_month_def days_before_month_def split: if_splits)
qed

lemma year_length:
  assumes "0 \<le> y" and "y < 399"
  shows "days_before_year (y + 1) = days_before_year y + 365 + (if leap_year (y + 1 + 400 * e) then 1 else 0)"
proof -
  have "(y + 1 + 400 * e) mod 4 = (y + 1) mod 4"
    using mod_mult_self2 [of "y + 1" 4 "100 * e"] by simp
  moreover have "(y + 1 + 400 * e) mod 100 = (y + 1) mod 100"
    using mod_mult_self2 [of "y + 1" 100 "4 * e"] by simp
  moreover have "(y + 1 + 400 * e) mod 400 \<noteq> 0"
    using assms mod_mult_self2 [of "y + 1" 400 e] by simp
  ultimately have leap: "leap_year (y + 1 + 400 * e) \<longleftrightarrow> (y + 1) mod 4 = 0 \<and> (y + 1) mod 100 \<noteq> 0"
    unfolding leap_year_def by simp
  show ?thesis
    using days_before_year_diff [of y] century_mod [of "y + 1"] unfolding leap by (simp split: if_splits)
qed

lemma civil_from_days_from_civil:
  assumes "valid_civil y m d"
  shows "civil_from_days (days_from_civil y m d) = (y, m, d)"
proof -
  define y' where "y' = (if m \<le> 2 then y - 1 else y)"
  define mp where "mp = (if 2 < m then m - 3 else m + 9)"
  define era where "era = y' div 400"
  define yoe where "yoe = y' mod 400"
  define doy where "doy = days_before_month mp + d - 1"
  define doe where "doe = days_before_year yoe + doy"
  note mb = days_in_civil_month [OF assms y'_def mp_def]
  have d: "1 \<le> d" using assms by (simp add: valid_civil_def)
  have yoe: "0 \<le> yoe" "yoe \<le> 399" by (simp_all add: yoe_def)
  have y': "y' = yoe + 400 * era" by (simp add: era_def yoe_def)
  have doy_m: "days_before_month mp \<le> doy" "doy < days_before_month (mp + 1)"
    using mb(3) d by (simp_all add: doy_def)
  have doy0: "0 \<le> doy"
    using doy_m(1) mb(1) by (simp add: days_before_month_def)
  have doy_leap: "doy < 365 + (if leap_year (y' + 1) then 1 else 0)"
  proof (cases "mp = 11")
    case True
    with mb(4) show ?thesis by (simp add: doy_def)
  next
    case False
    with mb(2) have "153 * (mp + 1) + 2 \<le> 1685" by simp
    then have "days_before_month (mp + 1) \<le> 337"
      unfolding days_before_month_def using div_bounds [of 5 "153 * (mp + 1) + 2"] by simp
    with doy_m(2) show ?thesis by simp
  qed
  have yoe_eq: "year_of_era doe = yoe"
  proof (rule year_of_era_unique [OF yoe])
    show "days_before_year yoe \<le> doe" using doy0 by (simp add: doe_def)
    show "doe < days_before_year (yoe + 1) \<or> yoe = 399 \<and> doe < 146097"
    proof (cases "yoe = 399")
      case True
      then show ?thesis using doy_leap by (simp add: doe_def days_before_year_def split: if_splits)
    next
      case False
      with yoe have "yoe < 399" by simp
      note len = year_length [OF yoe(1) this, of era]
      have "y' + 1 = yoe + 1 + 400 * era" by (simp add: y')
      with len doy_leap have "doe < days_before_year (yoe + 1)" by (simp add: doe_def)
      then show ?thesis ..
    qed
  qed
  have "0 \<le> doe"
    using doy0 days_before_year_mono [of 0 yoe] yoe by (simp add: doe_def days_before_year_def)
  moreover have "doe < 146097"
  proof -
    have "days_before_year yoe \<le> days_before_year 399 - 365 * (399 - yoe)"
      using days_before_year_mono [of yoe 399] yoe by simp
    then show ?thesis using doy_leap yoe by (simp add: doe_def days_before_year_def split: if_splits)
  qed
  moreover have "days_from_civil y m d + 719468 = era * 146097 + doe"
    unfolding days_from_civil_def Let_def y'_def [symmetric] mp_def [symmetric]
    by (simp add: era_def yoe_def doe_def doy_def)
  ultimately have dm: "(days_from_civil y m d + 719468) div 146097 = era"
    "(days_from_civil y m d + 719468) mod 146097 = doe" by simp_all
  have mp_eq: "(5 * doy + 2) div 153 = mp" by (rule month_of_year_unique [OF doy_m])
  have doy_eq: "doe - days_before_year yoe = doy" by (simp add: doe_def)
  have m_eq: "(if mp < 10 then mp + 3 else mp - 9) = m"
    using assms by (auto simp: mp_def valid_civil_def)
  have y_eq: "yoe + era * 400 + (if m \<le> 2 then 1 else 0) = y"
    using y' by (auto simp: y'_def split: if_splits)
  show ?thesis
    unfolding civil_from_days_def dm Let_def yoe_eq doy_eq mp_eq m_eq y_eq by (simp add: doy_def)
qed

lemma civil_from_days_valid:
  assumes "civil_from_days z = (y, m, d)"
  shows "1 \<le> m" and "m \<le> 12" and "1 \<le> d" and "d \<le> 31"
proof -
  define doe where "doe = (z + 719468) mod 146097"
  define doy where "doy = doe - days_before_year (year_of_era doe)"
  define mp where "mp = (5 * doy + 2) div 153"
  have doe: "0 \<le> doe" "doe < 146097" by (simp_all add: doe_def)
  note yb = year_of_era_bounds [OF doe]
  have doy: "0 \<le> doy" "doy < 366" using yb by (simp_all add: doy_def)
  note mb = month_of_year_bounds [OF doy, folded mp_def]
  have "snd (civil_from_days z) = (if mp < 10 then mp + 3 else mp - 9, doy - days_before_month mp + 1)"
    unfolding civil_from_days_def Let_def doe_def doy_def mp_def by (simp only: snd_conv)
  with assms have md: "m = (if mp < 10 then mp + 3 else mp - 9)" "d = doy - days_before_month mp + 1"
    by simp_all
  from md(1) mb(1,2) show "1 \<le> m" "m \<le> 12" by auto
  from md(2) mb(3) show "1 \<le> d" by simp
  have "5 * doy + 2 < 153 * mp + 153"
    unfolding mp_def using div_bounds [of 153 "5 * doy + 2"] by simp
  moreover have "153 * mp + 2 < 5 * days_before_month mp + 5"
    unfolding days_before_month_def using div_bounds [of 5 "153 * mp + 2"] by simp
  ultimately show "d \<le> 31" using md(2) by linarith
qed

section \<open>Calendar fields, Date and Format\<close>

definition local_ns :: "go_time \<Rightarrow> int" where
  "local_ns t = unix_ns t + zone_off t * second_ns"

definition day_ns :: int where "day_ns = 86400 * second_ns"

definition date_of :: "go_time \<Rightarrow> int \<times> int \<times> int" where
  "date_of t = civil_from_days (local_ns t div day_ns)"

definition year_of :: "go_time \<Rightarrow> int" where "year_of t = fst (date_of t)"
definition month_of :: "go_time \<Rightarrow> int" where "month_of t = fst (snd (date_of t))"
definition day_of :: "go_time \<Rightarrow> int" where "day_of t = snd (snd (date_of t))"

text \<open>\<open>time.Date(y, m, d, h, mi, s, ns, loc)\<close> for a valid month, in a location with a fixed offset.\<close>

definition go_date :: "int \<Rightarrow> int \<Rightarrow> int \<Rightarrow> int \<Rightarrow> int \<Rightarrow> int \<Rightarrow> int \<Rightarrow> int \<Rightarrow> go_time" where
  "go_date y m d h mi s ns off =
     \<lparr>unix_ns = (days_from_civil y m d * 86400 + h * 3600 + mi * 60 + s - off) * second_ns + ns,
      zone_off = off\<rparr>"

text \<open>The layouts the source formats with: \<open>20060102\<close> and \<open>2006-01-02\<close> (\<open>time.DateOnly\<close>).\<close>

definition format_year :: "int \<Rightarrow> string" where
  "format_year y = (if y < 0 then CHR ''-'' # pad_zeros 4 (show_nat (nat (- y)))
                    else pad_zeros 4 (show_nat (nat y)))"

definition format_two :: "int \<Rightarrow> string" where
  "format_two n = pad_zeros 2 (show_nat (nat n))"

definition format_compact :: "go_time \<Rightarrow> string" where
  "format_compact t = format_year (year_of t) @ format_two (month_of t) @ format_two (day_of t)"

definition format_date_only :: "go_time \<Rightarrow> string" where
  "format_date_only t = format_year (year_of t) @ ''-'' @ format_two (month_of t) @ ''-'' @ format_two (day_of t)"

lemma month_of_bounds: "1 \<le> month_of t" "month_of t \<le> 12"
  and day_of_bounds: "1 \<le> day_of t" "day_of t \<le> 31"
  using civil_from_days_valid [of "local_ns t div day_ns" "year_of t" "month_of t" "day_of t"]
  by (simp_all add: year_of_def month_of_def day_of_def date_of_def)

lemma date_of_go_date:
  assumes "valid_civil y m d" and "0 \<le> h" and "h < 24" and "0 \<le> mi" and "mi < 60"
    and "0 \<le> s" and "s < 60" and "0 \<le> ns" and "ns < second_ns"
  shows "date_of (go_date y m d h mi s ns off) = (y, m, d)"
proof -
  define secs where "secs = h * 3600 + mi * 60 + s"
  define r where "r = secs * second_ns + ns"
  have "0 \<le> secs" "secs < 86400" using assms unfolding secs_def by linarith+
  then have "0 \<le> r" "r < day_ns"
    using assms(8,9) unfolding r_def day_ns_def second_ns_def by linarith+
  moreover have "local_ns (go_date y m d h mi s ns off) = days_from_civil y m d * day_ns + r"
    by (simp add: local_ns_def go_date_def day_ns_def second_ns_def r_def secs_def algebra_simps)
  ultimately have "local_ns (go_date y m d h mi s ns off) div day_ns = days_from_civil y m d"
    by simp
  then show ?thesis
    by (simp add: date_of_def civil_from_days_from_civil [OF assms(1)])
qed

text \<open>Rebuilding a date from the fields of a UTC time truncates the time to its day.\<close>

definition utc_midnight :: "go_time \<Rightarrow> go_time" where
  "utc_midnight t = go_date (year_of t) (month_of t) (day_of t) 0 0 0 0 0"

lemma utc_midnight_eq:
  "utc_midnight t = \<lparr>unix_ns = local_ns t div day_ns * day_ns, zone_off = 0\<rparr>"
proof -
  obtain y m d where ymd: "civil_from_days (local_ns t div day_ns) = (y, m, d)"
    by (metis prod_cases3)
  from days_from_civil_from_days [OF ymd] ymd show ?thesis
    by (simp add: utc_midnight_def go_date_def year_of_def month_of_def day_of_def date_of_def day_ns_def)
qed

lemma utc_midnight_idem: "utc_midnight (utc_midnight t) = utc_midnight t"
  by (simp add: utc_midnight_eq local_ns_def day_ns_def second_ns_def)

text \<open>The digits of the compact form, read as a number.\<close>

definition compact_value :: "int \<Rightarrow> int \<Rightarrow> int \<Rightarrow> int" where
  "compact_value y m d = y * 10000 + m * 100 + d"

lemma digit_char_0: "digit_char 0 = CHR ''0''"
  by code_simp

lemma digits_val_two:
  assumes "0 \<le> n" and "n < 100"
  shows "digits_val acc (format_two n) = Some (acc * 100 + nat n)"
proof -
  have step: "digits_val acc [digit_char a, digit_char b] = Some (acc * 100 + (a * 10 + b))"
    if "a < 10" "b < 10" for a b
    using that by (simp add: digit_val_char)
  show ?thesis
  proof (cases "nat n < 10")
    case True
    then have "format_two n = [digit_char 0, digit_char (nat n)]"
      by (simp add: format_two_def pad_zeros_def show_nat.simps [of "nat n"] digit_char_0 numeral_2_eq_2)
    with step [of 0 "nat n"] True show ?thesis by simp
  next
    case False
    have lt: "nat n div 10 < 10" using assms by linarith
    with False have "format_two n = [digit_char (nat n div 10), digit_char (nat n mod 10)]"
      by (simp add: format_two_def pad_zeros_def show_nat.simps [of "nat n"] show_nat.simps [of "nat n div 10"])
    with step [OF lt, of "nat n mod 10"] show ?thesis by simp
  qed
qed

lemma digits_val_year: "0 \<le> y \<Longrightarrow> digits_val 0 (format_year y) = Some (nat y)"
  by (simp add: format_year_def digits_val_pad digits_val_show_nat)

lemma digits_val_compact:
  assumes "0 \<le> year_of t"
  shows "digits_val 0 (format_compact t) = Some (nat (compact_value (year_of t) (month_of t) (day_of t)))"
proof -
  have "0 \<le> month_of t" "month_of t < 100" "0 \<le> day_of t" "day_of t < 100"
    using month_of_bounds [of t] day_of_bounds [of t] by linarith+
  moreover from this have "nat (compact_value (year_of t) (month_of t) (day_of t)) =
      (nat (year_of t) * 100 + nat (month_of t)) * 100 + nat (day_of t)"
    using assms by (simp add: compact_value_def nat_add_distrib nat_mult_distrib algebra_simps)
  ultimately show ?thesis
    using assms by (simp add: format_compact_def digits_val_append digits_val_year digits_val_two)
qed

lemma format_compact_nonempty: "format_compact t \<noteq> []"
  by (simp add: format_compact_def format_year_def pad_zeros_def)

lemma format_compact_negative: "year_of t < 0 \<Longrightarrow> digits_val 0 (format_compact t) = None"
  by (simp add: format_compact_def format_year_def digit_val_def)

section \<open>Parsing\<close>

text \<open>
  The chunks of \<open>time.Parse\<close> for the two layouts in use. A parser takes the unread input and
  returns the value with the rest; \<open>None\<close> is the \<open>*ParseError\<close>.
\<close>

type_synonym 'a time_parser = "string \<Rightarrow> ('a \<times> string) option"

definition get_num :: "bool \<Rightarrow> int time_parser" where
  "get_num fixed s =
     (case s of
        [] \<Rightarrow> None
      | c # rest \<Rightarrow>
          (case digit_val c of
             None \<Rightarrow> None
           | Some a \<Rightarrow>
               (case (case rest of [] \<Rightarrow> None | c2 # _ \<Rightarrow> digit_val c2) of
                  None \<Rightarrow> if fixed then None else Some (int a, rest)
                | Some b \<Rightarrow> Some (int (a * 10 + b), tl rest))))"

definition get_ranged :: "bool \<Rightarrow> int \<Rightarrow> int \<Rightarrow> int time_parser" where
  "get_ranged fixed lo hi s =
     (case get_num fixed s of None \<Rightarrow> None | Some (n, rest) \<Rightarrow> if lo \<le> n \<and> n \<le> hi then Some (n, rest) else None)"

definition get_year4 :: "int time_parser" where
  "get_year4 s =
     (if length s < 4 then None
      else (case digits_val 0 (take 4 s) of None \<Rightarrow> None | Some y \<Rightarrow> Some (int y, drop 4 s)))"

definition skip_char :: "char \<Rightarrow> unit time_parser" where
  "skip_char c s = (case s of [] \<Rightarrow> None | x # rest \<Rightarrow> if x = c then Some ((), rest) else None)"

text \<open>A space of the layout stands for any number of spaces of the input.\<close>

definition skip_space :: "unit time_parser" where
  "skip_space s =
     (case s of
        [] \<Rightarrow> Some ((), [])
      | x # _ \<Rightarrow> if x = CHR '' '' then Some ((), dropWhile (\<lambda>c. c = CHR '' '') s) else None)"

definition is_digit :: "char \<Rightarrow> bool" where
  "is_digit c \<longleftrightarrow> digit_val c \<noteq> None"

text \<open>Fractional seconds the layout does not mention are accepted after the seconds.\<close>

definition frac_ns :: "string \<Rightarrow> int" where
  "frac_ns ds = (case digits_val 0 ds of Some v \<Rightarrow> int v * 10 ^ (9 - length ds) | None \<Rightarrow> 0)"

definition get_frac :: "string \<Rightarrow> int \<times> string" where
  "get_frac s =
     (case s of
        c # d # rest \<Rightarrow>
          if (c = CHR ''.'' \<or> c = CHR '','') \<and> is_digit d
          then (frac_ns (take 9 (takeWhile is_digit (d # rest))), dropWhile is_digit (d # rest))
          else (0, s)
      | _ \<Rightarrow> (0, s))"

definition get_date :: "(int \<times> int \<times> int) time_parser" where
  "get_date s = do {
     (y, s1) \<leftarrow> get_year4 s;
     (_, s2) \<leftarrow> skip_char (CHR ''-'') s1;
     (m, s3) \<leftarrow> get_ranged True 1 12 s2;
     (_, s4) \<leftarrow> skip_char (CHR ''-'') s3;
     (d, s5) \<leftarrow> get_num True s4;
     Some ((y, m, d), s5)
   }"

definition get_clock :: "(int \<times> int \<times> int \<times> int) time_parser" where
  "get_clock s = do {
     (h, s1) \<leftarrow> get_ranged False 0 23 s;
     (_, s2) \<leftarrow> skip_char (CHR '':'') s1;
     (mi, s3) \<leftarrow> get_ranged True 0 59 s2;
     (_, s4) \<leftarrow> skip_char (CHR '':'') s3;
     (sec, s5) \<leftarrow> get_ranged True 0 59 s4;
     Some ((h, mi, sec, fst (get_frac s5)), snd (get_frac s5))
   }"

definition get_zone :: "int time_parser" where
  "get_zone s =
     (case s of
        [] \<Rightarrow> None
      | c # rest \<Rightarrow>
          if c = CHR ''Z'' then Some (0, rest)
          else if length s < 6 \<or> s ! 3 \<noteq> CHR '':'' then None
          else do {
            (hr, _) \<leftarrow> get_num True [s ! 1, s ! 2];
            (mm, _) \<leftarrow> get_num True [s ! 4, s ! 5];
            (if 24 < hr \<or> 60 < mm then None
             else if c = CHR ''+'' then Some ((hr * 60 + mm) * 60, drop 6 s)
             else if c = CHR ''-'' then Some (- ((hr * 60 + mm) * 60), drop 6 s)
             else None)
          })"

text \<open>\<open>time.ParseInLocation(time.DateTime, s, time.UTC)\<close>, layout \<open>2006-01-02 15:04:05\<close>.\<close>

definition parse_date_time :: "string \<Rightarrow> go_time option" where
  "parse_date_time s = do {
     ((y, m, d), s1) \<leftarrow> get_date s;
     (_, s2) \<leftarrow> skip_space s1;
     ((h, mi, sec, ns), s3) \<leftarrow> get_clock s2;
     (if s3 \<noteq> [] \<or> d < 1 \<or> days_in_month y m < d then None
      else Some (go_date y m d h mi sec ns 0))
   }"

text \<open>\<open>time.Parse(time.RFC3339, s)\<close>, layout \<open>2006-01-02T15:04:05Z07:00\<close>.\<close>

definition parse_rfc3339 :: "string \<Rightarrow> go_time option" where
  "parse_rfc3339 s = do {
     ((y, m, d), s1) \<leftarrow> get_date s;
     (_, s2) \<leftarrow> skip_char (CHR ''T'') s1;
     ((h, mi, sec, ns), s3) \<leftarrow> get_clock s2;
     (off, s4) \<leftarrow> get_zone s3;
     (if s4 \<noteq> [] \<or> d < 1 \<or> days_in_month y m < d then None
      else Some (go_date y m d h mi sec ns off))
   }"

lemma get_ranged_range: "get_ranged fixed lo hi s = Some (n, rest) \<Longrightarrow> lo \<le> n \<and> n \<le> hi"
  by (auto simp: get_ranged_def split: option.splits prod.splits if_splits)

lemma digits_val_less: "digits_val acc s = Some v \<Longrightarrow> v < (acc + 1) * 10 ^ length s"
proof (induction s arbitrary: acc)
  case Nil
  then show ?case by simp
next
  case (Cons c cs)
  then obtain d where d: "digit_val c = Some d" "digits_val (acc * 10 + d) cs = Some v"
    by (auto split: option.splits)
  have "v < (acc * 10 + d + 1) * 10 ^ length cs" using Cons.IH [OF d(2)] .
  also have "\<dots> \<le> ((acc + 1) * 10) * 10 ^ length cs"
    using digit_val_bound [OF d(1)] by (intro mult_right_mono) auto
  finally show ?case by (simp add: algebra_simps)
qed

lemma get_year4_range: "get_year4 s = Some (y, rest) \<Longrightarrow> 0 \<le> y \<and> y \<le> 9999"
  by (auto simp: get_year4_def dest: digits_val_less split: option.splits if_splits)

lemma frac_ns_range:
  assumes "length ds \<le> 9"
  shows "0 \<le> frac_ns ds \<and> frac_ns ds < second_ns"
proof (cases "digits_val 0 ds")
  case None
  then show ?thesis by (simp add: frac_ns_def second_ns_def)
next
  case (Some v)
  then have "v < 10 ^ length ds" using digits_val_less [OF Some] by simp
  then have "v * 10 ^ (9 - length ds) < 10 ^ length ds * 10 ^ (9 - length ds)" by simp
  also have "\<dots> = (10::nat) ^ 9" using assms by (simp flip: power_add)
  finally have "int (v * 10 ^ (9 - length ds)) < int (10 ^ 9)" by (simp only: of_nat_less_iff)
  with Some show ?thesis by (simp add: frac_ns_def second_ns_def)
qed

lemma get_frac_range: "0 \<le> fst (get_frac s) \<and> fst (get_frac s) < second_ns"
proof -
  have "0 \<le> frac_ns ds" "frac_ns ds < 1000000000" if "length ds \<le> 9" for ds
    using frac_ns_range [OF that] by (simp_all add: second_ns_def)
  then show ?thesis
    by (auto simp: get_frac_def second_ns_def split: list.split)
qed

text \<open>A parsed time lies on the calendar day its digits name, in its own location.\<close>

lemma get_date_ok:
  assumes "get_date s = Some ((y, m, d), rest)"
  shows "0 \<le> y" and "y \<le> 9999" and "1 \<le> m" and "m \<le> 12"
  using assms by (auto simp: get_date_def bind_eq_Some_conv dest: get_year4_range get_ranged_range)

lemma get_clock_ok:
  assumes "get_clock s = Some ((h, mi, sec, ns), rest)"
  shows "0 \<le> h" and "h < 24" and "0 \<le> mi" and "mi < 60" and "0 \<le> sec" and "sec < 60"
    and "0 \<le> ns" and "ns < second_ns"
  using assms
  by (auto simp: get_clock_def bind_eq_Some_conv get_frac_range dest: get_ranged_range)

lemma parse_date_time_date:
  assumes "parse_date_time s = Some t"
  shows "\<exists>rest. get_date s = Some (date_of t, rest)" and "0 \<le> year_of t" and "year_of t \<le> 9999"
    and "zone_off t = 0"
proof -
  from assms obtain y m d s1 s2 h mi sec ns where
    g: "get_date s = Some ((y, m, d), s1)" "get_clock s2 = Some ((h, mi, sec, ns), [])"
    and v: "1 \<le> d" "d \<le> days_in_month y m" and t: "t = go_date y m d h mi sec ns 0"
    by (auto simp: parse_date_time_def bind_eq_Some_conv split: if_splits prod.splits)
  have "valid_civil y m d" using v get_date_ok [OF g(1)] by (simp add: valid_civil_def)
  then have "date_of t = (y, m, d)"
    unfolding t by (rule date_of_go_date) (use get_clock_ok [OF g(2)] in auto)
  then show "\<exists>rest. get_date s = Some (date_of t, rest)" "0 \<le> year_of t" "year_of t \<le> 9999"
    using g(1) get_date_ok [OF g(1)] by (simp_all add: year_of_def)
  show "zone_off t = 0" by (simp add: t go_date_def)
qed

lemma parse_rfc3339_date:
  assumes "parse_rfc3339 s = Some t"
  shows "\<exists>rest. get_date s = Some (date_of t, rest)" and "0 \<le> year_of t" and "year_of t \<le> 9999"
proof -
  from assms obtain y m d s1 s2 s3 h mi sec ns off where
    g: "get_date s = Some ((y, m, d), s1)" "get_clock s2 = Some ((h, mi, sec, ns), s3)"
    and v: "1 \<le> d" "d \<le> days_in_month y m" and t: "t = go_date y m d h mi sec ns off"
    by (auto simp: parse_rfc3339_def bind_eq_Some_conv split: if_splits prod.splits)
  have "valid_civil y m d" using v get_date_ok [OF g(1)] by (simp add: valid_civil_def)
  then have "date_of t = (y, m, d)"
    unfolding t by (rule date_of_go_date) (use get_clock_ok [OF g(2)] in auto)
  then show "\<exists>rest. get_date s = Some (date_of t, rest)" "0 \<le> year_of t" "year_of t \<le> 9999"
    using g(1) get_date_ok [OF g(1)] by (simp_all add: year_of_def)
qed

text \<open>The zero of Unix time, for examples.\<close>

definition epoch :: go_time where
  "epoch = \<lparr>unix_ns = 0, zone_off = 0\<rparr>"

end
