(* ===== verification/Store.thy ===== *)
theory Store
  imports Go_Time
begin

text \<open>
  The PostgreSQL database the three services share: the tables of \<open>src/postgres/init\<close> as lists of
  rows, the constraints the schema declares, and what one statement does when the connection is
  healthy, when it fails before the server ran the statement, and when it fails after the server
  ran it but before the client heard back (a context deadline can hit at either point).
\<close>

section \<open>Tables\<close>

text \<open>
  Integer columns are PostgreSQL's four-byte \<open>INTEGER\<close>. No service names the columns \<open>created_at\<close> and
  \<open>transaction_hash\<close> in a statement: an inserted row gets the defaults of the schema in them.
\<close>

record match_row =
  row_id :: uuid
  row_canonical_id :: string
  row_home_team_id :: int
  row_away_team_id :: int
  row_start :: go_time
  row_end :: go_time
  row_status :: int
  row_home_team_score :: int
  row_away_team_score :: int
  row_provider_match_id :: string
  row_competition_id :: int
  row_provider :: int
  row_signature :: "string option"
  row_updated_at :: "go_time option"
  row_transaction_hash :: "string option"
  row_created_at :: go_time

record sync_row =
  sr_id :: uuid
  sr_competition_id :: int
  sr_provider :: int
  sr_last_synced_date :: go_time
  sr_updated_at :: go_time
  sr_created_at :: go_time

record recon_row =
  rr_id :: uuid
  rr_provider_match_id :: string
  rr_provider :: int
  rr_reconciled_at :: "go_time option"
  rr_tries :: int

record tables =
  matches :: "match_row list"
  sync_state :: "sync_row list"
  match_reconciliation :: "recon_row list"

definition empty_tables :: tables where
  "empty_tables = \<lparr>matches = [], sync_state = [], match_reconciliation = []\<rparr>"

definition match_key :: "match_row \<Rightarrow> int \<times> string" where
  "match_key r = (row_provider r, row_provider_match_id r)"

definition sync_key :: "sync_row \<Rightarrow> int \<times> int" where
  "sync_key r = (sr_competition_id r, sr_provider r)"

definition recon_key :: "recon_row \<Rightarrow> string \<times> int" where
  "recon_key r = (rr_provider_match_id r, rr_provider r)"

text \<open>The primary keys and unique constraints of the schema.\<close>

definition wf_tables :: "tables \<Rightarrow> bool" where
  "wf_tables t \<longleftrightarrow>
     distinct (map row_id (matches t)) \<and> distinct (map match_key (matches t)) \<and>
     distinct (map sr_id (sync_state t)) \<and> distinct (map sync_key (sync_state t)) \<and>
     distinct (map rr_id (match_reconciliation t)) \<and> distinct (map recon_key (match_reconciliation t))"

lemma wf_empty_tables: "wf_tables empty_tables"
  by (simp add: wf_tables_def empty_tables_def)

section \<open>Column types\<close>

definition int4 :: "int \<Rightarrow> bool" where
  "int4 v \<longleftrightarrow> - (2 ^ 31) \<le> v \<and> v < 2 ^ 31"

text \<open>
  \<open>VARCHAR(255)\<close>: at most 255 characters (UTF-8 continuation bytes do not count), no NUL byte.
\<close>

definition varchar255 :: "string \<Rightarrow> bool" where
  "varchar255 s \<longleftrightarrow>
     CHR 0x00 \<notin> set s \<and>
     length (filter (\<lambda>c. (of_char c :: nat) div 64 \<noteq> 2) s) \<le> 255"

definition row_fits :: "match_row \<Rightarrow> bool" where
  "row_fits r \<longleftrightarrow>
     varchar255 (row_canonical_id r) \<and> int4 (row_home_team_id r) \<and> int4 (row_away_team_id r) \<and>
     int4 (row_status r) \<and> int4 (row_home_team_score r) \<and> int4 (row_away_team_score r) \<and>
     varchar255 (row_provider_match_id r) \<and> int4 (row_competition_id r) \<and> int4 (row_provider r)"

section \<open>Statements under faults\<close>

datatype db_error = Unavailable | UniqueViolation | ValueOutOfRange

datatype fault = Healthy | Lost | Unacked

text \<open>
  What a run lets the outside see besides the tables: requests to a data source, pauses, and error
  messages about a match (the message and the provider's match id).
\<close>

datatype io_event = ApiRequest string | Sleep duration | SlogError string string

text \<open>
  The outside world of a process run. Every interaction with it consumes one tick, so that each
  function of the environment may answer differently at every call:
  \<^item> \<open>db_fault n\<close> says how the database call at tick \<open>n\<close> goes;
  \<^item> \<open>db_now n\<close> is the server's \<open>NOW()\<close>;
  \<^item> \<open>heap_order n\<close> is the order in which an unordered \<open>SELECT\<close> on \<open>matches\<close> delivers its rows;
  \<^item> \<open>ts_value t\<close> is what a \<open>TIMESTAMP\<close> column gives back after the driver stored \<open>t\<close> in it;
  \<^item> \<open>uuid_new n\<close> is what \<open>uuid.New()\<close> returns.
\<close>

record db_env =
  db_fault :: "nat \<Rightarrow> fault"
  db_now :: "nat \<Rightarrow> go_time"
  heap_order :: "nat \<Rightarrow> match_row list \<Rightarrow> match_row list"
  ts_value :: "go_time \<Rightarrow> go_time"
  uuid_new :: "nat \<Rightarrow> uuid"

record world =
  w_db :: tables
  w_tick :: nat
  w_log :: "io_event list"

definition tick :: "world \<Rightarrow> world" where
  "tick w = w\<lparr>w_tick := Suc (w_tick w)\<rparr>"

definition log_event :: "io_event \<Rightarrow> world \<Rightarrow> world" where
  "log_event ev w = w\<lparr>w_log := w_log w @ [ev]\<rparr>"

definition api_request :: "string \<Rightarrow> world \<Rightarrow> world" where
  "api_request what w = tick (log_event (ApiRequest what) w)"

type_synonym statement = "tables \<Rightarrow> (db_error, nat \<times> tables) result"

definition run_statement :: "statement \<Rightarrow> tables \<Rightarrow> tables" where
  "run_statement stmt t = (case stmt t of Inl _ \<Rightarrow> t | Inr (_, t') \<Rightarrow> t')"

text \<open>\<open>ExecContext\<close>: the rows affected or an error, and the state after it.\<close>

definition db_exec :: "'z db_env_scheme \<Rightarrow> statement \<Rightarrow> world \<Rightarrow> (db_error, nat) result \<times> world" where
  "db_exec e stmt w =
     (case db_fault e (w_tick w) of
        Healthy \<Rightarrow>
          (case stmt (w_db w) of
             Inl er \<Rightarrow> (Inl er, tick w)
           | Inr (n, t') \<Rightarrow> (Inr n, (tick w)\<lparr>w_db := t'\<rparr>))
      | Lost \<Rightarrow> (Inl Unavailable, tick w)
      | Unacked \<Rightarrow> (Inl Unavailable, (tick w)\<lparr>w_db := run_statement stmt (w_db w)\<rparr>))"

text \<open>\<open>QueryContext\<close> and \<open>QueryRowContext\<close>: the selected value or an error; nothing is written.\<close>

definition db_query :: "'z db_env_scheme \<Rightarrow> (tables \<Rightarrow> 'a) \<Rightarrow> world \<Rightarrow> (db_error, 'a) result \<times> world" where
  "db_query e sel w =
     (if db_fault e (w_tick w) = Healthy then (Inr (sel (w_db w)), tick w) else (Inl Unavailable, tick w))"

text \<open>
  A transaction works on a private copy of the tables: a statement inside it changes the copy only,
  \<open>Commit\<close> publishes it (also when the acknowledgement is lost), anything else discards it.
\<close>

definition tx_exec ::
  "'z db_env_scheme \<Rightarrow> statement \<Rightarrow> tables \<times> world \<Rightarrow> (db_error, nat) result \<times> tables \<times> world" where
  "tx_exec e stmt txw =
     (case txw of (tx, w) \<Rightarrow>
        if db_fault e (w_tick w) = Healthy
        then (case stmt tx of
                Inl er \<Rightarrow> (Inl er, tx, tick w)
              | Inr (n, tx') \<Rightarrow> (Inr n, tx', tick w))
        else (Inl Unavailable, tx, tick w))"

definition tx_commit :: "'z db_env_scheme \<Rightarrow> tables \<times> world \<Rightarrow> (db_error, unit) result \<times> world" where
  "tx_commit e txw =
     (case txw of (tx, w) \<Rightarrow>
        (case db_fault e (w_tick w) of
           Healthy \<Rightarrow> (Inr (), (tick w)\<lparr>w_db := tx\<rparr>)
         | Lost \<Rightarrow> (Inl Unavailable, tick w)
         | Unacked \<Rightarrow> (Inl Unavailable, (tick w)\<lparr>w_db := tx\<rparr>)))"

lemma tick_simps [simp]:
  "w_tick (tick w) = Suc (w_tick w)" "w_db (tick w) = w_db w" "w_log (tick w) = w_log w"
  by (simp_all add: tick_def)

lemma log_event_simps [simp]:
  "w_tick (log_event ev w) = w_tick w" "w_db (log_event ev w) = w_db w"
  "w_log (log_event ev w) = w_log w @ [ev]"
  by (simp_all add: log_event_def)

lemma api_request_simps [simp]:
  "w_tick (api_request what w) = Suc (w_tick w)" "w_db (api_request what w) = w_db w"
  "w_log (api_request what w) = w_log w @ [ApiRequest what]"
  by (simp_all add: api_request_def)

lemma db_exec_frame [frame_simps]:
  "w_tick (snd (db_exec e stmt w)) = Suc (w_tick w)" "w_log (snd (db_exec e stmt w)) = w_log w"
  by (simp_all add: db_exec_def split: fault.split sum.split)

lemma db_query_frame [frame_simps]:
  "w_tick (snd (db_query e sel w)) = Suc (w_tick w)" "w_log (snd (db_query e sel w)) = w_log w"
  "w_db (snd (db_query e sel w)) = w_db w"
  by (simp_all add: db_query_def)

lemma db_query_ok: "fst (db_query e sel w) = Inr x \<Longrightarrow> x = sel (w_db w)"
  by (auto simp: db_query_def split: if_splits)

lemma tx_exec_frame [frame_simps]:
  "w_tick (snd (snd (tx_exec e stmt (tx, w)))) = Suc (w_tick w)"
  "w_log (snd (snd (tx_exec e stmt (tx, w)))) = w_log w"
  "w_db (snd (snd (tx_exec e stmt (tx, w)))) = w_db w"
  by (simp_all add: tx_exec_def split: sum.split)

lemma tx_commit_frame [frame_simps]:
  "w_tick (snd (tx_commit e (tx, w))) = Suc (w_tick w)" "w_log (snd (tx_commit e (tx, w))) = w_log w"
  by (simp_all add: tx_commit_def split: fault.split)

lemma tx_commit_db: "w_db (snd (tx_commit e (tx, w))) \<in> {w_db w, tx}"
  by (simp add: tx_commit_def split: fault.split)

text \<open>Whatever the fault, the tables after a call are those before it or those of the statement.\<close>

lemma db_exec_db: "w_db (snd (db_exec e stmt w)) \<in> {w_db w, run_statement stmt (w_db w)}"
  by (auto simp: db_exec_def run_statement_def split: fault.split sum.split)

lemma db_exec_ok:
  "fst (db_exec e stmt w) = Inr n \<Longrightarrow> \<exists>t'. stmt (w_db w) = Inr (n, t') \<and> w_db (snd (db_exec e stmt w)) = t'"
  by (auto simp: db_exec_def split: fault.splits sum.splits)

lemma db_exec_healthy:
  "db_fault e (w_tick w) = Healthy \<Longrightarrow> w_db (snd (db_exec e stmt w)) = run_statement stmt (w_db w)"
  by (auto simp: db_exec_def run_statement_def split: sum.split)

section \<open>The contract of a statement\<close>

text \<open>
  What a repository method relies on and what every statement provides: it never breaks a
  constraint of the schema. From that law alone, no run of it under any fault does.
\<close>

locale sql_statement =
  fixes stmt :: statement
  assumes stmt_wf: "wf_tables t \<Longrightarrow> stmt t = Inr (n, t') \<Longrightarrow> wf_tables t'"
begin

lemma run_wf: "wf_tables t \<Longrightarrow> wf_tables (run_statement stmt t)"
  by (auto simp: run_statement_def split: sum.split dest: stmt_wf)

lemma exec_wf: "wf_tables (w_db w) \<Longrightarrow> wf_tables (w_db (snd (db_exec e stmt w)))"
  using db_exec_db [of e stmt w] run_wf by auto

lemma tx_exec_wf: "wf_tables tx \<Longrightarrow> wf_tables (fst (snd (tx_exec e stmt (tx, w))))"
  by (auto simp: tx_exec_def split: sum.split dest: stmt_wf)

end

section \<open>The statements of the provider\<close>

text \<open>
  \<open>INSERT INTO matches ... ON CONFLICT (provider, provider_match_id) DO UPDATE SET status,
  home_team_score, away_team_score, updated_at\<close>. The arbiter index is looked at first; only a row
  that does not conflict on it is inserted, and then the primary key is checked.
\<close>

definition overwrite_match :: "go_time \<Rightarrow> match_row \<Rightarrow> match_row \<Rightarrow> match_row" where
  "overwrite_match now new old =
     old\<lparr>row_status := row_status new, row_home_team_score := row_home_team_score new,
         row_away_team_score := row_away_team_score new, row_updated_at := Some now\<rparr>"

text \<open>What the schema puts in the columns an \<open>INSERT\<close> does not name: no hash and the time of the statement.\<close>

definition column_defaults :: "go_time \<Rightarrow> match_row \<Rightarrow> match_row" where
  "column_defaults now r = r\<lparr>row_transaction_hash := None, row_created_at := now\<rparr>"

definition upsert_match :: "go_time \<Rightarrow> match_row \<Rightarrow> statement" where
  "upsert_match now r t =
     (if \<not> row_fits r then Inl ValueOutOfRange
      else if list_ex (\<lambda>x. match_key x = match_key r) (matches t)
      then Inr (1, t\<lparr>matches := map (\<lambda>x. if match_key x = match_key r then overwrite_match now r x else x)
                                    (matches t)\<rparr>)
      else if list_ex (\<lambda>x. row_id x = row_id r) (matches t) then Inl UniqueViolation
      else Inr (1, t\<lparr>matches := matches t @ [column_defaults now r]\<rparr>))"

text \<open>\<open>UPDATE matches SET status, home_team_score, away_team_score, updated_at WHERE id\<close>.\<close>

definition finish_match :: "go_time \<Rightarrow> uuid \<Rightarrow> int \<Rightarrow> int \<Rightarrow> int \<Rightarrow> statement" where
  "finish_match now i st h a t =
     (if \<not> int4 st \<or> \<not> int4 h \<or> \<not> int4 a then Inl ValueOutOfRange
      else Inr (length (filter (\<lambda>x. row_id x = i) (matches t)),
                t\<lparr>matches := map (\<lambda>x. if row_id x = i
                    then x\<lparr>row_status := st, row_home_team_score := h, row_away_team_score := a,
                           row_updated_at := Some now\<rparr> else x) (matches t)\<rparr>))"

text \<open>\<open>INSERT INTO match_reconciliation ... ON CONFLICT (provider_match_id, provider) DO NOTHING\<close>.\<close>

definition enqueue_recon :: "uuid \<Rightarrow> string \<Rightarrow> int \<Rightarrow> statement" where
  "enqueue_recon i pmid prov t =
     (if \<not> int4 prov \<or> CHR 0x00 \<in> set pmid then Inl ValueOutOfRange
      else if list_ex (\<lambda>x. recon_key x = (pmid, prov)) (match_reconciliation t) then Inr (0, t)
      else if list_ex (\<lambda>x. rr_id x = i) (match_reconciliation t) then Inl UniqueViolation
      else Inr (1, t\<lparr>match_reconciliation := match_reconciliation t @
              [\<lparr>rr_id = i, rr_provider_match_id = pmid, rr_provider = prov,
                rr_reconciled_at = None, rr_tries = 0\<rparr>]\<rparr>))"

text \<open>\<open>DELETE FROM match_reconciliation WHERE id\<close>.\<close>

definition delete_recon :: "uuid \<Rightarrow> statement" where
  "delete_recon i t =
     Inr (length (filter (\<lambda>x. rr_id x = i) (match_reconciliation t)),
          t\<lparr>match_reconciliation := filter (\<lambda>x. rr_id x \<noteq> i) (match_reconciliation t)\<rparr>)"

text \<open>\<open>UPDATE match_reconciliation SET tries = tries + 1, reconciled_at = NOW() WHERE id\<close>.\<close>

definition bump_tries :: "go_time \<Rightarrow> uuid \<Rightarrow> statement" where
  "bump_tries now i t =
     (if list_ex (\<lambda>x. rr_id x = i \<and> \<not> int4 (rr_tries x + 1)) (match_reconciliation t)
      then Inl ValueOutOfRange
      else Inr (length (filter (\<lambda>x. rr_id x = i) (match_reconciliation t)),
                t\<lparr>match_reconciliation := map (\<lambda>x. if rr_id x = i
                    then x\<lparr>rr_tries := rr_tries x + 1, rr_reconciled_at := Some now\<rparr> else x)
                  (match_reconciliation t)\<rparr>))"

text \<open>\<open>INSERT INTO sync_state ... ON CONFLICT (competition_id, provider) DO UPDATE\<close>.\<close>

definition upsert_sync :: "go_time \<Rightarrow> sync_row \<Rightarrow> statement" where
  "upsert_sync now r t =
     (if \<not> int4 (sr_competition_id r) \<or> \<not> int4 (sr_provider r) then Inl ValueOutOfRange
      else if list_ex (\<lambda>x. sync_key x = sync_key r) (sync_state t)
      then Inr (1, t\<lparr>sync_state := map (\<lambda>x. if sync_key x = sync_key r
                       then x\<lparr>sr_last_synced_date := sr_last_synced_date r, sr_updated_at := now\<rparr> else x)
                     (sync_state t)\<rparr>)
      else if list_ex (\<lambda>x. sr_id x = sr_id r) (sync_state t) then Inl UniqueViolation
      else Inr (1, t\<lparr>sync_state := sync_state t @ [r\<lparr>sr_updated_at := now, sr_created_at := now\<rparr>]\<rparr>))"

section \<open>The statements of the signer and the relayer\<close>

text \<open>\<open>UPDATE matches SET signature, status WHERE id\<close>.\<close>

definition store_signature :: "uuid \<Rightarrow> string \<Rightarrow> int \<Rightarrow> statement" where
  "store_signature i sig st t =
     (if \<not> varchar255 sig \<or> \<not> int4 st then Inl ValueOutOfRange
      else Inr (length (filter (\<lambda>x. row_id x = i) (matches t)),
                t\<lparr>matches := map (\<lambda>x. if row_id x = i
                    then x\<lparr>row_signature := Some sig, row_status := st\<rparr> else x) (matches t)\<rparr>))"

text \<open>\<open>UPDATE matches SET status WHERE id\<close>.\<close>

definition set_status :: "uuid \<Rightarrow> int \<Rightarrow> statement" where
  "set_status i st t =
     (if \<not> int4 st then Inl ValueOutOfRange
      else Inr (length (filter (\<lambda>x. row_id x = i) (matches t)),
                t\<lparr>matches := map (\<lambda>x. if row_id x = i then x\<lparr>row_status := st\<rparr> else x) (matches t)\<rparr>))"

section \<open>Every statement keeps the constraints\<close>

lemma list_ex_key: "list_ex (\<lambda>x. f x = a) xs \<longleftrightarrow> a \<in> f ` set xs"
  by (auto simp: list_ex_iff)

lemma map_if_same: "(\<And>x. P x \<Longrightarrow> f (g x) = f x) \<Longrightarrow> map f (map (\<lambda>x. if P x then g x else x) xs) = map f xs"
  by simp

text \<open>Rewriting rows without touching their keys, appending a row with fresh keys, deleting rows.\<close>

lemma wf_matches_map:
  assumes "wf_tables t" and "\<And>x. P x \<Longrightarrow> row_id (g x) = row_id x" and "\<And>x. P x \<Longrightarrow> match_key (g x) = match_key x"
  shows "wf_tables (t\<lparr>matches := map (\<lambda>x. if P x then g x else x) (matches t)\<rparr>)"
proof -
  have "map row_id (map (\<lambda>x. if P x then g x else x) (matches t)) = map row_id (matches t)"
    "map match_key (map (\<lambda>x. if P x then g x else x) (matches t)) = map match_key (matches t)"
    by (rule map_if_same, rule assms, assumption)+
  with assms(1) show ?thesis unfolding wf_tables_def by (simp del: map_map)
qed

lemma wf_matches_append:
  assumes "wf_tables t" and "row_id r \<notin> row_id ` set (matches t)" and "match_key r \<notin> match_key ` set (matches t)"
  shows "wf_tables (t\<lparr>matches := matches t @ [r]\<rparr>)"
  using assms by (simp add: wf_tables_def)

lemma wf_recon_map:
  assumes "wf_tables t" and "\<And>x. P x \<Longrightarrow> rr_id (g x) = rr_id x" and "\<And>x. P x \<Longrightarrow> recon_key (g x) = recon_key x"
  shows "wf_tables (t\<lparr>match_reconciliation := map (\<lambda>x. if P x then g x else x) (match_reconciliation t)\<rparr>)"
proof -
  have "map rr_id (map (\<lambda>x. if P x then g x else x) (match_reconciliation t)) = map rr_id (match_reconciliation t)"
    "map recon_key (map (\<lambda>x. if P x then g x else x) (match_reconciliation t)) = map recon_key (match_reconciliation t)"
    by (rule map_if_same, rule assms, assumption)+
  with assms(1) show ?thesis unfolding wf_tables_def by (simp del: map_map)
qed

lemma wf_sync_map:
  assumes "wf_tables t" and "\<And>x. P x \<Longrightarrow> sr_id (g x) = sr_id x" and "\<And>x. P x \<Longrightarrow> sync_key (g x) = sync_key x"
  shows "wf_tables (t\<lparr>sync_state := map (\<lambda>x. if P x then g x else x) (sync_state t)\<rparr>)"
proof -
  have "map sr_id (map (\<lambda>x. if P x then g x else x) (sync_state t)) = map sr_id (sync_state t)"
    "map sync_key (map (\<lambda>x. if P x then g x else x) (sync_state t)) = map sync_key (sync_state t)"
    by (rule map_if_same, rule assms, assumption)+
  with assms(1) show ?thesis unfolding wf_tables_def by (simp del: map_map)
qed

lemma wf_recon_append:
  assumes "wf_tables t" and "rr_id r \<notin> rr_id ` set (match_reconciliation t)"
    and "recon_key r \<notin> recon_key ` set (match_reconciliation t)"
  shows "wf_tables (t\<lparr>match_reconciliation := match_reconciliation t @ [r]\<rparr>)"
  using assms by (simp add: wf_tables_def)

lemma wf_sync_append:
  assumes "wf_tables t" and "sr_id r \<notin> sr_id ` set (sync_state t)" and "sync_key r \<notin> sync_key ` set (sync_state t)"
  shows "wf_tables (t\<lparr>sync_state := sync_state t @ [r]\<rparr>)"
  using assms by (simp add: wf_tables_def)

lemmas wf_updates =
  wf_matches_map wf_matches_append wf_recon_map wf_recon_append wf_sync_map wf_sync_append

lemma match_key_simps [simp]:
  "match_key (x\<lparr>row_status := st\<rparr>) = match_key x"
  "match_key (x\<lparr>row_signature := sg\<rparr>) = match_key x"
  "match_key (x\<lparr>row_home_team_score := h\<rparr>) = match_key x"
  "match_key (x\<lparr>row_away_team_score := a\<rparr>) = match_key x"
  "match_key (x\<lparr>row_updated_at := u\<rparr>) = match_key x"
  by (simp_all add: match_key_def)

lemma column_defaults_simps [simp]:
  "row_id (column_defaults now r) = row_id r" "match_key (column_defaults now r) = match_key r"
  "row_canonical_id (column_defaults now r) = row_canonical_id r" "row_status (column_defaults now r) = row_status r"
  "row_home_team_id (column_defaults now r) = row_home_team_id r"
  "row_away_team_id (column_defaults now r) = row_away_team_id r"
  "row_home_team_score (column_defaults now r) = row_home_team_score r"
  "row_away_team_score (column_defaults now r) = row_away_team_score r"
  "row_competition_id (column_defaults now r) = row_competition_id r" "row_provider (column_defaults now r) = row_provider r"
  "row_provider_match_id (column_defaults now r) = row_provider_match_id r"
  "row_start (column_defaults now r) = row_start r" "row_end (column_defaults now r) = row_end r"
  "row_signature (column_defaults now r) = row_signature r" "row_updated_at (column_defaults now r) = row_updated_at r"
  by (simp_all add: column_defaults_def match_key_def)

lemma recon_key_simps [simp]:
  "recon_key (y\<lparr>rr_tries := n\<rparr>) = recon_key y"
  "recon_key (y\<lparr>rr_reconciled_at := u\<rparr>) = recon_key y"
  "recon_key \<lparr>rr_id = i, rr_provider_match_id = pmid, rr_provider = prov, rr_reconciled_at = u, rr_tries = n\<rparr> = (pmid, prov)"
  by (simp_all add: recon_key_def)

lemma sync_key_simps [simp]:
  "sync_key (z\<lparr>sr_last_synced_date := d\<rparr>) = sync_key z"
  "sync_key (z\<lparr>sr_updated_at := v\<rparr>) = sync_key z"
  "sync_key (z\<lparr>sr_created_at := v\<rparr>) = sync_key z"
  by (simp_all add: sync_key_def)

lemma overwrite_match_simps [simp]:
  "row_id (overwrite_match now r x) = row_id x" "match_key (overwrite_match now r x) = match_key x"
  "row_canonical_id (overwrite_match now r x) = row_canonical_id x"
  "row_signature (overwrite_match now r x) = row_signature x"
  "row_status (overwrite_match now r x) = row_status r"
  "row_home_team_score (overwrite_match now r x) = row_home_team_score r"
  "row_away_team_score (overwrite_match now r x) = row_away_team_score r"
  by (simp_all add: overwrite_match_def match_key_def)

interpretation upsert_match: sql_statement "upsert_match now r" for now r
  by unfold_locales
    (auto simp: upsert_match_def list_ex_key intro!: wf_matches_map wf_matches_append split: if_splits)

interpretation finish_match: sql_statement "finish_match now i st h a" for now i st h a
  by unfold_locales (auto simp: finish_match_def intro!: wf_updates split: if_splits)

interpretation enqueue_recon: sql_statement "enqueue_recon i pmid prov" for i pmid prov
  by unfold_locales (auto simp: enqueue_recon_def list_ex_key intro!: wf_updates split: if_splits)

interpretation delete_recon: sql_statement "delete_recon i" for i
  by unfold_locales (auto simp: delete_recon_def wf_tables_def distinct_map_filter)

interpretation bump_tries: sql_statement "bump_tries now i" for now i
  by unfold_locales (auto simp: bump_tries_def intro!: wf_updates split: if_splits)

interpretation upsert_sync: sql_statement "upsert_sync now r" for now r
  by unfold_locales (auto simp: upsert_sync_def list_ex_key intro!: wf_updates split: if_splits)

interpretation store_signature: sql_statement "store_signature i sig st" for i sig st
  by unfold_locales (auto simp: store_signature_def intro!: wf_updates split: if_splits)

interpretation set_status: sql_statement "set_status i st" for i st
  by unfold_locales (auto simp: set_status_def intro!: wf_updates split: if_splits)

end
