(* ===== verification/Entity.thy ===== *)
theory Entity
  imports Go_Time
begin

text \<open>
  Package \<open>entity\<close> of the provider (\<open>src/provider/internal/entity\<close>): competitions, providers, teams,
  match statuses, the \<open>Match\<close> struct, its constructor and the derivation of the canonical match
  identity. The Keccak-256 hash of go-ethereum and the UUID of \<open>uuid.New\<close> come from outside the
  repository and are arguments.
\<close>

section \<open>Constants\<close>

type_synonym Competition = uint32
type_synonym Team = uint32
type_synonym Provider = go_int
type_synonym MatchStatus = go_int

definition LaLiga :: Competition where [go_const]: "LaLiga = 1"
definition PremierLeague :: Competition where [go_const]: "PremierLeague = 2"
definition Championship :: Competition where [go_const]: "Championship = 3"

definition FootballOrg :: Provider where [go_const]: "FootballOrg = 1"
definition APIFootball :: Provider where [go_const]: "APIFootball = 2"

definition Pending :: MatchStatus where [go_const]: "Pending = 1"
definition InProgress :: MatchStatus where [go_const]: "InProgress = 2"
definition Finished :: MatchStatus where [go_const]: "Finished = 3"

text \<open>The teams, numbered from 1 in the order the source lists them.\<close>

definition Alaves :: Team where [go_const]: "Alaves = 1"
definition AthleticClub :: Team where [go_const]: "AthleticClub = 2"
definition AtleticoMadrid :: Team where [go_const]: "AtleticoMadrid = 3"
definition Barcelona :: Team where [go_const]: "Barcelona = 4"
definition CeltaVigo :: Team where [go_const]: "CeltaVigo = 5"
definition Elche :: Team where [go_const]: "Elche = 6"
definition Espanyol :: Team where [go_const]: "Espanyol = 7"
definition Getafe :: Team where [go_const]: "Getafe = 8"
definition Girona :: Team where [go_const]: "Girona = 9"
definition Levante :: Team where [go_const]: "Levante = 10"
definition Mallorca :: Team where [go_const]: "Mallorca = 11"
definition Osasuna :: Team where [go_const]: "Osasuna = 12"
definition Oviedo :: Team where [go_const]: "Oviedo = 13"
definition RayoVallecano :: Team where [go_const]: "RayoVallecano = 14"
definition RealBetis :: Team where [go_const]: "RealBetis = 15"
definition RealMadrid :: Team where [go_const]: "RealMadrid = 16"
definition RealSociedad :: Team where [go_const]: "RealSociedad = 17"
definition Sevilla :: Team where [go_const]: "Sevilla = 18"
definition Valencia :: Team where [go_const]: "Valencia = 19"
definition Villarreal :: Team where [go_const]: "Villarreal = 20"
definition AstonVilla :: Team where [go_const]: "AstonVilla = 21"
definition Arsenal :: Team where [go_const]: "Arsenal = 22"
definition Bournemouth :: Team where [go_const]: "Bournemouth = 23"
definition Brentford :: Team where [go_const]: "Brentford = 24"
definition Brighton :: Team where [go_const]: "Brighton = 25"
definition Burnley :: Team where [go_const]: "Burnley = 26"
definition Chelsea :: Team where [go_const]: "Chelsea = 27"
definition CrystalPalace :: Team where [go_const]: "CrystalPalace = 28"
definition Everton :: Team where [go_const]: "Everton = 29"
definition Fulham :: Team where [go_const]: "Fulham = 30"
definition Leeds :: Team where [go_const]: "Leeds = 31"
definition Liverpool :: Team where [go_const]: "Liverpool = 32"
definition ManchesterCity :: Team where [go_const]: "ManchesterCity = 33"
definition ManchesterUnited :: Team where [go_const]: "ManchesterUnited = 34"
definition Newcastle :: Team where [go_const]: "Newcastle = 35"
definition NotthingamForest :: Team where [go_const]: "NotthingamForest = 36"
definition Sunderland :: Team where [go_const]: "Sunderland = 37"
definition Tottenham :: Team where [go_const]: "Tottenham = 38"
definition WestHam :: Team where [go_const]: "WestHam = 39"
definition Wolves :: Team where [go_const]: "Wolves = 40"
definition Birmingham :: Team where [go_const]: "Birmingham = 41"
definition Blackburn :: Team where [go_const]: "Blackburn = 42"
definition BristolCity :: Team where [go_const]: "BristolCity = 43"
definition Charlton :: Team where [go_const]: "Charlton = 44"
definition Coventry :: Team where [go_const]: "Coventry = 45"
definition Derby :: Team where [go_const]: "Derby = 46"
definition Hull :: Team where [go_const]: "Hull = 47"
definition Ipswich :: Team where [go_const]: "Ipswich = 48"
definition Leicester :: Team where [go_const]: "Leicester = 49"
definition Middlesbrough :: Team where [go_const]: "Middlesbrough = 50"
definition Millwall :: Team where [go_const]: "Millwall = 51"
definition Norwich :: Team where [go_const]: "Norwich = 52"
definition OxfordUtd :: Team where [go_const]: "OxfordUtd = 53"
definition Portsmouth :: Team where [go_const]: "Portsmouth = 54"
definition Preston :: Team where [go_const]: "Preston = 55"
definition QPR :: Team where [go_const]: "QPR = 56"
definition SheffieldUtd :: Team where [go_const]: "SheffieldUtd = 57"
definition SheffieldWed :: Team where [go_const]: "SheffieldWed = 58"
definition Southampton :: Team where [go_const]: "Southampton = 59"
definition Stoke :: Team where [go_const]: "Stoke = 60"
definition Swansea :: Team where [go_const]: "Swansea = 61"
definition Watford :: Team where [go_const]: "Watford = 62"
definition WestBrom :: Team where [go_const]: "WestBrom = 63"
definition Wrexham :: Team where [go_const]: "Wrexham = 64"

section \<open>Matches\<close>

record Match =
  ID :: uuid
  CanonicalID :: string
  Start :: go_time
  End :: go_time
  Status :: MatchStatus
  Provider :: Provider
  ProviderMatchID :: string
  CompetitionID :: Competition
  HomeTeamID :: Team
  AwayTeamID :: Team
  HomeTeamScore :: go_uint
  AwayTeamScore :: go_uint

text \<open>The error of \<open>generateMatchID\<close>: the date digits do not parse as a 32-bit number.\<close>

datatype match_error = DateParseError string num_error

definition uint32ToBytes :: "uint32 \<Rightarrow> byte list" where
  "uint32ToBytes v = put_uint32 v"

text \<open>
  The preimage of the identity, \<open>abi.encodePacked(uint32, uint32, uint32, uint32)\<close> of Solidity: the
  four numbers big-endian, one after the other.
\<close>

definition packed_match :: "Competition \<Rightarrow> Team \<Rightarrow> Team \<Rightarrow> uint32 \<Rightarrow> byte list" where
  "packed_match compId homeTeamId awayTeamId date =
     uint32ToBytes compId @ uint32ToBytes homeTeamId @ uint32ToBytes awayTeamId @ uint32ToBytes date"

definition generateMatchID ::
  "(byte list \<Rightarrow> byte list) \<Rightarrow> Competition \<Rightarrow> Team \<Rightarrow> Team \<Rightarrow> go_time \<Rightarrow> (match_error, string) result" where
  "generateMatchID keccak compId homeTeamId awayTeamId matchDay =
     (let dateStr = format_compact matchDay in
      (case parse_uint 32 dateStr of
         Inl e \<Rightarrow> Inl (DateParseError dateStr e)
       | Inr n \<Rightarrow>
           Inr (hex_encode (keccak (packed_match compId homeTeamId awayTeamId (word_of_nat n))))))"

definition NewMatch ::
  "(byte list \<Rightarrow> byte list) \<Rightarrow> uuid \<Rightarrow> go_time \<Rightarrow> Provider \<Rightarrow> string \<Rightarrow> Team \<Rightarrow> Team \<Rightarrow>
   go_uint \<Rightarrow> go_uint \<Rightarrow> Competition \<Rightarrow> MatchStatus \<Rightarrow> (match_error, Match) result" where
  "NewMatch keccak newID start provider providerMatchID homeTeamID awayTeamID
     homeTeamScore awayTeamScore competition status =
     (let endTime = time_add start (hours 2);
          status' = (if status = 0 then Pending else status)
      in (case generateMatchID keccak competition homeTeamID awayTeamID start of
            Inl e \<Rightarrow> Inl e
          | Inr canonicalID \<Rightarrow>
              Inr \<lparr>ID = newID, CanonicalID = canonicalID, Start = start, End = endTime,
                   Status = status', Provider = provider, ProviderMatchID = providerMatchID,
                   CompetitionID = competition, HomeTeamID = homeTeamID, AwayTeamID = awayTeamID,
                   HomeTeamScore = homeTeamScore, AwayTeamScore = awayTeamScore\<rparr>))"

section \<open>The identity of a match\<close>

lemma length_packed_match [simp]: "length (packed_match c h a d) = 16"
  by (simp add: packed_match_def uint32ToBytes_def)

text \<open>Fixed widths make the packing injective: there is no shifting of bytes between the fields.\<close>

lemma packed_match_inj:
  assumes "packed_match c h a d = packed_match c' h' a' d'"
  shows "c = c' \<and> h = h' \<and> a = a' \<and> d = d'"
proof -
  have "packed_match c h a d = concat (map put_uint32 [c, h, a, d])" for c h a d
    by (simp add: packed_match_def uint32ToBytes_def)
  with assms have "[c, h, a, d] = [c', h', a', d']"
    by (metis be32.concat_enc_inj)
  then show ?thesis by simp
qed

text \<open>The date number of a time: the year, month and day of its own location.\<close>

definition date_number :: "go_time \<Rightarrow> int" where
  "date_number t = compact_value (year_of t) (month_of t) (day_of t)"

lemma date_number_pos: "0 \<le> year_of t \<Longrightarrow> 0 < date_number t"
  using month_of_bounds [of t] day_of_bounds [of t] by (simp add: date_number_def compact_value_def)

lemma date_number_fits: "0 \<le> year_of t \<Longrightarrow> year_of t \<le> 9999 \<Longrightarrow> nat (date_number t) < 2 ^ 32"
  using month_of_bounds [of t] day_of_bounds [of t]
  by (simp add: date_number_def compact_value_def nat_less_iff)

lemma generateMatchID_ok:
  assumes "0 \<le> year_of t" and "year_of t \<le> 9999"
  shows "generateMatchID keccak c h a t =
    Inr (hex_encode (keccak (packed_match c h a (word_of_int (date_number t)))))"
proof -
  have "parse_uint 32 (format_compact t) = Inr (nat (date_number t))"
    using assms date_number_fits [OF assms]
    by (simp add: parse_uint_ok format_compact_nonempty digits_val_compact date_number_def)
  moreover have "word_of_nat (nat (date_number t)) = (word_of_int (date_number t) :: uint32)"
    using date_number_pos [OF assms(1)] by (simp add: of_nat_nat)
  ultimately show ?thesis by (simp add: generateMatchID_def)
qed

lemma generateMatchID_negative_year:
  assumes "year_of t < 0"
  shows "\<exists>e. generateMatchID keccak c h a t = Inl (DateParseError (format_compact t) e)"
proof -
  have "parse_uint 32 (format_compact t) \<noteq> Inr n" for n
    using format_compact_negative [OF assms] by (simp add: parse_uint_ok)
  then obtain e where "parse_uint 32 (format_compact t) = Inl e"
    by (cases "parse_uint 32 (format_compact t)") auto
  then show ?thesis by (simp add: generateMatchID_def)
qed

lemma word_of_date_number_inj:
  assumes "0 \<le> year_of t" and "year_of t \<le> 9999" and "0 \<le> year_of u" and "year_of u \<le> 9999"
    and "(word_of_int (date_number t) :: uint32) = word_of_int (date_number u)"
  shows "date_of t = date_of u"
proof -
  have r: "0 \<le> date_number t" "date_number t < 2 ^ 32" "0 \<le> date_number u" "date_number u < 2 ^ 32"
    using date_number_pos date_number_fits assms(1-4) by (simp_all add: less_imp_le nat_less_iff)
  from assms(5) have "uint (word_of_int (date_number t) :: uint32) = uint (word_of_int (date_number u) :: uint32)"
    by simp
  with r have eq: "date_number t = date_number u"
    by (simp add: uint_word_of_int)
  note bounds = month_of_bounds [of t] day_of_bounds [of t] month_of_bounds [of u] day_of_bounds [of u]
  have eq': "year_of t * 10000 + month_of t * 100 + day_of t =
      year_of u * 10000 + month_of u * 100 + day_of u"
    using eq by (simp add: date_number_def compact_value_def)
  with bounds have y: "year_of t = year_of u" by linarith
  with eq' have eq'': "month_of t * 100 + day_of t = month_of u * 100 + day_of u" by simp
  with bounds have m: "month_of t = month_of u" by linarith
  with eq'' have "day_of t = day_of u" by simp
  with y m show ?thesis by (simp add: year_of_def month_of_def day_of_def prod_eq_iff)
qed

section \<open>What the constructor promises\<close>

definition wf_match :: "(byte list \<Rightarrow> byte list) \<Rightarrow> Match \<Rightarrow> bool" where
  "wf_match keccak m \<longleftrightarrow>
     generateMatchID keccak (CompetitionID m) (HomeTeamID m) (AwayTeamID m) (Start m) = Inr (CanonicalID m) \<and>
     End m = time_add (Start m) (hours 2) \<and> Status m \<noteq> 0"

lemma NewMatch_wf: "NewMatch k u st p pid h a hs as c s = Inr m \<Longrightarrow> wf_match k m"
  by (auto simp: NewMatch_def Let_def wf_match_def Pending_def split: sum.splits if_splits)

lemma NewMatch_fields:
  assumes "NewMatch k u st p pid h a hs as c s = Inr m"
  shows "ID m = u" "Start m = st" "Provider m = p" "ProviderMatchID m = pid" "HomeTeamID m = h"
    "AwayTeamID m = a" "HomeTeamScore m = hs" "AwayTeamScore m = as" "CompetitionID m = c"
    "Status m = (if s = 0 then Pending else s)"
  using assms by (auto simp: NewMatch_def Let_def split: sum.splits)

lemma NewMatch_ok:
  assumes "0 \<le> year_of st" and "year_of st \<le> 9999"
  shows "\<exists>m. NewMatch k u st p pid h a hs as c s = Inr m"
  using generateMatchID_ok [OF assms] by (simp add: NewMatch_def Let_def)

section \<open>Properties\<close>

lemma generateMatchID_year: "generateMatchID k c h a t = Inr s \<Longrightarrow> 0 \<le> year_of t"
  using generateMatchID_negative_year [of t k c h a] by (cases "0 \<le> year_of t") auto

text \<open>
  C14: Two matches with the same canonical identifier have the same competition, the same home and
  away team and the same day, as long as the hash does not collide on inputs of 16 bytes.
\<close>

theorem canonical_id_injective:
  assumes "inj_on k {bs. length bs = 16}" and "year_of t \<le> 9999" and "year_of u \<le> 9999"
    and "generateMatchID k c h a t = Inr s" and "generateMatchID k c' h' a' u = Inr s"
  shows "c = c' \<and> h = h' \<and> a = a' \<and> date_of t = date_of u"
proof -
  note years = generateMatchID_year [OF assms(4)] generateMatchID_year [OF assms(5)]
  have "hex_encode (k (packed_match c h a (word_of_int (date_number t)))) =
      hex_encode (k (packed_match c' h' a' (word_of_int (date_number u))))"
    using assms(4,5) generateMatchID_ok [OF years(1) assms(2), of k c h a]
      generateMatchID_ok [OF years(2) assms(3), of k c' h' a'] by simp
  then have "k (packed_match c h a (word_of_int (date_number t))) = k (packed_match c' h' a' (word_of_int (date_number u)))"
    by (rule hex_encode_inj)
  then have "packed_match c h a (word_of_int (date_number t)) = packed_match c' h' a' (word_of_int (date_number u))"
    by (rule inj_onD [OF assms(1)]) simp_all
  then have "c = c' \<and> h = h' \<and> a = a' \<and> (word_of_int (date_number t) :: uint32) = word_of_int (date_number u)"
    by (rule packed_match_inj)
  with word_of_date_number_inj [OF years(1) assms(2) years(2) assms(3)] show ?thesis by blast
qed

theorem canonical_id_injective_witness:
  "date_of \<lparr>unix_ns = 0, zone_off = 0\<rparr> = date_of \<lparr>unix_ns = hours 23, zone_off = 0\<rparr>"
proof -
  have "generateMatchID (\<lambda>bs. bs) 1 2 3 \<lparr>unix_ns = 0, zone_off = 0\<rparr> = Inr ''000000010000000200000003012c9985''"
    "generateMatchID (\<lambda>bs. bs) 1 2 3 \<lparr>unix_ns = hours 23, zone_off = 0\<rparr> = Inr ''000000010000000200000003012c9985''"
    "year_of \<lparr>unix_ns = 0, zone_off = 0\<rparr> \<le> 9999" "year_of \<lparr>unix_ns = hours 23, zone_off = 0\<rparr> \<le> 9999"
    by code_simp+
  then show ?thesis
    using canonical_id_injective [of "\<lambda>bs. bs" "\<lparr>unix_ns = 0, zone_off = 0\<rparr>" "\<lparr>unix_ns = hours 23, zone_off = 0\<rparr>"
      1 2 3 "''000000010000000200000003012c9985''" 1 2 3] by simp
qed

text \<open>
  The canonical identifier of a match in the years 0 to 9999 is the hex form of the hash of
  the packed competition, teams and day number; a negative year is an error.
\<close>

theorem generateMatchID_spec:
  "(0 \<le> year_of t \<and> year_of t \<le> 9999 \<longrightarrow>
      generateMatchID k c h a t =
        Inr (hex_encode (k (packed_match c h a (word_of_int (year_of t * 10000 + month_of t * 100 + day_of t)))))) \<and>
   (year_of t < 0 \<longrightarrow> (\<exists>er. generateMatchID k c h a t = Inl (DateParseError (format_compact t) er)))"
  using generateMatchID_ok [of t k c h a] generateMatchID_negative_year [of t k c h a]
  by (simp add: date_number_def compact_value_def)

theorem generateMatchID_spec_witness:
  "generateMatchID (\<lambda>bs. bs) 1 2 3 \<lparr>unix_ns = 0, zone_off = 0\<rparr> = Inr (hex_encode (packed_match 1 2 3 19700101)) \<and>
   (\<exists>er. generateMatchID (\<lambda>bs. bs) 1 2 3 \<lparr>unix_ns = - (hours 24 * 800000), zone_off = 0\<rparr> =
      Inl (DateParseError ''-02210904'' er))"
proof -
  have "year_of \<lparr>unix_ns = 0, zone_off = 0\<rparr> = 1970" "month_of \<lparr>unix_ns = 0, zone_off = 0\<rparr> = 1"
    "day_of \<lparr>unix_ns = 0, zone_off = 0\<rparr> = 1"
    "year_of \<lparr>unix_ns = - (hours 24 * 800000), zone_off = 0\<rparr> < 0"
    "format_compact \<lparr>unix_ns = - (hours 24 * 800000), zone_off = 0\<rparr> = ''-02210904''"
    by code_simp+
  then show ?thesis
    using generateMatchID_spec [of "\<lparr>unix_ns = 0, zone_off = 0\<rparr>" "\<lambda>bs. bs" 1 2 3]
      generateMatchID_spec [of "\<lparr>unix_ns = - (hours 24 * 800000), zone_off = 0\<rparr>" "\<lambda>bs. bs" 1 2 3] by simp
qed

end
