(* ===== verification/Provider_Env.thy ===== *)
theory Provider_Env
  imports Store Entity
begin

text \<open>
  What a run of the provider binary meets outside the repository: the environment record, which
  extends the database environment with the hash, the clock, the two HTTP APIs and the process
  environment, and the data the football-data.org client library returns.
\<close>

section \<open>The football-data.org client library\<close>

text \<open>
  The fields of \<open>types.Match\<close> of \<open>github.com/paulinxe/go-football-data\<close> that the provider reads;
  a nil score pointer is \<open>None\<close>.
\<close>

record fo_match =
  fo_ID :: go_uint
  fo_CompetitionID :: go_uint
  fo_HomeTeamID :: go_uint
  fo_AwayTeamID :: go_uint
  fo_UTCDate :: string
  fo_Status :: string
  fo_FullTimeHome :: "go_uint option"
  fo_FullTimeAway :: "go_uint option"

text \<open>What \<open>football_data.New\<close> is given: the API key and the base URL of the \<open>WithBaseURL\<close> option.\<close>

record fo_client =
  client_key :: string
  client_base_url :: "string option"

section \<open>net/http\<close>

text \<open>
  The outcome of \<open>http.Client.Do\<close>: no response at all, or a status code with a body that can be
  read or not.
\<close>

datatype http_result = HttpFailed | HttpResponse nat "string option"

text \<open>
  \<open>net/url\<close>: query escaping of a parameter, and \<open>url.Values.Encode\<close> for single-valued parameters,
  sorted by name.
\<close>

definition url_unreserved :: "char \<Rightarrow> bool" where
  "url_unreserved c = (let n = (of_char c :: nat) in
     48 \<le> n \<and> n \<le> 57 \<or> 65 \<le> n \<and> n \<le> 90 \<or> 97 \<le> n \<and> n \<le> 122 \<or> c \<in> set ''-_.~'')"

definition upper_hex_char :: "nat \<Rightarrow> char" where
  "upper_hex_char n = char_of (if n < 10 then 48 + n else 55 + n)"

definition query_escape_char :: "char \<Rightarrow> string" where
  "query_escape_char c =
     (if url_unreserved c then [c]
      else if c = CHR '' '' then ''+''
      else [CHR ''%'', upper_hex_char (of_char c div 16), upper_hex_char (of_char c mod 16)])"

definition query_escape :: "string \<Rightarrow> string" where
  "query_escape s = concat (map query_escape_char s)"

fun string_le :: "string \<Rightarrow> string \<Rightarrow> bool" where
  "string_le [] t = True"
| "string_le (c # s) [] = False"
| "string_le (c # s) (d # t) =
     (if c = d then string_le s t else (of_char c :: nat) < of_char d)"

fun insert_param :: "string \<times> string \<Rightarrow> (string \<times> string) list \<Rightarrow> (string \<times> string) list" where
  "insert_param p [] = [p]"
| "insert_param p (q # qs) = (if string_le (fst p) (fst q) then p # q # qs else q # insert_param p qs)"

definition sort_params :: "(string \<times> string) list \<Rightarrow> (string \<times> string) list" where
  "sort_params ps = foldr insert_param ps []"

definition encode_values :: "(string \<times> string) list \<Rightarrow> string" where
  "encode_values ps =
     join_strings ''&'' (map (\<lambda>(k, v). query_escape k @ ''='' @ query_escape v) (sort_params ps))"

section \<open>The environment of a run\<close>

text \<open>
  \<^item> \<open>keccak\<close> is \<open>crypto.Keccak256\<close>;
  \<^item> \<open>getenv\<close> is \<open>os.Getenv\<close> (the empty string for an unset variable);
  \<^item> \<open>wall_clock n\<close> is \<open>Clock.Now()\<close>;
  \<^item> \<open>ctx_done n\<close> says whether the context's deadline has passed;
  \<^item> \<open>http_get n url\<close> is a GET request of the apifootball provider;
  \<^item> \<open>fo_get_match\<close> and \<open>fo_get_matches\<close> are \<open>GetMatch\<close> and \<open>GetMatches\<close> of the client library.
\<close>

record provider_env = db_env +
  keccak :: "byte list \<Rightarrow> byte list"
  getenv :: "string \<Rightarrow> string"
  wall_clock :: "nat \<Rightarrow> go_time"
  ctx_done :: "nat \<Rightarrow> bool"
  http_get :: "nat \<Rightarrow> string \<Rightarrow> http_result"
  fo_get_match :: "fo_client \<Rightarrow> nat \<Rightarrow> string \<Rightarrow> (string, fo_match) result"
  fo_get_matches :: "fo_client \<Rightarrow> nat \<Rightarrow> go_uint \<Rightarrow> go_time \<Rightarrow> go_time \<Rightarrow> (string, fo_match list) result"

text \<open>A quiet environment, the base of the concrete runs used as examples.\<close>

definition quiet_env :: provider_env where
  "quiet_env =
     \<lparr>db_fault = (\<lambda>_. Healthy), db_now = (\<lambda>_. epoch), heap_order = (\<lambda>_ rows. rows),
      ts_value = (\<lambda>t. t), uuid_new = (\<lambda>n. word_of_nat n),
      keccak = (\<lambda>bs. take 32 (bs @ replicate 32 0)), getenv = (\<lambda>_. ''k''),
      wall_clock = (\<lambda>_. epoch), ctx_done = (\<lambda>_. False), http_get = (\<lambda>_ _. HttpFailed),
      fo_get_match = (\<lambda>_ _ _. Inl ''no match''), fo_get_matches = (\<lambda>_ _ _ _ _. Inr [])\<rparr>"

definition start_world :: "tables \<Rightarrow> world" where
  "start_world t = \<lparr>w_db = t, w_tick = 0, w_log = []\<rparr>"

text \<open>One finished match, and an environment whose football-data.org client delivers it.\<close>

definition sample_fo :: fo_match where
  "sample_fo =
     \<lparr>fo_ID = 7, fo_CompetitionID = 2014, fo_HomeTeamID = 86, fo_AwayTeamID = 81,
      fo_UTCDate = ''2025-12-03T20:00:00Z'', fo_Status = ''FINISHED'',
      fo_FullTimeHome = Some 2, fo_FullTimeAway = Some 1\<rparr>"

definition sample_env :: provider_env where
  "sample_env =
     quiet_env\<lparr>fo_get_matches := (\<lambda>_ _ _ _ _. Inr [sample_fo]), fo_get_match := (\<lambda>_ _ _. Inr sample_fo),
       wall_clock := (\<lambda>_. \<lparr>unix_ns = 1764800000 * second_ns, zone_off = 0\<rparr>)\<rparr>"

text \<open>A queue with one entry that has not been tried.\<close>

definition sample_entry :: recon_row where
  "sample_entry =
     \<lparr>rr_id = 9, rr_provider_match_id = ''7'', rr_provider = FootballOrg, rr_reconciled_at = None, rr_tries = 0\<rparr>"

definition sample_queue :: tables where
  "sample_queue = empty_tables\<lparr>match_reconciliation := [sample_entry]\<rparr>"

end
