(* ===== verification/Provider_Repos.thy ===== *)
theory Provider_Repos
  imports Provider_Env "HOL-Library.Multiset"
begin

text \<open>
  Package \<open>repository\<close> of the provider (\<open>src/provider/internal/repository\<close>): the three repositories
  over the shared tables, one definition per method.
\<close>

datatype repo_error =
    NilDatabase
  | InsertMatchError string db_error
  | FindMatchError string Provider db_error
  | ScanMatchError string
  | TimestampError db_error
  | FinishMatchError db_error
  | EnqueueError db_error
  | PendingQueryError db_error
  | RemoveError db_error
  | IncrementError db_error
  | FindEntryError db_error
  | LastSyncedError db_error
  | UpdateSyncedError db_error
  | BeginTxError db_error
  | CommitError db_error

text \<open>\<open>if err != nil { return wrap(err) }; return nil\<close>.\<close>

definition check_err :: "('e \<Rightarrow> 'f) \<Rightarrow> ('e, 'a) result \<times> 'w \<Rightarrow> ('f, unit) result \<times> 'w" where
  "check_err wrap rw = (case rw of (r, w) \<Rightarrow> (case r of Inl er \<Rightarrow> Inl (wrap er) | Inr _ \<Rightarrow> Inr (), w))"

definition wrap_err :: "('e \<Rightarrow> 'f) \<Rightarrow> ('e, 'a) result \<times> 'w \<Rightarrow> ('f, 'a) result \<times> 'w" where
  "wrap_err wrap rw = (case rw of (r, w) \<Rightarrow> (case r of Inl er \<Rightarrow> Inl (wrap er) | Inr x \<Rightarrow> Inr x, w))"

lemma check_err_snd [simp]: "snd (check_err f rw) = snd rw"
  by (simp add: check_err_def split: prod.split)

lemma check_err_ok [simp]: "fst (check_err f rw) = Inr u \<longleftrightarrow> is_ok (fst rw)"
  by (auto simp: check_err_def is_ok_def split: prod.split sum.split)

lemma wrap_err_snd [simp]: "snd (wrap_err f rw) = snd rw"
  by (simp add: wrap_err_def split: prod.split)

lemma wrap_err_ok [simp]: "fst (wrap_err f rw) = Inr x \<longleftrightarrow> fst rw = Inr x"
  by (auto simp: wrap_err_def split: prod.split sum.split)

section \<open>Construction\<close>

text \<open>A \<open>*sql.DB\<close> that may be nil, and the three constructors that refuse nil.\<close>

definition NewMatchRepository :: "'db option \<Rightarrow> (repo_error, 'db) result" where
  "NewMatchRepository db = (case db of None \<Rightarrow> Inl NilDatabase | Some d \<Rightarrow> Inr d)"

definition NewSyncStateRepository :: "'db option \<Rightarrow> (repo_error, 'db) result" where
  "NewSyncStateRepository db = (case db of None \<Rightarrow> Inl NilDatabase | Some d \<Rightarrow> Inr d)"

definition NewReconciliationRepository :: "'db option \<Rightarrow> (repo_error, 'db) result" where
  "NewReconciliationRepository db = (case db of None \<Rightarrow> Inl NilDatabase | Some d \<Rightarrow> Inr d)"

record 'db Repositories =
  MatchRepo :: 'db
  SyncStateRepo :: 'db
  ReconciliationRepo :: 'db

definition InitRepositories :: "'db option \<Rightarrow> (repo_error, 'db Repositories) result" where
  "InitRepositories db =
     (case NewMatchRepository db of
        Inl e \<Rightarrow> Inl e
      | Inr matchRepo \<Rightarrow>
          (case NewSyncStateRepository db of
             Inl e \<Rightarrow> Inl e
           | Inr syncStateRepo \<Rightarrow>
               (case NewReconciliationRepository db of
                  Inl e \<Rightarrow> Inl e
                | Inr reconciliationRepo \<Rightarrow>
                    Inr \<lparr>MatchRepo = matchRepo, SyncStateRepo = syncStateRepo,
                         ReconciliationRepo = reconciliationRepo\<rparr>)))"

section \<open>MatchRepository\<close>

text \<open>The columns the statement does not name are left to \<open>column_defaults\<close>, whatever stands here.\<close>

definition match_to_row :: "'z db_env_scheme \<Rightarrow> Match \<Rightarrow> match_row" where
  "match_to_row e m =
     \<lparr>row_id = ID m, row_canonical_id = CanonicalID m, row_home_team_id = uint (HomeTeamID m),
      row_away_team_id = uint (AwayTeamID m), row_start = ts_value e (Start m),
      row_end = ts_value e (End m), row_status = Status m,
      row_home_team_score = uint (HomeTeamScore m), row_away_team_score = uint (AwayTeamScore m),
      row_provider_match_id = ProviderMatchID m, row_competition_id = uint (CompetitionID m),
      row_provider = Provider m, row_signature = None, row_updated_at = None,
      row_transaction_hash = None, row_created_at = epoch\<rparr>"

text \<open>Scanning a row: a negative integer does not fit an unsigned field.\<close>

definition row_to_match :: "match_row \<Rightarrow> Match option" where
  "row_to_match r =
     (if row_home_team_id r < 0 \<or> row_away_team_id r < 0 \<or> row_competition_id r < 0 \<or>
         row_home_team_score r < 0 \<or> row_away_team_score r < 0 then None
      else Some \<lparr>ID = row_id r, CanonicalID = row_canonical_id r, Start = row_start r, End = row_end r,
                 Status = row_status r, Provider = row_provider r,
                 ProviderMatchID = row_provider_match_id r,
                 CompetitionID = word_of_int (row_competition_id r),
                 HomeTeamID = word_of_int (row_home_team_id r),
                 AwayTeamID = word_of_int (row_away_team_id r),
                 HomeTeamScore = word_of_int (row_home_team_score r),
                 AwayTeamScore = word_of_int (row_away_team_score r)\<rparr>)"

definition Save :: "'z db_env_scheme \<Rightarrow> Match \<Rightarrow> world \<Rightarrow> (repo_error, unit) result \<times> world" where
  "Save e m w =
     check_err (InsertMatchError (ProviderMatchID m))
       (db_exec e (upsert_match (db_now e (w_tick w)) (match_to_row e m)) w)"

definition SaveInTx ::
  "'z db_env_scheme \<Rightarrow> Match \<Rightarrow> tables \<times> world \<Rightarrow> (repo_error, unit) result \<times> tables \<times> world" where
  "SaveInTx e m txw =
     check_err (InsertMatchError (ProviderMatchID m))
       (tx_exec e (upsert_match (db_now e (w_tick (snd txw))) (match_to_row e m)) txw)"

definition FindByCanonicalID ::
  "'z db_env_scheme \<Rightarrow> string \<Rightarrow> Provider \<Rightarrow> world \<Rightarrow> (repo_error, Match option) result \<times> world" where
  "FindByCanonicalID e canonicalID provider w =
     (case db_query e (\<lambda>t. filter (\<lambda>r. row_canonical_id r = canonicalID \<and> row_provider r = provider)
                             (heap_order e (w_tick w) (matches t))) w of
        (Inl er, w') \<Rightarrow> (Inl (FindMatchError canonicalID provider er), w')
      | (Inr [], w') \<Rightarrow> (Inr None, w')
      | (Inr (r # _), w') \<Rightarrow>
          (case row_to_match r of None \<Rightarrow> Inl (ScanMatchError canonicalID) | Some m \<Rightarrow> Inr (Some m), w'))"

text \<open>\<open>ORDER BY start DESC LIMIT 1\<close>: a row no other row is later than.\<close>

fun latest_start :: "go_time option \<Rightarrow> match_row list \<Rightarrow> go_time option" where
  "latest_start best [] = best"
| "latest_start best (r # rs) =
     latest_start (case best of None \<Rightarrow> Some (row_start r)
                   | Some b \<Rightarrow> if time_before b (row_start r) then Some (row_start r) else Some b) rs"

definition FindMostRecentTimestamp ::
  "'z db_env_scheme \<Rightarrow> Competition \<Rightarrow> Provider \<Rightarrow> world \<Rightarrow> (repo_error, go_time option) result \<times> world" where
  "FindMostRecentTimestamp e competition provider w =
     wrap_err TimestampError
       (db_query e (\<lambda>t. latest_start None
          (filter (\<lambda>r. row_competition_id r = uint competition \<and> row_provider r = provider) (matches t))) w)"

definition FinishMatch ::
  "'z db_env_scheme \<Rightarrow> uuid \<Rightarrow> go_uint \<Rightarrow> go_uint \<Rightarrow> world \<Rightarrow> (repo_error, unit) result \<times> world" where
  "FinishMatch e matchID homeTeamScore awayTeamScore w =
     check_err FinishMatchError
       (db_exec e (finish_match (db_now e (w_tick w)) matchID Finished
                     (uint homeTeamScore) (uint awayTeamScore)) w)"

section \<open>ReconciliationRepository\<close>

record ReconciliationEntry =
  EntryID :: uuid
  EntryProviderMatchID :: string
  EntryProvider :: Provider
  ReconciledAt :: "go_time option"
  Tries :: go_int

definition entry_of_row :: "recon_row \<Rightarrow> ReconciliationEntry" where
  "entry_of_row r =
     \<lparr>EntryID = rr_id r, EntryProviderMatchID = rr_provider_match_id r, EntryProvider = rr_provider r,
      ReconciledAt = rr_reconciled_at r, Tries = rr_tries r\<rparr>"

definition BeginTx :: "'z db_env_scheme \<Rightarrow> world \<Rightarrow> (repo_error, tables) result \<times> world" where
  "BeginTx e w = wrap_err BeginTxError (db_query e (\<lambda>t. t) w)"

definition SaveToReconciliationQueue ::
  "'z db_env_scheme \<Rightarrow> string \<Rightarrow> Provider \<Rightarrow> world \<Rightarrow> (repo_error, unit) result \<times> world" where
  "SaveToReconciliationQueue e providerMatchID provider w =
     check_err EnqueueError (db_exec e (enqueue_recon (uuid_new e (w_tick w)) providerMatchID provider) w)"

definition GetPendingReconciliations ::
  "'z db_env_scheme \<Rightarrow> nat \<Rightarrow> int \<Rightarrow> world \<Rightarrow> (repo_error, ReconciliationEntry list) result \<times> world" where
  "GetPendingReconciliations e limit maxTries w =
     wrap_err PendingQueryError
       (db_query e (\<lambda>t. map entry_of_row
          (take limit (sort_key rr_id (filter (\<lambda>r. rr_tries r < maxTries) (match_reconciliation t))))) w)"

definition MarkReconciled ::
  "'z db_env_scheme \<Rightarrow> uuid \<Rightarrow> tables \<times> world \<Rightarrow> (repo_error, unit) result \<times> tables \<times> world" where
  "MarkReconciled e i txw = check_err RemoveError (tx_exec e (delete_recon i) txw)"

definition IncrementTries ::
  "'z db_env_scheme \<Rightarrow> uuid \<Rightarrow> world \<Rightarrow> (repo_error, unit) result \<times> world" where
  "IncrementTries e i w =
     check_err IncrementError (db_exec e (bump_tries (db_now e (w_tick w)) i) w)"

definition IncrementTriesInTx ::
  "'z db_env_scheme \<Rightarrow> uuid \<Rightarrow> tables \<times> world \<Rightarrow> (repo_error, unit) result \<times> tables \<times> world" where
  "IncrementTriesInTx e i txw =
     check_err IncrementError (tx_exec e (bump_tries (db_now e (w_tick (snd txw))) i) txw)"

definition FindByProviderMatchID ::
  "'z db_env_scheme \<Rightarrow> string \<Rightarrow> Provider \<Rightarrow> world \<Rightarrow>
   (repo_error, ReconciliationEntry option) result \<times> world" where
  "FindByProviderMatchID e providerMatchID provider w =
     wrap_err FindEntryError
       (db_query e (\<lambda>t. case filter (\<lambda>r. recon_key r = (providerMatchID, provider)) (match_reconciliation t) of
            [] \<Rightarrow> None
          | r # _ \<Rightarrow> Some (entry_of_row r)) w)"

section \<open>SyncStateRepository\<close>

definition last_synced :: "tables \<Rightarrow> Competition \<Rightarrow> Provider \<Rightarrow> go_time option" where
  "last_synced t competition provider =
     (case filter (\<lambda>r. sync_key r = (uint competition, provider)) (sync_state t) of
        [] \<Rightarrow> None
      | r # _ \<Rightarrow> Some (sr_last_synced_date r))"

definition GetLastSyncedDate ::
  "'z db_env_scheme \<Rightarrow> Competition \<Rightarrow> Provider \<Rightarrow> world \<Rightarrow> (repo_error, go_time option) result \<times> world" where
  "GetLastSyncedDate e competition provider w =
     wrap_err LastSyncedError (db_query e (\<lambda>t. last_synced t competition provider) w)"

definition UpdateLastSyncedDate ::
  "'z db_env_scheme \<Rightarrow> Competition \<Rightarrow> Provider \<Rightarrow> go_time \<Rightarrow> world \<Rightarrow> (repo_error, unit) result \<times> world" where
  "UpdateLastSyncedDate e competition provider date w =
     check_err UpdateSyncedError
       (db_exec e (upsert_sync (db_now e (w_tick w))
          \<lparr>sr_id = uuid_new e (w_tick w), sr_competition_id = uint competition, sr_provider = provider,
           sr_last_synced_date = ts_value e date, sr_updated_at = db_now e (w_tick w), sr_created_at = db_now e (w_tick w)\<rparr>) w)"

section \<open>What the methods promise\<close>

text \<open>No method writes anything but the table of its statement, and each call is one tick.\<close>

lemma Save_frame [frame_simps]:
  "w_tick (snd (Save e m w)) = Suc (w_tick w)" "w_log (snd (Save e m w)) = w_log w"
  by (simp_all add: Save_def frame_simps)

lemma SaveToReconciliationQueue_frame [frame_simps]:
  "w_tick (snd (SaveToReconciliationQueue e i p w)) = Suc (w_tick w)"
  "w_log (snd (SaveToReconciliationQueue e i p w)) = w_log w"
  by (simp_all add: SaveToReconciliationQueue_def frame_simps)

lemma IncrementTries_frame [frame_simps]:
  "w_tick (snd (IncrementTries e i w)) = Suc (w_tick w)" "w_log (snd (IncrementTries e i w)) = w_log w"
  by (simp_all add: IncrementTries_def frame_simps)

lemma UpdateLastSyncedDate_frame [frame_simps]:
  "w_tick (snd (UpdateLastSyncedDate e c p d w)) = Suc (w_tick w)"
  "w_log (snd (UpdateLastSyncedDate e c p d w)) = w_log w"
  by (simp_all add: UpdateLastSyncedDate_def frame_simps)

lemma GetLastSyncedDate_frame [frame_simps]:
  "w_tick (snd (GetLastSyncedDate e c p w)) = Suc (w_tick w)" "w_log (snd (GetLastSyncedDate e c p w)) = w_log w"
  "w_db (snd (GetLastSyncedDate e c p w)) = w_db w"
  by (simp_all add: GetLastSyncedDate_def frame_simps)

lemma GetPendingReconciliations_frame [frame_simps]:
  "w_tick (snd (GetPendingReconciliations e n k w)) = Suc (w_tick w)"
  "w_log (snd (GetPendingReconciliations e n k w)) = w_log w"
  "w_db (snd (GetPendingReconciliations e n k w)) = w_db w"
  by (simp_all add: GetPendingReconciliations_def frame_simps)

lemma BeginTx_frame [frame_simps]:
  "w_tick (snd (BeginTx e w)) = Suc (w_tick w)" "w_log (snd (BeginTx e w)) = w_log w"
  "w_db (snd (BeginTx e w)) = w_db w"
  by (simp_all add: BeginTx_def frame_simps)

lemma BeginTx_ok: "fst (BeginTx e w) = Inr tx \<Longrightarrow> tx = w_db w"
  by (simp add: BeginTx_def) (drule db_query_ok, simp)

lemma Save_wf: "wf_tables (w_db w) \<Longrightarrow> wf_tables (w_db (snd (Save e m w)))"
  by (simp add: Save_def upsert_match.exec_wf)

lemma SaveToReconciliationQueue_wf:
  "wf_tables (w_db w) \<Longrightarrow> wf_tables (w_db (snd (SaveToReconciliationQueue e i p w)))"
  by (simp add: SaveToReconciliationQueue_def enqueue_recon.exec_wf)

lemma IncrementTries_wf: "wf_tables (w_db w) \<Longrightarrow> wf_tables (w_db (snd (IncrementTries e i w)))"
  by (simp add: IncrementTries_def bump_tries.exec_wf)

lemma UpdateLastSyncedDate_wf:
  "wf_tables (w_db w) \<Longrightarrow> wf_tables (w_db (snd (UpdateLastSyncedDate e c p d w)))"
  by (simp add: UpdateLastSyncedDate_def upsert_sync.exec_wf)

lemma FinishMatch_wf: "wf_tables (w_db w) \<Longrightarrow> wf_tables (w_db (snd (FinishMatch e i h a w)))"
  by (simp add: FinishMatch_def finish_match.exec_wf)

lemmas repo_wf = Save_wf SaveToReconciliationQueue_wf IncrementTries_wf UpdateLastSyncedDate_wf FinishMatch_wf

text \<open>\<open>stored\<close>: a row of the match's key carries the final status and the match's scores.\<close>

definition key_of :: "Match \<Rightarrow> int \<times> string" where
  "key_of m = (Provider m, ProviderMatchID m)"

definition stored :: "tables \<Rightarrow> Match \<Rightarrow> bool" where
  "stored t m \<longleftrightarrow> (\<exists>r \<in> set (matches t). match_key r = key_of m \<and> row_status r = Status m \<and>
     row_home_team_score r = uint (HomeTeamScore m) \<and> row_away_team_score r = uint (AwayTeamScore m))"

definition queued :: "tables \<Rightarrow> string \<Rightarrow> Provider \<Rightarrow> bool" where
  "queued t pmid p \<longleftrightarrow> (\<exists>r \<in> set (match_reconciliation t). recon_key r = (pmid, p))"

lemma match_to_row_simps [simp]:
  "match_key (match_to_row e m) = key_of m" "row_status (match_to_row e m) = Status m"
  "row_home_team_score (match_to_row e m) = uint (HomeTeamScore m)"
  "row_away_team_score (match_to_row e m) = uint (AwayTeamScore m)"
  "row_id (match_to_row e m) = ID m" "row_canonical_id (match_to_row e m) = CanonicalID m"
  by (simp_all add: match_to_row_def match_key_def key_of_def)

lemma upsert_match_stored:
  assumes "upsert_match now (match_to_row e m) t = Inr (n, t')"
  shows "stored t' m"
proof (cases "list_ex (\<lambda>x. match_key x = key_of m) (matches t)")
  case True
  then obtain x where x: "x \<in> set (matches t)" "match_key x = key_of m" by (auto simp: list_ex_iff)
  let ?new = "overwrite_match now (match_to_row e m) x"
  from assms True have "matches t' = map (\<lambda>x. if match_key x = key_of m
      then overwrite_match now (match_to_row e m) x else x) (matches t)"
    by (auto simp: upsert_match_def split: if_splits)
  with x have "?new \<in> set (matches t')" by auto
  then show ?thesis unfolding stored_def by (rule bexI [rotated]) (simp add: x)
next
  case False
  with assms show ?thesis by (auto simp: upsert_match_def stored_def split: if_splits)
qed

lemma upsert_match_other:
  "upsert_match now r t = Inr (n, t') \<Longrightarrow> match_reconciliation t' = match_reconciliation t \<and>
     sync_state t' = sync_state t"
  by (auto simp: upsert_match_def split: if_splits)

lemma upsert_match_keeps:
  assumes "upsert_match now (match_to_row e m) t = Inr (n, t')" and "stored t m'"
  shows "stored t' m' \<or> key_of m' = key_of m"
  using assms by (auto simp: upsert_match_def stored_def split: if_splits)

lemma Save_ok: "fst (Save e m w) = Inr () \<Longrightarrow> stored (w_db (snd (Save e m w))) m"
  by (auto simp: Save_def is_ok_iff dest!: db_exec_ok upsert_match_stored)

lemma Save_other [frame_simps]:
  "match_reconciliation (w_db (snd (Save e m w))) = match_reconciliation (w_db w)"
  "sync_state (w_db (snd (Save e m w))) = sync_state (w_db w)"
  using db_exec_db [of e "upsert_match (db_now e (w_tick w)) (match_to_row e m)" w]
  by (auto simp: Save_def run_statement_def split: sum.splits dest: upsert_match_other)

lemma Save_keeps: "stored (w_db w) m' \<Longrightarrow> stored (w_db (snd (Save e m w))) m' \<or>
    key_of m' = key_of m \<and> stored (w_db (snd (Save e m w))) m"
  using db_exec_db [of e "upsert_match (db_now e (w_tick w)) (match_to_row e m)" w]
  by (auto simp: Save_def run_statement_def split: sum.splits dest: upsert_match_keeps upsert_match_stored)

lemma enqueue_recon_queued: "enqueue_recon i pmid p t = Inr (n, t') \<Longrightarrow> queued t' pmid p"
  by (auto simp: enqueue_recon_def queued_def list_ex_iff split: if_splits)

lemma SaveToReconciliationQueue_ok:
  "fst (SaveToReconciliationQueue e pmid p w) = Inr () \<Longrightarrow>
     queued (w_db (snd (SaveToReconciliationQueue e pmid p w))) pmid p"
  by (auto simp: SaveToReconciliationQueue_def is_ok_iff dest!: db_exec_ok enqueue_recon_queued)

lemma SaveToReconciliationQueue_other [frame_simps]:
  "matches (w_db (snd (SaveToReconciliationQueue e pmid p w))) = matches (w_db w)"
  "sync_state (w_db (snd (SaveToReconciliationQueue e pmid p w))) = sync_state (w_db w)"
  using db_exec_db [of e "enqueue_recon (uuid_new e (w_tick w)) pmid p" w]
  by (auto simp: SaveToReconciliationQueue_def run_statement_def enqueue_recon_def split: sum.splits if_splits)

lemma SaveToReconciliationQueue_keeps:
  "queued (w_db w) q p' \<Longrightarrow> queued (w_db (snd (SaveToReconciliationQueue e pmid p w))) q p'"
  using db_exec_db [of e "enqueue_recon (uuid_new e (w_tick w)) pmid p" w]
  by (auto simp: SaveToReconciliationQueue_def run_statement_def enqueue_recon_def queued_def
      split: sum.splits if_splits)

lemma GetLastSyncedDate_ok:
  "fst (GetLastSyncedDate e c p w) = Inr d \<Longrightarrow> d = last_synced (w_db w) c p"
  by (simp add: GetLastSyncedDate_def) (drule db_query_ok, simp)

lemma upsert_sync_other:
  "upsert_sync now r t = Inr (n, t') \<Longrightarrow> matches t' = matches t \<and> match_reconciliation t' = match_reconciliation t"
  by (auto simp: upsert_sync_def split: if_splits)

lemma upsert_sync_last:
  assumes "upsert_sync now r t = Inr (n, t')" and "sync_key r = (uint c, p)"
  shows "last_synced t' c p = Some (sr_last_synced_date r)"
proof -
  have upd: "\<exists>y ys. filter (\<lambda>x. sync_key x = k) (map (\<lambda>x. if sync_key x = k then g x else x) xs) = y # ys \<and>
      sr_last_synced_date y = d"
    if "\<exists>x \<in> set xs. sync_key x = k" and "\<And>x. sync_key (g x) = sync_key x" and "\<And>x. sr_last_synced_date (g x) = d"
    for k d and g :: "sync_row \<Rightarrow> sync_row" and xs
    using that by (induction xs) auto
  have app: "filter (\<lambda>x. sync_key x = k) xs = []" if "\<not> list_ex (\<lambda>x. sync_key x = k) xs" for k and xs
    using that by (auto simp: list_ex_iff filter_empty_conv)
  show ?thesis
  proof (cases "list_ex (\<lambda>x. sync_key x = sync_key r) (sync_state t)")
    case True
    with upd [of "sync_state t" "(uint c, p)" "\<lambda>x. x\<lparr>sr_last_synced_date := sr_last_synced_date r, sr_updated_at := now\<rparr>"
        "sr_last_synced_date r"] assms
    show ?thesis by (auto simp: upsert_sync_def last_synced_def list_ex_iff split: if_splits)
  next
    case False
    with app [OF False] assms show ?thesis
      by (auto simp: upsert_sync_def last_synced_def split: if_splits)
  qed
qed

lemma UpdateLastSyncedDate_ok:
  assumes "UpdateLastSyncedDate e c p d w = (Inr (), w')"
  shows "last_synced (w_db w') c p = Some (ts_value e d)"
proof -
  from assms have "fst (UpdateLastSyncedDate e c p d w) = Inr ()" and w': "w' = snd (UpdateLastSyncedDate e c p d w)"
    by simp_all
  then show ?thesis
    unfolding w'
    by (auto simp: UpdateLastSyncedDate_def is_ok_iff sync_key_def
        dest!: db_exec_ok upsert_sync_last [where c = c and p = p])
qed

lemma UpdateLastSyncedDate_other [frame_simps]:
  "matches (w_db (snd (UpdateLastSyncedDate e c p d w))) = matches (w_db w)"
  "match_reconciliation (w_db (snd (UpdateLastSyncedDate e c p d w))) = match_reconciliation (w_db w)"
  using db_exec_db [of e "upsert_sync (db_now e (w_tick w))
          \<lparr>sr_id = uuid_new e (w_tick w), sr_competition_id = uint c, sr_provider = p,
           sr_last_synced_date = ts_value e d, sr_updated_at = db_now e (w_tick w), sr_created_at = db_now e (w_tick w)\<rparr>" w]
  by (auto simp: UpdateLastSyncedDate_def run_statement_def split: sum.splits dest: upsert_sync_other)

section \<open>Properties\<close>

text \<open>An environment in which nothing fails.\<close>

definition quiet_db :: db_env where
  "quiet_db =
     \<lparr>db_fault = (\<lambda>_. Healthy), db_now = (\<lambda>_. epoch), heap_order = (\<lambda>_ rows. rows), ts_value = (\<lambda>t. t),
      uuid_new = (\<lambda>n. word_of_nat n)\<rparr>"

definition quiet_world :: world where
  "quiet_world = \<lparr>w_db = empty_tables, w_tick = 0, w_log = []\<rparr>"

definition stored_match :: Match where
  "stored_match =
     \<lparr>ID = 5, CanonicalID = ''ab'', Start = epoch, End = epoch, Status = Finished, Provider = FootballOrg,
      ProviderMatchID = ''7'', CompetitionID = LaLiga, HomeTeamID = Barcelona, AwayTeamID = Getafe,
      HomeTeamScore = 2, AwayTeamScore = 1\<rparr>"

lemma row_to_match_of_row:
  "row_to_match (match_to_row e m) = Some (m\<lparr>Start := ts_value e (Start m), End := ts_value e (End m)\<rparr>)"
  by (simp add: row_to_match_def match_to_row_def)

lemma row_to_match_defaults [simp]: "row_to_match (column_defaults now r) = row_to_match r"
  by (simp add: row_to_match_def)

text \<open>
  A match saved for the first time is found again by its canonical id and provider with every
  field it was saved with; the two times are what the driver gives back for them.
\<close>

theorem save_find_roundtrip:
  assumes "Save e m w = (Inr (), w')" and "db_fault e (w_tick w') = Healthy"
    and "\<And>n rows. mset (heap_order e n rows) = mset rows"
    and "\<And>r. r \<in> set (matches (w_db w)) \<Longrightarrow> match_key r \<noteq> (Provider m, ProviderMatchID m) \<and>
           \<not> (row_canonical_id r = CanonicalID m \<and> row_provider r = Provider m)"
  shows "fst (FindByCanonicalID e (CanonicalID m) (Provider m) w') =
    Inr (Some (m\<lparr>Start := ts_value e (Start m), End := ts_value e (End m)\<rparr>))"
proof -
  let ?r = "match_to_row e m"
  let ?s = "column_defaults (db_now e (w_tick w)) ?r"
  have "is_ok (fst (db_exec e (upsert_match (db_now e (w_tick w)) ?r) w))"
    using assms(1) check_err_ok [of "InsertMatchError (ProviderMatchID m)"] unfolding Save_def by (metis fst_conv)
  moreover have w': "w' = snd (db_exec e (upsert_match (db_now e (w_tick w)) ?r) w)"
    using assms(1) unfolding Save_def by (metis check_err_snd snd_conv)
  ultimately obtain n t' where n: "upsert_match (db_now e (w_tick w)) ?r (w_db w) = Inr (n, t')" "w_db w' = t'"
    using db_exec_ok by (metis is_ok_iff)
  have "\<not> list_ex (\<lambda>x. match_key x = match_key ?r) (matches (w_db w))"
    using assms(4) by (auto simp: list_ex_iff match_key_def match_to_row_def)
  with n(1) have "matches t' = matches (w_db w) @ [?s]"
    by (auto simp: upsert_match_def split: if_splits)
  then have rows: "matches (w_db w') = matches (w_db w) @ [?s]" by (simp add: n(2))
  let ?p = "\<lambda>r. row_canonical_id r = CanonicalID m \<and> row_provider r = Provider m"
  have "filter ?p (matches (w_db w)) = []" using assms(4) by (auto simp: filter_empty_conv)
  moreover have "?p ?s" by (simp add: match_to_row_def)
  ultimately have "filter ?p (matches (w_db w')) = [?s]" by (simp add: rows)
  moreover have "mset (filter ?p (heap_order e (w_tick w') (matches (w_db w')))) = mset (filter ?p (matches (w_db w')))"
    unfolding mset_filter assms(3) ..
  ultimately have "mset (filter ?p (heap_order e (w_tick w') (matches (w_db w')))) = {#?s#}" by simp
  then have "filter ?p (heap_order e (w_tick w') (matches (w_db w'))) = [?s]" by (simp only: mset_single_iff)
  then show ?thesis using assms(2) by (simp add: FindByCanonicalID_def db_query_def row_to_match_of_row)
qed

theorem save_find_roundtrip_witness:
  "fst (FindByCanonicalID quiet_db ''ab'' FootballOrg (snd (Save quiet_db stored_match quiet_world))) =
     Inr (Some stored_match)"
proof -
  have "fst (Save quiet_db stored_match quiet_world) = Inr ()" by code_simp
  then obtain w' where w': "Save quiet_db stored_match quiet_world = (Inr (), w')" by (metis prod.collapse)
  have "fst (FindByCanonicalID quiet_db (CanonicalID stored_match) (Provider stored_match) w') =
      Inr (Some (stored_match\<lparr>Start := ts_value quiet_db (Start stored_match), End := ts_value quiet_db (End stored_match)\<rparr>))"
    by (rule save_find_roundtrip [OF w']) (simp_all add: quiet_db_def quiet_world_def empty_tables_def)
  moreover have "CanonicalID stored_match = ''ab''" "Provider stored_match = FootballOrg"
    "stored_match\<lparr>Start := ts_value quiet_db (Start stored_match), End := ts_value quiet_db (End stored_match)\<rparr> = stored_match"
    by (simp_all add: stored_match_def quiet_db_def)
  ultimately show ?thesis unfolding w' by simp
qed

text \<open>
  The date that was stored last for a competition and a provider is the date the next run reads.
\<close>

theorem sync_date_roundtrip:
  assumes "UpdateLastSyncedDate e c p d w = (Inr (), w')" and "db_fault e (w_tick w') = Healthy"
  shows "fst (GetLastSyncedDate e c p w') = Inr (Some (ts_value e d))"
  using UpdateLastSyncedDate_ok [OF assms(1)] assms(2)
  by (simp add: GetLastSyncedDate_def wrap_err_def db_query_def)

theorem sync_date_roundtrip_witness:
  "fst (GetLastSyncedDate quiet_db LaLiga FootballOrg (snd (UpdateLastSyncedDate quiet_db LaLiga FootballOrg epoch quiet_world))) =
     Inr (Some epoch)"
proof -
  have "fst (UpdateLastSyncedDate quiet_db LaLiga FootballOrg epoch quiet_world) = Inr ()" by code_simp
  then obtain w' where w': "UpdateLastSyncedDate quiet_db LaLiga FootballOrg epoch quiet_world = (Inr (), w')"
    by (metis prod.collapse)
  have "db_fault quiet_db (w_tick w') = Healthy" "ts_value quiet_db epoch = epoch" by (simp_all add: quiet_db_def)
  with sync_date_roundtrip [OF w'] show ?thesis unfolding w' by simp
qed

text \<open>
  A match handed to the reconciliation queue is found there by its provider's id, with its
  counter at zero unless the queue already held it, in which case the old entry is kept.
\<close>

theorem queue_roundtrip:
  assumes "SaveToReconciliationQueue e i p w = (Inr (), w')" and "db_fault e (w_tick w') = Healthy"
  shows "\<exists>en. fst (FindByProviderMatchID e i p w') = Inr (Some en) \<and> EntryProviderMatchID en = i \<and> EntryProvider en = p \<and>
    (Tries en = 0 \<and> ReconciledAt en = None \<or>
     (\<exists>q \<in> set (match_reconciliation (w_db w)). en = entry_of_row q))"
proof -
  let ?s = "enqueue_recon (uuid_new e (w_tick w)) i p"
  have "is_ok (fst (db_exec e ?s w))"
    using assms(1) check_err_ok [of EnqueueError] unfolding SaveToReconciliationQueue_def by (metis fst_conv)
  moreover have w': "w' = snd (db_exec e ?s w)"
    using assms(1) unfolding SaveToReconciliationQueue_def by (metis check_err_snd snd_conv)
  ultimately obtain n t' where n: "?s (w_db w) = Inr (n, t')" "w_db w' = t'" using db_exec_ok by (metis is_ok_iff)
  let ?f = "filter (\<lambda>r. recon_key r = (i, p))"
  have "\<exists>q qs. ?f (match_reconciliation t') = q # qs \<and> recon_key q = (i, p) \<and>
      (q \<in> set (match_reconciliation (w_db w)) \<or> rr_tries q = 0 \<and> rr_reconciled_at q = None)"
  proof (cases "?f (match_reconciliation (w_db w))")
    case Nil
    then have "\<not> list_ex (\<lambda>x. recon_key x = (i, p)) (match_reconciliation (w_db w))"
      by (auto simp: filter_empty_conv list_ex_iff)
    with n(1) Nil show ?thesis by (auto simp: enqueue_recon_def recon_key_def split: if_splits)
  next
    case (Cons q qs)
    have "q \<in> set (?f (match_reconciliation (w_db w)))" unfolding Cons by simp
    then have "q \<in> set (match_reconciliation (w_db w)) \<and> recon_key q = (i, p)" by auto
    moreover from this have "list_ex (\<lambda>x. recon_key x = (i, p)) (match_reconciliation (w_db w))"
      by (auto simp: list_ex_iff)
    with n(1) have "t' = w_db w" by (auto simp: enqueue_recon_def split: if_splits)
    ultimately show ?thesis using Cons by simp
  qed
  then obtain q qs where q: "?f (match_reconciliation t') = q # qs" "recon_key q = (i, p)"
    "q \<in> set (match_reconciliation (w_db w)) \<or> rr_tries q = 0 \<and> rr_reconciled_at q = None" by blast
  then have "fst (FindByProviderMatchID e i p w') = Inr (Some (entry_of_row q))"
    using assms(2) n(2) by (simp add: FindByProviderMatchID_def wrap_err_def db_query_def)
  with q show ?thesis by (auto simp: recon_key_def entry_of_row_def)
qed

theorem queue_roundtrip_witness:
  "\<exists>en. fst (FindByProviderMatchID quiet_db ''7'' FootballOrg (snd (SaveToReconciliationQueue quiet_db ''7'' FootballOrg quiet_world))) =
     Inr (Some en) \<and> EntryProviderMatchID en = ''7'' \<and> EntryProvider en = FootballOrg \<and> Tries en = 0"
proof -
  have "fst (SaveToReconciliationQueue quiet_db ''7'' FootballOrg quiet_world) = Inr ()" by code_simp
  then obtain w' where w': "SaveToReconciliationQueue quiet_db ''7'' FootballOrg quiet_world = (Inr (), w')"
    by (metis prod.collapse)
  have "db_fault quiet_db (w_tick w') = Healthy" "match_reconciliation (w_db quiet_world) = []"
    by (simp_all add: quiet_db_def quiet_world_def empty_tables_def)
  with queue_roundtrip [OF w'] show ?thesis unfolding w' by auto
qed

end
