(* ===== verification/Saver.thy ===== *)
theory Saver
  imports Provider_Repos
begin

text \<open>
  Package \<open>save\<close> of the provider (\<open>src/provider/internal/save/save.go\<close>): saving the finished
  matches of a fetch, one after the other, with the reconciliation queue as the fallback.
\<close>

section \<open>The code\<close>

definition manual_intervention :: string where
  "manual_intervention =
     ''MANUAL INTERVENTION REQUIRED: Failed to insert match and failed to add to reconciliation queue''"

definition save_one :: "'z db_env_scheme \<Rightarrow> Provider \<Rightarrow> Match \<Rightarrow> world \<Rightarrow> world" where
  "save_one e provider m w =
     (if Status m \<noteq> Finished then w
      else (case Save e m w of
              (Inr _, w') \<Rightarrow> w'
            | (Inl err, w') \<Rightarrow>
                (case SaveToReconciliationQueue e (ProviderMatchID m) provider w' of
                   (Inl saveErr, w'') \<Rightarrow> log_event (SlogError manual_intervention (ProviderMatchID m)) w''
                 | (Inr _, w'') \<Rightarrow> w'')))"

fun SaveMatches :: "'z db_env_scheme \<Rightarrow> Match list \<Rightarrow> Provider \<Rightarrow> world \<Rightarrow> world" where
  "SaveMatches e [] provider w = w"
| "SaveMatches e (m # ms) provider w = SaveMatches e ms provider (save_one e provider m w)"

section \<open>What one save does\<close>

text \<open>The three ways a final result can be accounted for.\<close>

definition accounted :: "world \<Rightarrow> Provider \<Rightarrow> Match list \<Rightarrow> Match \<Rightarrow> bool" where
  "accounted w provider ms m \<longleftrightarrow>
     (\<exists>m' \<in> set ms. key_of m' = key_of m \<and> Status m' = Finished \<and> stored (w_db w) m') \<or>
     queued (w_db w) (ProviderMatchID m) provider \<or>
     SlogError manual_intervention (ProviderMatchID m) \<in> set (w_log w)"

lemma accounted_mono: "accounted w provider ms m \<Longrightarrow> set ms \<subseteq> set ms' \<Longrightarrow> accounted w provider ms' m"
  by (auto simp: accounted_def)

lemma save_one_cases:
  assumes "Status m = Finished"
  obtains (saved) "fst (Save e m w) = Inr ()" "save_one e provider m w = snd (Save e m w)"
  | (fallback) err w' w'' r where "Save e m w = (Inl err, w')"
      "SaveToReconciliationQueue e (ProviderMatchID m) provider w' = (r, w'')"
      "save_one e provider m w =
         (if is_ok r then w'' else log_event (SlogError manual_intervention (ProviderMatchID m)) w'')"
proof (cases "Save e m w")
  case (Pair r1 w')
  obtain r w'' where q: "SaveToReconciliationQueue e (ProviderMatchID m) provider w' = (r, w'')"
    by (cases "SaveToReconciliationQueue e (ProviderMatchID m) provider w'")
  show thesis
  proof (cases r1)
    case (Inr u)
    with Pair assms saved show ?thesis by (simp add: save_one_def)
  next
    case (Inl err)
    have "save_one e provider m w =
        (if is_ok r then w'' else log_event (SlogError manual_intervention (ProviderMatchID m)) w'')"
      using Pair Inl q assms by (cases r) (simp_all add: save_one_def)
    with Pair Inl q fallback show ?thesis by blast
  qed
qed

lemma save_one_accounts:
  assumes "Status m = Finished" and "m \<in> set ms"
  shows "accounted (save_one e provider m w) provider ms m"
  using assms(1)
proof (cases rule: save_one_cases [where e = e and w = w and provider = provider])
  case saved
  with assms show ?thesis by (auto simp: accounted_def Save_ok)
next
  case (fallback err w' w'' r)
  then show ?thesis
    using SaveToReconciliationQueue_ok [of e "ProviderMatchID m" provider w']
    by (auto simp: accounted_def is_ok_iff)
qed

lemma save_one_keeps:
  assumes "accounted w provider ms m'" and "m \<in> set ms"
  shows "accounted (save_one e provider m w) provider ms m'"
proof (cases "Status m = Finished")
  case False
  with assms show ?thesis by (simp add: save_one_def)
next
  case True
  have step: "accounted w2 provider ms m'"
    if "\<And>x. stored (w_db w) x \<Longrightarrow> stored (w_db w2) x \<or> key_of x = key_of m \<and> stored (w_db w2) m"
      "\<And>q. queued (w_db w) q provider \<Longrightarrow> queued (w_db w2) q provider" "set (w_log w) \<subseteq> set (w_log w2)" for w2
    using assms True that unfolding accounted_def by (metis subsetD)
  from True show ?thesis
  proof (cases rule: save_one_cases [where e = e and w = w and provider = provider])
    case saved
    show ?thesis
    proof (rule step)
      show "queued (w_db (save_one e provider m w)) q provider" if "queued (w_db w) q provider" for q
        using that saved by (simp add: queued_def frame_simps)
    qed (use saved Save_keeps [of w _ e m] in \<open>auto simp: frame_simps\<close>)
  next
    case (fallback err w' w'' r)
    have db: "w_db (save_one e provider m w) = w_db w''" using fallback(3) by simp
    have w': "w' = snd (Save e m w)"
      and w'': "w'' = snd (SaveToReconciliationQueue e (ProviderMatchID m) provider w')"
      using fallback by simp_all
    have same: "matches (w_db w'') = matches (w_db w')" by (simp add: w'' frame_simps)
    show ?thesis
    proof (rule step)
      show "stored (w_db (save_one e provider m w)) x \<or>
          key_of x = key_of m \<and> stored (w_db (save_one e provider m w)) m" if "stored (w_db w) x" for x
        using Save_keeps [OF that, of e m] same by (simp add: db w' stored_def)
      show "queued (w_db (save_one e provider m w)) q provider" if "queued (w_db w) q provider" for q
        unfolding db w'' by (rule SaveToReconciliationQueue_keeps) (use that in \<open>simp add: queued_def w' frame_simps\<close>)
      show "set (w_log w) \<subseteq> set (w_log (save_one e provider m w))"
        using fallback(3) by (auto simp: w'' w' frame_simps)
    qed
  qed
qed

lemma save_one_sync_state [frame_simps]:
  "sync_state (w_db (save_one e provider m w)) = sync_state (w_db w)"
  using Save_other(2) [of e m w]
    SaveToReconciliationQueue_other(2) [of e "ProviderMatchID m" provider "snd (Save e m w)"]
  by (auto simp: save_one_def split: prod.split sum.split)

lemma save_one_tick: "w_tick w \<le> w_tick (save_one e provider m w)"
  using Save_frame(1) [of e m w]
    SaveToReconciliationQueue_frame(1) [of e "ProviderMatchID m" provider "snd (Save e m w)"]
  by (auto simp: save_one_def split: prod.split sum.split)

text \<open>An invariant of the tables that the two repository calls keep is kept by the save of a match.\<close>

lemma save_one_invariant:
  assumes "I (w_db w)" and "Status m = Finished \<Longrightarrow> I (w_db (snd (Save e m w)))"
    and "\<And>pmid w. I (w_db w) \<Longrightarrow> I (w_db (snd (SaveToReconciliationQueue e pmid provider w)))"
  shows "I (w_db (save_one e provider m w))"
proof (cases "Status m = Finished")
  case True
  from True show ?thesis
  proof (cases rule: save_one_cases [where e = e and w = w and provider = provider])
    case saved
    with assms(2) True show ?thesis by simp
  next
    case (fallback err w' w'' r)
    then have "I (w_db w')" using assms(2) True by simp
    from assms(3) [OF this, of "ProviderMatchID m"] fallback(2,3) show ?thesis by simp
  qed
qed (simp add: save_one_def assms(1))

section \<open>What the loop does\<close>

lemma SaveMatches_invariant:
  assumes "I (w_db w)" and "\<And>m w. m \<in> set ms \<Longrightarrow> Status m = Finished \<Longrightarrow> I (w_db w) \<Longrightarrow> I (w_db (snd (Save e m w)))"
    and "\<And>pmid w. I (w_db w) \<Longrightarrow> I (w_db (snd (SaveToReconciliationQueue e pmid provider w)))"
  shows "I (w_db (SaveMatches e ms provider w))"
  using assms(1,2)
proof (induction ms arbitrary: w)
  case (Cons m ms)
  have "I (w_db (save_one e provider m w))"
    by (rule save_one_invariant [where I = I]) (use Cons.prems assms(3) in simp_all)
  with Cons show ?case by simp
qed simp

lemma SaveMatches_sync_state [frame_simps]:
  "sync_state (w_db (SaveMatches e ms provider w)) = sync_state (w_db w)"
  by (induction ms arbitrary: w) (simp_all add: frame_simps)

lemma SaveMatches_tick: "w_tick w \<le> w_tick (SaveMatches e ms provider w)"
proof (induction ms arbitrary: w)
  case (Cons m ms)
  from Cons.IH [of "save_one e provider m w"] save_one_tick [of w e provider m] show ?case by simp
qed simp

lemma SaveMatches_keeps_accounted:
  "accounted w provider all m \<Longrightarrow> set ms \<subseteq> set all \<Longrightarrow> accounted (SaveMatches e ms provider w) provider all m"
  by (induction ms arbitrary: w) (simp_all add: save_one_keeps)

lemma SaveMatches_accounts:
  "m \<in> set ms \<Longrightarrow> set ms \<subseteq> set all \<Longrightarrow> Status m = Finished \<Longrightarrow>
     accounted (SaveMatches e ms provider w) provider all m"
proof (induction ms arbitrary: w)
  case Nil
  then show ?case by simp
next
  case (Cons x xs)
  show ?case
  proof (cases "x = m")
    case True
    have "accounted (save_one e provider m w) provider all m"
      using Cons.prems by (intro save_one_accounts) auto
    then show ?thesis using True Cons.prems by (simp add: SaveMatches_keeps_accounted)
  next
    case False
    with Cons show ?thesis by simp
  qed
qed

text \<open>What comes before a match in the list cannot stand in for it.\<close>

lemma SaveMatches_append:
  "SaveMatches e (ms @ ms') provider w = SaveMatches e ms' provider (SaveMatches e ms provider w)"
  by (induction ms arbitrary: w) simp_all

lemma SaveMatches_accounts_split:
  assumes "Status m = Finished"
  shows "accounted (SaveMatches e (earlier @ m # later) provider w) provider (m # later) m"
  using SaveMatches_accounts [of m "m # later" "m # later" e provider "SaveMatches e earlier provider w"] assms
  by (simp add: SaveMatches_append)

text \<open>Only final results are written: dropping the others first changes nothing.\<close>

lemma SaveMatches_filter:
  "SaveMatches e ms provider w = SaveMatches e (filter (\<lambda>m. Status m = Finished) ms) provider w"
  by (induction ms arbitrary: w) (simp_all add: save_one_def)

text \<open>A row whose key belongs to none of the final results is not touched.\<close>

lemma upsert_match_row_frame:
  assumes "upsert_match now r t = Inr (n, t')" and "match_key r \<noteq> k"
  shows "filter (\<lambda>x. match_key x = k) (matches t') = filter (\<lambda>x. match_key x = k) (matches t)"
proof (cases "list_ex (\<lambda>x. match_key x = match_key r) (matches t)")
  case False
  with assms show ?thesis by (auto simp: upsert_match_def split: if_splits)
next
  case True
  with assms(1) have "matches t' = map (\<lambda>x. if match_key x = match_key r then overwrite_match now r x else x) (matches t)"
    by (auto simp: upsert_match_def split: if_splits)
  moreover have "filter (\<lambda>x. match_key x = k)
      (map (\<lambda>x. if match_key x = match_key r then overwrite_match now r x else x) xs) =
      filter (\<lambda>x. match_key x = k) xs" for xs
    using assms(2) by (induction xs) auto
  ultimately show ?thesis by simp
qed

lemma Save_row_frame:
  assumes "key_of m \<noteq> k"
  shows "filter (\<lambda>x. match_key x = k) (matches (w_db (snd (Save e m w)))) =
    filter (\<lambda>x. match_key x = k) (matches (w_db w))"
  using db_exec_db [of e "upsert_match (db_now e (w_tick w)) (match_to_row e m)" w] assms
  by (auto simp: Save_def run_statement_def split: sum.splits dest: upsert_match_row_frame [where k = k])

lemma save_one_row_frame:
  assumes "Status m = Finished \<longrightarrow> key_of m \<noteq> k"
  shows "filter (\<lambda>x. match_key x = k) (matches (w_db (save_one e provider m w))) =
    filter (\<lambda>x. match_key x = k) (matches (w_db w))"
proof (cases "Status m = Finished")
  case True
  with assms have k: "key_of m \<noteq> k" by simp
  from True show ?thesis
  proof (cases rule: save_one_cases [where e = e and w = w and provider = provider])
    case saved
    with Save_row_frame [OF k, of e w] show ?thesis by simp
  next
    case (fallback err w' w'' r)
    have "matches (w_db w'') = matches (w_db w')"
      using SaveToReconciliationQueue_other(1) [of e "ProviderMatchID m" provider w'] fallback(2) by simp
    with fallback(1,3) Save_row_frame [OF k, of e w] show ?thesis by simp
  qed
qed (simp add: save_one_def)

lemma SaveMatches_row_frame:
  "(\<And>m. m \<in> set ms \<Longrightarrow> Status m = Finished \<Longrightarrow> key_of m \<noteq> k) \<Longrightarrow>
   filter (\<lambda>x. match_key x = k) (matches (w_db (SaveMatches e ms provider w))) =
     filter (\<lambda>x. match_key x = k) (matches (w_db w))"
  by (induction ms arbitrary: w) (simp_all add: save_one_row_frame)

text \<open>What was queued or logged before stays so.\<close>

lemma save_one_queued: "queued (w_db w) q p' \<Longrightarrow> queued (w_db (save_one e provider m w)) q p'"
proof -
  have "queued (w_db (snd (Save e m w))) q p'" if "queued (w_db w) q p'"
    using that by (simp add: queued_def frame_simps)
  then show "queued (w_db w) q p' \<Longrightarrow> queued (w_db (save_one e provider m w)) q p'"
    using SaveToReconciliationQueue_keeps [of "snd (Save e m w)" q p' e "ProviderMatchID m" provider]
    by (auto simp: save_one_def split: prod.split sum.split)
qed

lemma save_one_log: "set (w_log w) \<subseteq> set (w_log (save_one e provider m w))"
  using Save_frame(2) [of e m w]
    SaveToReconciliationQueue_frame(2) [of e "ProviderMatchID m" provider "snd (Save e m w)"]
  by (auto simp: save_one_def split: prod.split sum.split)

lemma SaveMatches_queued: "queued (w_db w) q p' \<Longrightarrow> queued (w_db (SaveMatches e ms provider w)) q p'"
  by (induction ms arbitrary: w) (simp_all add: save_one_queued)

lemma SaveMatches_log: "set (w_log w) \<subseteq> set (w_log (SaveMatches e ms provider w))"
proof (induction ms arbitrary: w)
  case (Cons m ms)
  with save_one_log [of w e provider m] show ?case by force
qed simp

section \<open>Properties\<close>

text \<open>
  C21: No final result is lost silently. Whatever database calls fail, after \<open>SaveMatches\<close> every
  finished match of the list is stored (the row of its key has the final status and the scores of
  that match or of a finished match with the same key that stands later in the list), or is in the
  reconciliation queue, or an error asking for manual intervention names it.
\<close>

theorem SaveMatches_no_loss:
  assumes "Status m = Finished"
  shows "(\<exists>m' \<in> set (m # later). \<exists>r \<in> set (matches (w_db (SaveMatches e (earlier @ m # later) provider w))).
       key_of m' = key_of m \<and> Status m' = Finished \<and> match_key r = key_of m \<and> row_status r = Finished \<and>
       row_home_team_score r = uint (HomeTeamScore m') \<and> row_away_team_score r = uint (AwayTeamScore m')) \<or>
    (\<exists>q \<in> set (match_reconciliation (w_db (SaveMatches e (earlier @ m # later) provider w))).
       recon_key q = (ProviderMatchID m, provider)) \<or>
    SlogError manual_intervention (ProviderMatchID m) \<in> set (w_log (SaveMatches e (earlier @ m # later) provider w))"
  using SaveMatches_accounts_split [OF assms, of e earlier later provider w]
  unfolding accounted_def stored_def queued_def by metis

definition sample_match :: Match where
  "sample_match =
     \<lparr>ID = 5, CanonicalID = ''ab'', Start = epoch, End = time_add epoch (hours 2), Status = Finished,
      Provider = FootballOrg, ProviderMatchID = ''7'', CompetitionID = LaLiga, HomeTeamID = RealMadrid,
      AwayTeamID = Barcelona, HomeTeamScore = 2, AwayTeamScore = 1\<rparr>"

theorem SaveMatches_no_loss_witness:
  "\<not> queued (w_db (SaveMatches (quiet_env\<lparr>db_fault := (\<lambda>_. Lost)\<rparr>) [sample_match] FootballOrg (start_world empty_tables)))
       ''7'' FootballOrg \<and>
   SlogError manual_intervention ''7'' \<in>
     set (w_log (SaveMatches (quiet_env\<lparr>db_fault := (\<lambda>_. Lost)\<rparr>) [sample_match] FootballOrg (start_world empty_tables)))"
proof -
  let ?w = "SaveMatches (quiet_env\<lparr>db_fault := (\<lambda>_. Lost)\<rparr>) [sample_match] FootballOrg (start_world empty_tables)"
  have empty: "matches (w_db ?w) = []" "match_reconciliation (w_db ?w) = []" by code_simp+
  have m: "Status sample_match = Finished" "ProviderMatchID sample_match = ''7''" by (simp_all add: sample_match_def)
  show ?thesis
    using SaveMatches_no_loss [of sample_match "[]" "quiet_env\<lparr>db_fault := (\<lambda>_. Lost)\<rparr>" "[]" FootballOrg
      "start_world empty_tables"] empty m by (simp add: queued_def)
qed

text \<open>
  \<open>SaveMatches\<close> writes final results only, and only to the rows of their keys: unfinished
  matches make no difference, and the rows with any other key are the same rows afterwards.
\<close>

theorem SaveMatches_scope:
  assumes "\<And>m. m \<in> set ms \<Longrightarrow> Status m = Finished \<Longrightarrow> key_of m \<noteq> k"
  shows "SaveMatches e ms provider w = SaveMatches e (filter (\<lambda>m. Status m = Finished) ms) provider w \<and>
    filter (\<lambda>x. match_key x = k) (matches (w_db (SaveMatches e ms provider w))) =
      filter (\<lambda>x. match_key x = k) (matches (w_db w))"
  using SaveMatches_filter [of e ms provider w] SaveMatches_row_frame [OF assms, of ms e provider w] by simp

theorem SaveMatches_scope_witness:
  "filter (\<lambda>x. match_key x = (APIFootball, ''7''))
     (matches (w_db (SaveMatches quiet_env [sample_match] FootballOrg (start_world empty_tables)))) = []"
proof -
  have "key_of m \<noteq> (APIFootball, ''7'')" if "m \<in> set [sample_match]" for m
    using that by (simp add: key_of_def sample_match_def APIFootball_def FootballOrg_def)
  note scope = SaveMatches_scope [OF this, of "[sample_match]" quiet_env FootballOrg "start_world empty_tables"]
  have "matches (w_db (start_world empty_tables)) = []" by (simp add: start_world_def empty_tables_def)
  with conjunct2 [OF scope] show ?thesis by (simp only: filter.simps)
qed

text \<open>A save that succeeds on a stored key rewrites the row of that key in place.\<close>

lemma Save_rewrites:
  assumes "fst (Save e m w) = Inr ()" and "r \<in> set (matches (w_db w))" and "match_key r = key_of m"
  shows "overwrite_match (db_now e (w_tick w)) (match_to_row e m) r \<in> set (matches (w_db (snd (Save e m w))))"
proof -
  let ?now = "db_now e (w_tick w)"
  from assms(1) obtain n t' where u: "upsert_match ?now (match_to_row e m) (w_db w) = Inr (n, t')"
    and t': "w_db (snd (Save e m w)) = t'"
    by (auto simp: Save_def is_ok_iff dest: db_exec_ok)
  have "list_ex (\<lambda>x. match_key x = key_of m) (matches (w_db w))" using assms(2,3) by (auto simp: list_ex_iff)
  with u have "matches (w_db (snd (Save e m w))) =
      map (\<lambda>x. if match_key x = key_of m then overwrite_match ?now (match_to_row e m) x else x) (matches (w_db w))"
    by (auto simp: upsert_match_def t' split: if_splits)
  with assms(2,3) show ?thesis by auto
qed

text \<open>
  C30: Saving a match whose key is already stored keeps the row's id, canonical identifier and
  signature, and overwrites its status and scores, whatever the status was: a signed or broadcasted
  row is reset to the status of the match.
\<close>

theorem Save_existing_row:
  assumes "fst (Save e m w) = Inr ()" and "r \<in> set (matches (w_db w))" and "match_key r = key_of m"
  shows "\<exists>r' \<in> set (matches (w_db (snd (Save e m w)))).
    row_id r' = row_id r \<and> match_key r' = match_key r \<and> row_canonical_id r' = row_canonical_id r \<and>
    row_signature r' = row_signature r \<and> row_status r' = Status m \<and>
    row_home_team_score r' = uint (HomeTeamScore m) \<and> row_away_team_score r' = uint (AwayTeamScore m)"
  using Save_rewrites [OF assms] by (rule bexI [rotated]) simp

definition broadcasted_row :: match_row where
  "broadcasted_row =
     (match_to_row quiet_env sample_match)\<lparr>row_id := 77, row_status := 5, row_signature := Some ''00''\<rparr>"

theorem Save_existing_row_witness:
  "\<exists>r' \<in> set (matches (w_db (snd (Save quiet_env sample_match
       (start_world (empty_tables\<lparr>matches := [broadcasted_row]\<rparr>)))))).
     row_id r' = 77 \<and> row_signature r' = Some ''00'' \<and> row_status r' = Finished"
proof -
  let ?w = "start_world (empty_tables\<lparr>matches := [broadcasted_row]\<rparr>)"
  have "fst (Save quiet_env sample_match ?w) = Inr ()" by code_simp
  moreover have "broadcasted_row \<in> set (matches (w_db ?w))" by (simp add: start_world_def)
  moreover have "match_key broadcasted_row = key_of sample_match"
    by (simp add: broadcasted_row_def match_key_def key_of_def match_to_row_def)
  ultimately obtain r' where "r' \<in> set (matches (w_db (snd (Save quiet_env sample_match ?w))))"
    "row_id r' = row_id broadcasted_row" "row_signature r' = row_signature broadcasted_row"
    "row_status r' = Status sample_match"
    using Save_existing_row [of quiet_env sample_match ?w broadcasted_row] by blast
  moreover have "row_id broadcasted_row = 77" "row_signature broadcasted_row = Some ''00''"
    by (simp_all add: broadcasted_row_def)
  moreover have "Status sample_match = Finished" by (simp add: sample_match_def)
  ultimately show ?thesis by (intro bexI [of _ r']) simp_all
qed

end
