(* ===== verification/Provider_Api.thy ===== *)
theory Provider_Api
  imports Provider_Env
begin

text \<open>
  The interface between the sync and reconcile services and the two data sources: the Go interfaces
  \<open>SyncProvider\<close> and \<open>ReconcileProvider\<close> (\<open>src/provider/internal/service\<close>) as a record of methods,
  the errors the implementations return, and the contract both sides rely on as a locale.
\<close>

section \<open>Errors of the data sources\<close>

datatype convert_error =
    MissingIDs
  | UnmappedHomeTeam string
  | UnmappedAwayTeam string
  | BadStart
  | MissingScore
  | BadHomeScore string num_error
  | BadAwayScore string num_error
  | CreateMatchFailed match_error

datatype fetch_error =
    NotHandled Provider Competition
  | UnsupportedCompetition Competition
  | TransportError
  | StatusError nat
  | ReadBodyError
  | ApiError int string
  | DecodeError
  | ClientError string
  | FetchByIDFailed string fetch_error
  | NoEventFound string
  | UnknownLeague string string
  | UnknownCompetitionID go_uint string
  | ConvertFailed string convert_error

section \<open>The Go interfaces\<close>

text \<open>\<open>ReconcileProvider\<close> embeds \<open>SyncProvider\<close> and adds \<open>FetchMatchByID\<close>.\<close>

record SyncProvider =
  ValidateCompetition :: "Competition \<Rightarrow> (fetch_error, unit) result"
  FetchMatches :: "Competition \<Rightarrow> go_time \<Rightarrow> go_time \<Rightarrow> world \<Rightarrow> (fetch_error, Match list) result \<times> world"
  GetProviderEntity :: Provider

record ReconcileProvider = SyncProvider +
  FetchMatchByID :: "string \<Rightarrow> world \<Rightarrow> (fetch_error, Match) result \<times> world"

section \<open>The contract\<close>

text \<open>
  A match a data source may deliver: built by \<open>NewMatch\<close> for that source, in one of the three
  statuses the provider knows, between two of the teams the provider knows.
\<close>

definition known_team :: "Team \<Rightarrow> bool" where
  "known_team t \<longleftrightarrow> 0 < t \<and> t \<le> Wrexham"

lemma known_team_range: "known_team t \<longleftrightarrow> t \<in> {1..64}"
  by (auto simp: known_team_def Wrexham_def word_le_nat_alt word_less_nat_alt Suc_le_eq)

definition known_competition :: "Competition \<Rightarrow> bool" where
  "known_competition c \<longleftrightarrow> c \<in> {LaLiga, PremierLeague, Championship}"

definition delivered :: "(byte list \<Rightarrow> byte list) \<Rightarrow> Provider \<Rightarrow> Match \<Rightarrow> bool" where
  "delivered k p m \<longleftrightarrow> wf_match k m \<and> Provider m = p \<and> Status m \<in> {Pending, InProgress, Finished} \<and>
     known_team (HomeTeamID m) \<and> known_team (AwayTeamID m)"

locale data_source =
  fixes src :: "'s ReconcileProvider_scheme" and k :: "byte list \<Rightarrow> byte list"
  assumes fetch_delivered:
      "fst (FetchMatches src c from_t to_t w) = Inr ms \<Longrightarrow> m \<in> set ms \<Longrightarrow>
         delivered k (GetProviderEntity src) m \<and> CompetitionID m = c"
    and fetch_db: "w_db (snd (FetchMatches src c from_t to_t w)) = w_db w"
    and fetch_tick: "w_tick w < w_tick (snd (FetchMatches src c from_t to_t w))"
    and by_id_delivered:
      "fst (FetchMatchByID src pmid w) = Inr m \<Longrightarrow>
         delivered k (GetProviderEntity src) m \<and> known_competition (CompetitionID m)"
    and by_id_db: "w_db (snd (FetchMatchByID src pmid w)) = w_db w"
    and by_id_tick: "w_tick w < w_tick (snd (FetchMatchByID src pmid w))"
    and by_id_log: "\<exists>what. w_log (snd (FetchMatchByID src pmid w)) = w_log w @ [ApiRequest what]"
begin

lemma fetch_status_nonzero:
  "fst (FetchMatches src c from_t to_t w) = Inr ms \<Longrightarrow> m \<in> set ms \<Longrightarrow> Status m \<noteq> 0"
  using fetch_delivered [of c from_t to_t w ms m] by (simp add: delivered_def wf_match_def)

lemma fetch_end:
  "fst (FetchMatches src c from_t to_t w) = Inr ms \<Longrightarrow> m \<in> set ms \<Longrightarrow>
     End m = time_add (Start m) (hours 2)"
  using fetch_delivered [of c from_t to_t w ms m] by (simp add: delivered_def wf_match_def)

end

end
