(* ===== verification/Go_Json.thy ===== *)
theory Go_Json
  imports Go_Text
begin

text \<open>
  What the source uses of \<open>encoding/json\<close>: scanning a document, and the rules by which
  \<open>json.Unmarshal\<close> fills structs and slices (unknown keys ignored, \<open>null\<close> leaves a field alone, a
  value of the wrong kind is an error that does not stop the decoding).
\<close>

datatype json =
    JNull
  | JBool bool
  | JNumber string
  | JString string
  | JArray "json list"
  | JObject "(string \<times> json) list"

section \<open>Strings\<close>

definition byte_val :: "char \<Rightarrow> nat" where
  "byte_val c = of_char c"

definition cont_byte :: "nat \<Rightarrow> nat \<Rightarrow> char \<Rightarrow> bool" where
  "cont_byte lo hi c \<longleftrightarrow> lo \<le> byte_val c \<and> byte_val c \<le> hi"

text \<open>The length of the well-formed UTF-8 sequence at the head of the input, 0 when there is none.\<close>

fun utf8_len :: "string \<Rightarrow> nat" where
  "utf8_len (c # rest) =
     (let b = byte_val c in
      if b < 128 then 1
      else if 194 \<le> b \<and> b \<le> 223 then
        (case rest of c1 # _ \<Rightarrow> if cont_byte 128 191 c1 then 2 else 0 | _ \<Rightarrow> 0)
      else if 224 \<le> b \<and> b \<le> 239 then
        (case rest of c1 # c2 # _ \<Rightarrow>
           if cont_byte (if b = 224 then 160 else 128) (if b = 237 then 159 else 191) c1 \<and>
              cont_byte 128 191 c2 then 3 else 0 | _ \<Rightarrow> 0)
      else if 240 \<le> b \<and> b \<le> 244 then
        (case rest of c1 # c2 # c3 # _ \<Rightarrow>
           if cont_byte (if b = 240 then 144 else 128) (if b = 244 then 143 else 191) c1 \<and>
              cont_byte 128 191 c2 \<and> cont_byte 128 191 c3 then 4 else 0 | _ \<Rightarrow> 0)
      else 0)"
| "utf8_len [] = 0"

definition utf8_encode :: "nat \<Rightarrow> string" where
  "utf8_encode r =
     (if r < 128 then [char_of r]
      else if r < 2048 then [char_of (192 + r div 64), char_of (128 + r mod 64)]
      else if r < 65536 then
        [char_of (224 + r div 4096), char_of (128 + r div 64 mod 64), char_of (128 + r mod 64)]
      else [char_of (240 + r div 262144), char_of (128 + r div 4096 mod 64),
            char_of (128 + r div 64 mod 64), char_of (128 + r mod 64)])"

definition replacement_char :: nat where "replacement_char = 65533"

definition hex4 :: "string \<Rightarrow> (nat \<times> string) option" where
  "hex4 s =
     (case s of
        a # b # c # d # rest \<Rightarrow>
          (case (hex_val a, hex_val b, hex_val c, hex_val d) of
             (Some p, Some q, Some r, Some t) \<Rightarrow> Some (((p * 16 + q) * 16 + r) * 16 + t, rest)
           | _ \<Rightarrow> None)
      | _ \<Rightarrow> None)"

definition is_surrogate :: "nat \<Rightarrow> bool" where
  "is_surrogate r \<longleftrightarrow> 55296 \<le> r \<and> r < 57344"

text \<open>
  The low half of a surrogate pair right after a high half: the code point and the rest of the
  input. Anything else leaves the first half alone, which becomes the replacement character.
\<close>

definition surrogate_pair :: "nat \<Rightarrow> string \<Rightarrow> (nat \<times> string) option" where
  "surrogate_pair r1 s =
     (case s of
        b # u # rest \<Rightarrow>
          if b = CHR 0x5C \<and> u = CHR ''u'' \<and> 55296 \<le> r1 \<and> r1 < 56320 then
            (case hex4 rest of
               Some (r2, rest') \<Rightarrow>
                 if 56320 \<le> r2 \<and> r2 < 57344
                 then Some (65536 + (r1 - 55296) * 1024 + (r2 - 56320), rest') else None
             | None \<Rightarrow> None)
          else None
      | _ \<Rightarrow> None)"

definition simple_escape :: "char \<Rightarrow> char option" where
  "simple_escape c =
     (if c = CHR 0x22 \<or> c = CHR 0x5C \<or> c = CHR ''/'' then Some c
      else if c = CHR ''b'' then Some (CHR 0x08)
      else if c = CHR ''f'' then Some (CHR 0x0C)
      else if c = CHR ''n'' then Some (CHR 0x0A)
      else if c = CHR ''r'' then Some (CHR 0x0D)
      else if c = CHR ''t'' then Some (CHR 0x09)
      else None)"

text \<open>The body of a string after its opening quote: the decoded text and the rest of the input.\<close>

fun scan_string :: "nat \<Rightarrow> string \<Rightarrow> (string \<times> string) option" where
  "scan_string 0 s = None"
| "scan_string (Suc fuel) s =
     (case s of
        [] \<Rightarrow> None
      | c # rest \<Rightarrow>
          if c = CHR 0x22 then Some ([], rest)
          else if c = CHR 0x5C then
            (case rest of
               [] \<Rightarrow> None
             | x # rest' \<Rightarrow>
                 if x = CHR ''u'' then
                   (case hex4 rest' of
                      None \<Rightarrow> None
                    | Some (r, rest2) \<Rightarrow>
                        (let (cp, rest3) =
                           (if is_surrogate r
                            then (case surrogate_pair r rest2 of
                                    Some (cp, rest3) \<Rightarrow> (cp, rest3)
                                  | None \<Rightarrow> (replacement_char, rest2))
                            else (r, rest2))
                         in map_option (\<lambda>(t, u). (utf8_encode cp @ t, u)) (scan_string fuel rest3)))
                 else
                   (case simple_escape x of
                      None \<Rightarrow> None
                    | Some y \<Rightarrow> map_option (\<lambda>(t, u). (y # t, u)) (scan_string fuel rest')))
          else if byte_val c < 32 then None
          else (case utf8_len s of
                  0 \<Rightarrow> map_option (\<lambda>(t, u). (utf8_encode replacement_char @ t, u)) (scan_string fuel rest)
                | n \<Rightarrow> map_option (\<lambda>(t, u). (take n s @ t, u)) (scan_string fuel (drop n s))))"

section \<open>Numbers\<close>

definition json_digit :: "char \<Rightarrow> bool" where
  "json_digit c \<longleftrightarrow> digit_val c \<noteq> None"

definition scan_int_part :: "string \<Rightarrow> (string \<times> string) option" where
  "scan_int_part s =
     (case s of
        [] \<Rightarrow> None
      | c # rest \<Rightarrow>
          if c = CHR ''0'' then Some ([c], rest)
          else if json_digit c then Some (takeWhile json_digit s, dropWhile json_digit s)
          else None)"

definition scan_frac_part :: "string \<Rightarrow> (string \<times> string) option" where
  "scan_frac_part s =
     (case s of
        c # rest \<Rightarrow>
          if c = CHR ''.'' then
            (if takeWhile json_digit rest = [] then None
             else Some (c # takeWhile json_digit rest, dropWhile json_digit rest))
          else Some ([], s)
      | [] \<Rightarrow> Some ([], s))"

definition scan_exp_part :: "string \<Rightarrow> (string \<times> string) option" where
  "scan_exp_part s =
     (case s of
        c # rest \<Rightarrow>
          if c = CHR ''e'' \<or> c = CHR ''E'' then
            (let (sg, ds) = (case rest of
                 d # ds' \<Rightarrow> if d = CHR ''+'' \<or> d = CHR ''-'' then ([d], ds') else ([], rest)
               | [] \<Rightarrow> ([], rest))
             in if takeWhile json_digit ds = [] then None
                else Some (c # sg @ takeWhile json_digit ds, dropWhile json_digit ds))
          else Some ([], s)
      | [] \<Rightarrow> Some ([], s))"

definition scan_number :: "string \<Rightarrow> (string \<times> string) option" where
  "scan_number s =
     (let (sg, s1) = (case s of c # rest \<Rightarrow> if c = CHR ''-'' then ([c], rest) else ([], s) | [] \<Rightarrow> ([], s)) in
      (case scan_int_part s1 of
         None \<Rightarrow> None
       | Some (ip, s2) \<Rightarrow>
           (case scan_frac_part s2 of
              None \<Rightarrow> None
            | Some (fp, s3) \<Rightarrow>
                (case scan_exp_part s3 of
                   None \<Rightarrow> None
                 | Some (ep, s4) \<Rightarrow> Some (sg @ ip @ fp @ ep, s4)))))"

section \<open>Values\<close>

definition skip_ws :: "string \<Rightarrow> string" where
  "skip_ws s = dropWhile (\<lambda>c. c = CHR '' '' \<or> c = CHR 0x09 \<or> c = CHR 0x0A \<or> c = CHR 0x0D) s"

definition max_depth :: nat where "max_depth = 10000"

text \<open>
  The scanner, with fuel (every call consumes at least one character, so the length of the input
  is enough) and the nesting depth, which Go limits to 10000.
\<close>

fun scan_value :: "nat \<Rightarrow> nat \<Rightarrow> string \<Rightarrow> (json \<times> string) option"
  and scan_elements :: "nat \<Rightarrow> nat \<Rightarrow> string \<Rightarrow> (json list \<times> string) option"
  and scan_members :: "nat \<Rightarrow> nat \<Rightarrow> string \<Rightarrow> ((string \<times> json) list \<times> string) option" where
  "scan_value 0 depth s = None"
| "scan_value (Suc fuel) depth s =
     (case skip_ws s of
        [] \<Rightarrow> None
      | c # rest \<Rightarrow>
          if c = CHR 0x22 then map_option (\<lambda>(t, u). (JString t, u)) (scan_string (Suc (length rest)) rest)
          else if c = CHR ''['' then
            (if max_depth \<le> depth then None
             else (case skip_ws rest of
                     d # rest' \<Rightarrow>
                       if d = CHR '']'' then Some (JArray [], rest')
                       else map_option (\<lambda>(vs, u). (JArray vs, u)) (scan_elements fuel (Suc depth) rest)
                   | [] \<Rightarrow> None))
          else if c = CHR ''{'' then
            (if max_depth \<le> depth then None
             else (case skip_ws rest of
                     d # rest' \<Rightarrow>
                       if d = CHR ''}'' then Some (JObject [], rest')
                       else map_option (\<lambda>(ms, u). (JObject ms, u)) (scan_members fuel (Suc depth) rest)
                   | [] \<Rightarrow> None))
          else if take 4 (c # rest) = ''true'' then Some (JBool True, drop 3 rest)
          else if take 5 (c # rest) = ''false'' then Some (JBool False, drop 4 rest)
          else if take 4 (c # rest) = ''null'' then Some (JNull, drop 3 rest)
          else map_option (\<lambda>(t, u). (JNumber t, u)) (scan_number (c # rest)))"
| "scan_elements 0 depth s = None"
| "scan_elements (Suc fuel) depth s =
     (case scan_value fuel depth s of
        None \<Rightarrow> None
      | Some (v, s1) \<Rightarrow>
          (case skip_ws s1 of
             [] \<Rightarrow> None
           | c # rest \<Rightarrow>
               if c = CHR '']'' then Some ([v], rest)
               else if c = CHR '','' then
                 map_option (\<lambda>(vs, u). (v # vs, u)) (scan_elements fuel depth rest)
               else None))"
| "scan_members 0 depth s = None"
| "scan_members (Suc fuel) depth s =
     (case skip_ws s of
        [] \<Rightarrow> None
      | q # rest \<Rightarrow>
          if q \<noteq> CHR 0x22 then None
          else
            (case scan_string (Suc (length rest)) rest of
               None \<Rightarrow> None
             | Some (key, s1) \<Rightarrow>
                 (case skip_ws s1 of
                    [] \<Rightarrow> None
                  | col # s2 \<Rightarrow>
                      if col \<noteq> CHR '':'' then None
                      else
                        (case scan_value fuel depth s2 of
                           None \<Rightarrow> None
                         | Some (v, s3) \<Rightarrow>
                             (case skip_ws s3 of
                                [] \<Rightarrow> None
                              | c # s4 \<Rightarrow>
                                  if c = CHR ''}'' then Some ([(key, v)], s4)
                                  else if c = CHR '','' then
                                    map_option (\<lambda>(ms, u). ((key, v) # ms, u)) (scan_members fuel depth s4)
                                  else None)))))"

text \<open>A document is one value with nothing but white space after it.\<close>

definition json_parse :: "string \<Rightarrow> json option" where
  "json_parse s =
     (case scan_value (2 * length s + 2) 0 s of
        None \<Rightarrow> None
      | Some (v, rest) \<Rightarrow> if skip_ws rest = [] then Some v else None)"

section \<open>Filling structs\<close>

text \<open>
  Keys match field tags up to case. Go folds the Kelvin sign and the long s to \<open>K\<close> and \<open>S\<close>; other
  letters outside ASCII never fold into it.
\<close>

definition upper_char :: "char \<Rightarrow> char" where
  "upper_char c = (let n = byte_val c in if 97 \<le> n \<and> n \<le> 122 then char_of (n - 32) else c)"

fun fold_name :: "string \<Rightarrow> string" where
  "fold_name [] = []"
| "fold_name (c # cs) =
     (if take 2 (c # cs) = [CHR 0xC5, CHR 0xBF] then CHR ''S'' # fold_name (drop 1 cs)
      else if take 3 (c # cs) = [CHR 0xE2, CHR 0x84, CHR 0xAA] then CHR ''K'' # fold_name (drop 2 cs)
      else upper_char c # fold_name cs)"

text \<open>
  Members are taken in order; \<open>set_field\<close> yields \<open>None\<close> for a key that is no field and
  \<open>Some None\<close> for a value of the wrong kind. The result keeps what was filled and says whether an
  error was saved.
\<close>

fun fill_struct :: "(string \<Rightarrow> json \<Rightarrow> 's \<Rightarrow> 's option option) \<Rightarrow> (string \<times> json) list \<Rightarrow> 's \<times> bool \<Rightarrow> 's \<times> bool" where
  "fill_struct set_field [] sb = sb"
| "fill_struct set_field ((k, v) # ms) (s, bad) =
     (case set_field (fold_name k) v s of
        None \<Rightarrow> fill_struct set_field ms (s, bad)
      | Some None \<Rightarrow> fill_struct set_field ms (s, True)
      | Some (Some s') \<Rightarrow> fill_struct set_field ms (s', bad))"

text \<open>A string field and an \<open>int\<close> field.\<close>

definition set_string :: "json \<Rightarrow> (string \<Rightarrow> 's \<Rightarrow> 's) \<Rightarrow> 's \<Rightarrow> 's option" where
  "set_string v upd s = (case v of JString t \<Rightarrow> Some (upd t s) | JNull \<Rightarrow> Some s | _ \<Rightarrow> None)"

definition set_int :: "json \<Rightarrow> (int \<Rightarrow> 's \<Rightarrow> 's) \<Rightarrow> 's \<Rightarrow> 's option" where
  "set_int v upd s =
     (case v of
        JNumber t \<Rightarrow> (case parse_int 64 t of Inr i \<Rightarrow> Some (upd i s) | Inl _ \<Rightarrow> None)
      | JNull \<Rightarrow> Some s
      | _ \<Rightarrow> None)"

definition decode_struct :: "(string \<Rightarrow> json \<Rightarrow> 's \<Rightarrow> 's option option) \<Rightarrow> 's \<Rightarrow> json \<Rightarrow> 's option" where
  "decode_struct set_field zero v =
     (case v of
        JObject ms \<Rightarrow> (let (s, bad) = fill_struct set_field ms (zero, False) in if bad then None else Some s)
      | JNull \<Rightarrow> Some zero
      | _ \<Rightarrow> None)"

text \<open>A slice of structs; \<open>null\<close> leaves it nil.\<close>

definition decode_slice :: "(string \<Rightarrow> json \<Rightarrow> 's \<Rightarrow> 's option option) \<Rightarrow> 's \<Rightarrow> json \<Rightarrow> 's list option" where
  "decode_slice set_field zero v =
     (case v of
        JArray vs \<Rightarrow>
          (let ds = map (decode_struct set_field zero) vs
           in if list_all (\<lambda>d. d \<noteq> None) ds then Some (map the ds) else None)
      | JNull \<Rightarrow> Some []
      | _ \<Rightarrow> None)"

end
