(* ===== verification/Apifootball.thy ===== *)
theory Apifootball
  imports Provider_Api Go_Json
begin

text \<open>
  Package \<open>apifootball\<close> (\<open>src/provider/internal/apifootball\<close>): the HTTP call, the decoding of its
  body, the conversion of an event into a match, the mapping tables and the provider methods.
\<close>

section \<open>Mappings\<close>

definition LeagueIDChampionship :: string where "LeagueIDChampionship = ''153''"

definition CompetitionToAPIFootballID :: "Competition \<Rightarrow> string option" where
  "CompetitionToAPIFootballID = map_of [(Championship, LeagueIDChampionship)]"

definition APIFootballIDToCompetition :: "string \<Rightarrow> Competition option" where
  "APIFootballIDToCompetition = map_of [(LeagueIDChampionship, Championship)]"

definition api_team_table :: "(string \<times> Team) list" where
  "api_team_table =
     [(''3432'', Birmingham), (''3096'', Blackburn), (''3084'', BristolCity), (''3117'', Charlton),
      (''3094'', Coventry), (''3426'', Derby), (''3119'', Hull), (''3121'', Ipswich),
      (''155'', Leicester), (''3425'', Middlesbrough), (''3083'', Millwall), (''3093'', Norwich),
      (''3113'', OxfordUtd), (''3105'', Portsmouth), (''3424'', Preston), (''3098'', QPR),
      (''3074'', SheffieldUtd), (''3099'', SheffieldWed), (''3072'', Southampton), (''3097'', Stoke),
      (''3076'', Swansea), (''3427'', Watford), (''3423'', WestBrom), (''2954'', Wrexham)]"

definition APIFootballTeamMapping :: "string \<Rightarrow> Team option" where
  "APIFootballTeamMapping = map_of api_team_table"

section \<open>The provider\<close>

record APIFootballProvider =
  baseURL :: string
  apiKey :: string

definition defaultBaseURL :: string where
  "defaultBaseURL = ''https://apiv3.apifootball.com/''"

definition api_NewProvider :: "'z provider_env_scheme \<Rightarrow> APIFootballProvider" where
  "api_NewProvider e =
     (let u = getenv e ''APIFOOTBALL_API_ENDPOINT''
      in \<lparr>baseURL = (if u = [] then defaultBaseURL else u), apiKey = getenv e ''APIFOOTBALL_API_KEY''\<rparr>)"

definition api_ValidateCompetition :: "Competition \<Rightarrow> (fetch_error, unit) result" where
  "api_ValidateCompetition c =
     (case CompetitionToAPIFootballID c of
        None \<Rightarrow> Inl (NotHandled APIFootball c)
      | Some _ \<Rightarrow> Inr ())"

definition api_GetProviderEntity :: Provider where
  "api_GetProviderEntity = APIFootball"

section \<open>Wire format\<close>

record apifootballEvent =
  MatchID :: string
  LeagueID :: string
  MatchDate :: string
  MatchTime :: string
  MatchStatus :: string
  MatchHometeamID :: string
  MatchAwayteamID :: string
  MatchHometeamScore :: string
  MatchAwayteamScore :: string

record apifootballError =
  Error :: int
  Message :: string

definition zero_event :: apifootballEvent where
  "zero_event =
     \<lparr>MatchID = [], LeagueID = [], MatchDate = [], MatchTime = [], MatchStatus = [],
      MatchHometeamID = [], MatchAwayteamID = [], MatchHometeamScore = [], MatchAwayteamScore = []\<rparr>"

text \<open>The struct tags, in their folded form, with the field each one sets.\<close>

definition event_fields :: "(string \<times> (string \<Rightarrow> apifootballEvent \<Rightarrow> apifootballEvent)) list" where
  "event_fields =
     [(''MATCH_ID'', \<lambda>s r. r\<lparr>MatchID := s\<rparr>),
      (''LEAGUE_ID'', \<lambda>s r. r\<lparr>LeagueID := s\<rparr>),
      (''MATCH_DATE'', \<lambda>s r. r\<lparr>MatchDate := s\<rparr>),
      (''MATCH_TIME'', \<lambda>s r. r\<lparr>MatchTime := s\<rparr>),
      (''MATCH_STATUS'', \<lambda>s r. r\<lparr>MatchStatus := s\<rparr>),
      (''MATCH_HOMETEAM_ID'', \<lambda>s r. r\<lparr>MatchHometeamID := s\<rparr>),
      (''MATCH_AWAYTEAM_ID'', \<lambda>s r. r\<lparr>MatchAwayteamID := s\<rparr>),
      (''MATCH_HOMETEAM_SCORE'', \<lambda>s r. r\<lparr>MatchHometeamScore := s\<rparr>),
      (''MATCH_AWAYTEAM_SCORE'', \<lambda>s r. r\<lparr>MatchAwayteamScore := s\<rparr>)]"

definition set_event_field :: "string \<Rightarrow> json \<Rightarrow> apifootballEvent \<Rightarrow> apifootballEvent option option" where
  "set_event_field key v r =
     (case map_of event_fields key of None \<Rightarrow> None | Some upd \<Rightarrow> Some (set_string v upd r))"

definition set_error_field :: "string \<Rightarrow> json \<Rightarrow> apifootballError \<Rightarrow> apifootballError option option" where
  "set_error_field key v r =
     (if key = ''ERROR'' then Some (set_int v (\<lambda>i r. r\<lparr>Error := i\<rparr>) r)
      else if key = ''MESSAGE'' then Some (set_string v (\<lambda>s r. r\<lparr>Message := s\<rparr>) r)
      else None)"

text \<open>
  The part of \<open>get\<close> after the body is read: an error object with a non-zero code is an error, except
  404, which means there are no events; otherwise the body must be an event list.
\<close>

definition decode_events :: "string \<Rightarrow> (fetch_error, apifootballEvent list) result" where
  "decode_events body =
     (let doc = json_parse body;
          apiErr = (case doc of None \<Rightarrow> None
                    | Some v \<Rightarrow> decode_struct set_error_field \<lparr>Error = 0, Message = []\<rparr> v);
          events = (case doc of None \<Rightarrow> None | Some v \<Rightarrow> decode_slice set_event_field zero_event v)
      in (case apiErr of
            Some er \<Rightarrow>
              if Error er \<noteq> 0 then
                (if Error er = 404 then Inr []
                 else if Message er \<noteq> [] then Inl (ApiError (Error er) (Message er))
                 else Inl (ApiError (Error er) []))
              else (case events of None \<Rightarrow> Inl DecodeError | Some evs \<Rightarrow> Inr evs)
          | None \<Rightarrow> (case events of None \<Rightarrow> Inl DecodeError | Some evs \<Rightarrow> Inr evs)))"

section \<open>The HTTP call\<close>

definition set_param :: "string \<Rightarrow> string \<Rightarrow> (string \<times> string) list \<Rightarrow> (string \<times> string) list" where
  "set_param k v ps = filter (\<lambda>p. fst p \<noteq> k) ps @ [(k, v)]"

definition request_url :: "APIFootballProvider \<Rightarrow> (string \<times> string) list \<Rightarrow> string" where
  "request_url p params =
     (let base = [(''action'', ''get_events''), (''APIkey'', apiKey p), (''timezone'', ''utc'')];
          queryParams = foldl (\<lambda>ps (k, v). set_param k v ps) base params
      in baseURL p @ ''?'' @ encode_values queryParams)"

definition api_get ::
  "'z provider_env_scheme \<Rightarrow> APIFootballProvider \<Rightarrow> (string \<times> string) list \<Rightarrow> world \<Rightarrow>
   (fetch_error, apifootballEvent list) result \<times> world" where
  "api_get e p params w =
     (let url = request_url p params;
          w' = api_request url w
      in (case http_get e (w_tick w) url of
            HttpFailed \<Rightarrow> (Inl TransportError, w')
          | HttpResponse status body \<Rightarrow>
              if status \<noteq> 200 then (Inl (StatusError status), w')
              else (case body of None \<Rightarrow> (Inl ReadBodyError, w') | Some b \<Rightarrow> (decode_events b, w'))))"

section \<open>From an event to a match\<close>

definition mapMatchStatus :: "string \<Rightarrow> MatchStatus" where
  "mapMatchStatus s =
     (if s = ''Finished'' \<or> s = ''Awarded'' \<or> s = ''After ET'' \<or> s = ''After Pen.'' then Finished
      else if s = ''Postponed'' \<or> s = ''Cancelled'' \<or> s = '''' then Pending
      else InProgress)"

definition parseScore :: "string \<Rightarrow> (num_error, go_uint) result" where
  "parseScore s =
     (if s = '''' then Inr 0
      else (case parse_uint 32 s of Inl er \<Rightarrow> Inl er | Inr n \<Rightarrow> Inr (word_of_nat n)))"

definition parseMatchStartUTC :: "string \<Rightarrow> string \<Rightarrow> go_time option" where
  "parseMatchStartUTC matchDate matchTime =
     (if matchDate = '''' \<or> matchTime = '''' then None
      else parse_date_time (matchDate @ '' '' @ (matchTime @ '':00'')))"

definition eventToEntityMatch ::
  "(byte list \<Rightarrow> byte list) \<Rightarrow> uuid \<Rightarrow> apifootballEvent \<Rightarrow> Competition \<Rightarrow> (convert_error, Match) result" where
  "eventToEntityMatch k newID ev competition =
     (if MatchHometeamID ev = '''' \<or> MatchAwayteamID ev = '''' \<or> MatchID ev = '''' then Inl MissingIDs
      else (case APIFootballTeamMapping (MatchHometeamID ev) of
        None \<Rightarrow> Inl (UnmappedHomeTeam (MatchHometeamID ev))
      | Some homeTeam \<Rightarrow> (case APIFootballTeamMapping (MatchAwayteamID ev) of
        None \<Rightarrow> Inl (UnmappedAwayTeam (MatchAwayteamID ev))
      | Some awayTeam \<Rightarrow> (case parseMatchStartUTC (MatchDate ev) (MatchTime ev) of
        None \<Rightarrow> Inl BadStart
      | Some start \<Rightarrow>
          (let status = mapMatchStatus (MatchStatus ev) in
           if status = Finished \<and> (MatchHometeamScore ev = '''' \<or> MatchAwayteamScore ev = '''')
           then Inl MissingScore
           else (case parseScore (MatchHometeamScore ev) of
             Inl er \<Rightarrow> Inl (BadHomeScore (MatchHometeamScore ev) er)
           | Inr homeScore \<Rightarrow> (case parseScore (MatchAwayteamScore ev) of
             Inl er \<Rightarrow> Inl (BadAwayScore (MatchAwayteamScore ev) er)
           | Inr awayScore \<Rightarrow>
               (case NewMatch k newID start APIFootball (MatchID ev) homeTeam awayTeam
                       homeScore awayScore competition status of
                  Inl er \<Rightarrow> Inl (CreateMatchFailed er)
                | Inr m \<Rightarrow> Inr m))))))))"

text \<open>The loop of \<open>FetchMatches\<close>: an event that does not convert is logged and skipped.\<close>

fun convert_events ::
  "'z provider_env_scheme \<Rightarrow> Competition \<Rightarrow> apifootballEvent list \<Rightarrow> world \<Rightarrow> Match list \<times> world" where
  "convert_events e competition [] w = ([], w)"
| "convert_events e competition (ev # evs) w =
     (case eventToEntityMatch (keccak e) (uuid_new e (w_tick w)) ev competition of
        Inl _ \<Rightarrow> convert_events e competition evs w
      | Inr m \<Rightarrow> (case convert_events e competition evs (tick w) of (ms, w') \<Rightarrow> (m # ms, w')))"

definition api_FetchMatches ::
  "'z provider_env_scheme \<Rightarrow> APIFootballProvider \<Rightarrow> Competition \<Rightarrow> go_time \<Rightarrow> go_time \<Rightarrow> world \<Rightarrow>
   (fetch_error, Match list) result \<times> world" where
  "api_FetchMatches e p competition from_t to_t w =
     (case CompetitionToAPIFootballID competition of
        None \<Rightarrow> (Inl (UnsupportedCompetition competition), tick w)
      | Some leagueID \<Rightarrow>
          (case api_get e p [(''from'', format_date_only from_t), (''to'', format_date_only to_t),
                             (''league_id'', leagueID)] w of
             (Inl er, w') \<Rightarrow> (Inl er, w')
           | (Inr events, w') \<Rightarrow>
               (case convert_events e competition events w' of (ms, w'') \<Rightarrow> (Inr ms, w''))))"

definition api_FetchMatchByID ::
  "'z provider_env_scheme \<Rightarrow> APIFootballProvider \<Rightarrow> string \<Rightarrow> world \<Rightarrow> (fetch_error, Match) result \<times> world" where
  "api_FetchMatchByID e p providerMatchID w =
     (case api_get e p [(''match_id'', providerMatchID)] w of
        (Inl er, w') \<Rightarrow> (Inl (FetchByIDFailed providerMatchID er), w')
      | (Inr events, w') \<Rightarrow>
          (case events of
             [] \<Rightarrow> (Inl (NoEventFound providerMatchID), w')
           | ev # _ \<Rightarrow>
               (case APIFootballIDToCompetition (LeagueID ev) of
                  None \<Rightarrow> (Inl (UnknownLeague (LeagueID ev) providerMatchID), w')
                | Some competition \<Rightarrow>
                    (case eventToEntityMatch (keccak e) (uuid_new e (w_tick w')) ev competition of
                       Inl er \<Rightarrow> (Inl (ConvertFailed providerMatchID er), tick w')
                     | Inr m \<Rightarrow> (Inr m, tick w')))))"

text \<open>The provider as a value of the interfaces.\<close>

definition apifootball :: "'z provider_env_scheme \<Rightarrow> ReconcileProvider" where
  "apifootball e =
     (let p = api_NewProvider e
      in \<lparr>ValidateCompetition = api_ValidateCompetition, FetchMatches = api_FetchMatches e p,
          GetProviderEntity = api_GetProviderEntity, FetchMatchByID = api_FetchMatchByID e p\<rparr>)"

section \<open>What the package promises\<close>

lemma mapMatchStatus_range: "mapMatchStatus s \<in> {Pending, InProgress, Finished}"
  by (simp add: mapMatchStatus_def)

text \<open>Everything a converted event says about the match, and everything it has passed.\<close>

lemma eventToEntityMatch_ok:
  assumes "eventToEntityMatch k u ev c = Inr m"
  obtains home away start hs as where
    "APIFootballTeamMapping (MatchHometeamID ev) = Some home"
    "APIFootballTeamMapping (MatchAwayteamID ev) = Some away"
    "parseMatchStartUTC (MatchDate ev) (MatchTime ev) = Some start"
    "mapMatchStatus (MatchStatus ev) = Finished \<Longrightarrow> MatchHometeamScore ev \<noteq> [] \<and> MatchAwayteamScore ev \<noteq> []"
    "parseScore (MatchHometeamScore ev) = Inr hs" "parseScore (MatchAwayteamScore ev) = Inr as"
    "MatchID ev \<noteq> []"
    "NewMatch k u start APIFootball (MatchID ev) home away hs as c (mapMatchStatus (MatchStatus ev)) = Inr m"
  using assms by (auto simp: eventToEntityMatch_def Let_def split: if_splits option.splits sum.splits)

lemma APIFootballTeamMapping_known: "APIFootballTeamMapping i = Some t \<Longrightarrow> known_team t"
proof -
  have "list_all (known_team \<circ> snd) api_team_table" by code_simp
  then show "APIFootballTeamMapping i = Some t \<Longrightarrow> known_team t"
    unfolding APIFootballTeamMapping_def by (rule map_of_all)
qed

lemma APIFootballIDToCompetition_known: "APIFootballIDToCompetition i = Some c \<Longrightarrow> known_competition c"
  by (auto simp: APIFootballIDToCompetition_def known_competition_def split: if_splits)

lemma eventToEntityMatch_delivered:
  assumes "eventToEntityMatch k u ev c = Inr m"
  shows "delivered k APIFootball m \<and> CompetitionID m = c"
proof -
  from assms obtain home away start hs as where
    maps: "APIFootballTeamMapping (MatchHometeamID ev) = Some home" "APIFootballTeamMapping (MatchAwayteamID ev) = Some away"
    and new: "NewMatch k u start APIFootball (MatchID ev) home away hs as c (mapMatchStatus (MatchStatus ev)) = Inr m"
    by (rule eventToEntityMatch_ok)
  show ?thesis
    using NewMatch_wf [OF new] NewMatch_fields [OF new] mapMatchStatus_range [of "MatchStatus ev"]
      maps [THEN APIFootballTeamMapping_known]
    by (auto simp: delivered_def)
qed

lemma api_get_frame [frame_simps]:
  "w_db (snd (api_get e p params w)) = w_db w" "w_tick (snd (api_get e p params w)) = Suc (w_tick w)"
  by (simp_all add: api_get_def Let_def split: http_result.split option.split)

lemma api_get_log: "w_log (snd (api_get e p params w)) = w_log w @ [ApiRequest (request_url p params)]"
  by (simp add: api_get_def Let_def split: http_result.split option.split)

lemma convert_events_frame:
  "w_db (snd (convert_events e c evs w)) = w_db w \<and> w_tick w \<le> w_tick (snd (convert_events e c evs w))"
proof (induction evs arbitrary: w)
  case Nil
  then show ?case by simp
next
  case (Cons ev evs)
  show ?case
    using Cons.IH [of w] Cons.IH [of "tick w"] by (simp add: case_prod_beta split: sum.split)
qed

lemma convert_events_delivered:
  "m \<in> set (fst (convert_events e c evs w)) \<Longrightarrow> delivered (keccak e) APIFootball m \<and> CompetitionID m = c"
proof (induction evs arbitrary: w)
  case Nil
  then show ?case by simp
next
  case (Cons ev evs)
  then show ?case
    by (auto simp: case_prod_beta split: sum.splits dest: eventToEntityMatch_delivered)
qed

lemma api_FetchMatches_frame:
  "w_db (snd (api_FetchMatches e p c from_t to_t w)) = w_db w \<and>
   w_tick w < w_tick (snd (api_FetchMatches e p c from_t to_t w))"
proof (cases "CompetitionToAPIFootballID c")
  case None
  then show ?thesis by (simp add: api_FetchMatches_def)
next
  case (Some l)
  define ps where "ps = [(''from'', format_date_only from_t), (''to'', format_date_only to_t), (''league_id'', l)]"
  obtain r w' where g: "api_get e p ps w = (r, w')" by (cases "api_get e p ps w")
  have "w_db w' = w_db w" "w_tick w' = Suc (w_tick w)"
    using api_get_frame [of e p ps w] g by simp_all
  then show ?thesis
    using Some g convert_events_frame [of e c _ w']
    by (auto simp: api_FetchMatches_def ps_def split: sum.split prod.split) (metis Suc_le_eq snd_conv)+
qed

lemma api_FetchMatches_delivered:
  assumes "fst (api_FetchMatches e p c from_t to_t w) = Inr ms" and "m \<in> set ms"
  shows "delivered (keccak e) APIFootball m \<and> CompetitionID m = c"
  using assms
  by (auto simp: api_FetchMatches_def split: option.splits sum.splits prod.splits)
    (metis convert_events_delivered fst_conv)+

lemma api_FetchMatchByID_frame:
  "w_db (snd (api_FetchMatchByID e p pmid w)) = w_db w \<and> w_tick w < w_tick (snd (api_FetchMatchByID e p pmid w))"
  using api_get_frame [of e p "[(''match_id'', pmid)]" w]
  by (auto simp: api_FetchMatchByID_def split: sum.split prod.split list.split option.split)

lemma api_FetchMatchByID_log:
  "w_log (snd (api_FetchMatchByID e p pmid w)) = w_log w @ [ApiRequest (request_url p [(''match_id'', pmid)])]"
  using api_get_log [of e p "[(''match_id'', pmid)]" w]
  by (auto simp: api_FetchMatchByID_def split: sum.split prod.split list.split option.split)

lemma api_FetchMatchByID_delivered:
  "fst (api_FetchMatchByID e p pmid w) = Inr m \<Longrightarrow>
   delivered (keccak e) APIFootball m \<and> known_competition (CompetitionID m)"
  by (auto simp: api_FetchMatchByID_def split: sum.splits prod.splits list.splits option.splits
      dest: eventToEntityMatch_delivered APIFootballIDToCompetition_known)

lemma apifootball_simps [simp]:
  "ValidateCompetition (apifootball e) = api_ValidateCompetition"
  "FetchMatches (apifootball e) = api_FetchMatches e (api_NewProvider e)"
  "GetProviderEntity (apifootball e) = APIFootball"
  "FetchMatchByID (apifootball e) = api_FetchMatchByID e (api_NewProvider e)"
  by (simp_all add: apifootball_def api_GetProviderEntity_def Let_def)

interpretation apifootball: data_source "apifootball e" "keccak e" for e
proof unfold_locales
  show "w_db (snd (FetchMatches (apifootball e) c from_t to_t w)) = w_db w" for c from_t to_t w
    by (simp add: api_FetchMatches_frame)
  show "w_tick w < w_tick (snd (FetchMatches (apifootball e) c from_t to_t w))" for c from_t to_t w
    by (simp add: api_FetchMatches_frame)
  show "w_db (snd (FetchMatchByID (apifootball e) pmid w)) = w_db w" for pmid w
    by (simp add: api_FetchMatchByID_frame)
  show "w_tick w < w_tick (snd (FetchMatchByID (apifootball e) pmid w))" for pmid w
    by (simp add: api_FetchMatchByID_frame)
  show "\<exists>what. w_log (snd (FetchMatchByID (apifootball e) pmid w)) = w_log w @ [ApiRequest what]" for pmid w
    by (simp add: api_FetchMatchByID_log)
qed (auto dest: api_FetchMatches_delivered api_FetchMatchByID_delivered)

section \<open>Properties\<close>

lemma parseScore_ok:
  assumes "parseScore s = Inr n" and "s \<noteq> []"
  shows "digits_val 0 s = Some (unat n) \<and> unat n < 2 ^ 32"
proof -
  obtain v where v: "parse_uint 32 s = Inr v" "n = word_of_nat v"
    using assms by (auto simp: parseScore_def split: sum.splits)
  then have d: "digits_val 0 s = Some v" "v < 2 ^ 32" by (simp_all add: parse_uint_ok)
  then have "unat (word_of_nat v :: go_uint) = v" by (simp add: unat_of_nat)
  with d v show ?thesis by simp
qed

text \<open>
  A finished match of apifootball has the scores its event spells out: both score strings are
  decimal numbers below 2^32 and denote the stored scores; an event without them is not converted.
\<close>

theorem finished_event_scores:
  assumes "eventToEntityMatch k u ev c = Inr m" and "Status m = Finished"
  shows "digits_val 0 (MatchHometeamScore ev) = Some (unat (HomeTeamScore m)) \<and> unat (HomeTeamScore m) < 2 ^ 32 \<and>
    digits_val 0 (MatchAwayteamScore ev) = Some (unat (AwayTeamScore m)) \<and> unat (AwayTeamScore m) < 2 ^ 32"
  using assms(1)
proof (rule eventToEntityMatch_ok)
  fix home away start hs as
  assume fin: "mapMatchStatus (MatchStatus ev) = Finished \<Longrightarrow> MatchHometeamScore ev \<noteq> [] \<and> MatchAwayteamScore ev \<noteq> []"
    and sc: "parseScore (MatchHometeamScore ev) = Inr hs" "parseScore (MatchAwayteamScore ev) = Inr as"
    and new: "NewMatch k u start APIFootball (MatchID ev) home away hs as c (mapMatchStatus (MatchStatus ev)) = Inr m"
  from NewMatch_fields [OF new] assms(2) have "HomeTeamScore m = hs" "AwayTeamScore m = as"
    "mapMatchStatus (MatchStatus ev) = Finished"
    using mapMatchStatus_range [of "MatchStatus ev"] by (auto simp: go_const split: if_splits)
  with fin sc show ?thesis using parseScore_ok by blast
qed

definition sample_event :: apifootballEvent where
  "sample_event =
     \<lparr>MatchID = ''9'', LeagueID = ''153'', MatchDate = ''2025-12-03'', MatchTime = ''20:00'',
      MatchStatus = ''Finished'', MatchHometeamID = ''3432'', MatchAwayteamID = ''3096'', MatchHometeamScore = ''2'',
      MatchAwayteamScore = ''10''\<rparr>"

theorem finished_event_scores_witness:
  "\<exists>m. eventToEntityMatch (keccak quiet_env) 0 sample_event Championship = Inr m \<and>
     HomeTeamScore m = 2 \<and> AwayTeamScore m = 10"
proof -
  have "is_ok (eventToEntityMatch (keccak quiet_env) 0 sample_event Championship) \<and>
    Status (projr (eventToEntityMatch (keccak quiet_env) 0 sample_event Championship)) = Finished" by code_simp
  then obtain m where m: "eventToEntityMatch (keccak quiet_env) 0 sample_event Championship = Inr m" "Status m = Finished"
    by (auto simp: is_ok_iff)
  have "digits_val 0 (MatchHometeamScore sample_event) = Some 2" "digits_val 0 (MatchAwayteamScore sample_event) = Some 10"
    by code_simp+
  with finished_event_scores [OF m] m(1) show ?thesis by (auto simp: word_unat_eq_iff)
qed

text \<open>
  The error object with code 404 is no error: the request yields the empty list of events.
\<close>

theorem not_found_is_empty:
  assumes "http_get e (w_tick w) (request_url p params) = HttpResponse 200 (Some ''{\"error\":404,\"message\":\"No event found\"}'')"
  shows "fst (api_get e p params w) = Inr []"
proof -
  have "decode_events ''{\"error\":404,\"message\":\"No event found\"}'' = Inr []" by code_simp
  with assms show ?thesis by (simp add: api_get_def Let_def)
qed

theorem not_found_is_empty_witness:
  "fst (api_get (quiet_env\<lparr>http_get := (\<lambda>_ _. HttpResponse 200 (Some ''{\"error\":404,\"message\":\"No event found\"}''))\<rparr>)
     (api_NewProvider quiet_env) [(''match_id'', ''7'')] (start_world empty_tables)) = Inr []"
  by (rule not_found_is_empty) simp

end
