(* ===== verification/Football_Org.thy ===== *)
theory Football_Org
  imports Provider_Api
begin

text \<open>
  Package \<open>football_org\<close> (\<open>src/provider/internal/football_org\<close>): the mapping tables, the conversion
  of a match of the football-data.org client library and the provider methods. The client library
  itself is a function of the environment.
\<close>

section \<open>Mappings\<close>

definition CompetitionToFootballOrgID :: "Competition \<Rightarrow> go_uint option" where
  "CompetitionToFootballOrgID = map_of [(LaLiga, 2014)]"

definition FootballOrgIDToCompetition :: "go_uint \<Rightarrow> Competition option" where
  "FootballOrgIDToCompetition = map_of [(2014, LaLiga)]"

definition fo_team_table :: "(go_uint \<times> Team) list" where
  "fo_team_table =
     [(263, Alaves), (77, AthleticClub), (78, AtleticoMadrid), (81, Barcelona), (558, CeltaVigo),
      (285, Elche), (80, Espanyol), (82, Getafe), (298, Girona), (88, Levante), (89, Mallorca),
      (79, Osasuna), (1048, Oviedo), (87, RayoVallecano), (90, RealBetis), (86, RealMadrid),
      (92, RealSociedad), (559, Sevilla), (95, Valencia), (94, Villarreal)]"

definition FootballOrgTeamMapping :: "go_uint \<Rightarrow> Team option" where
  "FootballOrgTeamMapping = map_of fo_team_table"

section \<open>The provider\<close>

definition fo_NewProvider :: "'z provider_env_scheme \<Rightarrow> fo_client" where
  "fo_NewProvider e =
     (let customEndpoint = getenv e ''FOOTBALL_ORG_API_ENDPOINT''
      in \<lparr>client_key = getenv e ''FOOTBALL_ORG_API_KEY'',
          client_base_url = (if customEndpoint = [] then None else Some customEndpoint)\<rparr>)"

definition fo_ValidateCompetition :: "Competition \<Rightarrow> (fetch_error, unit) result" where
  "fo_ValidateCompetition c =
     (case CompetitionToFootballOrgID c of
        None \<Rightarrow> Inl (NotHandled FootballOrg c)
      | Some _ \<Rightarrow> Inr ())"

definition fo_GetProviderEntity :: Provider where
  "fo_GetProviderEntity = FootballOrg"

section \<open>Conversion\<close>

definition isInFinalStatus :: "fo_match \<Rightarrow> bool" where
  "isInFinalStatus m \<longleftrightarrow> fo_Status m = ''FINISHED'' \<or> fo_Status m = ''AWARDED''"

definition isInProgress :: "fo_match \<Rightarrow> bool" where
  "isInProgress m \<longleftrightarrow> fo_Status m \<in> set [''IN_PLAY'', ''PAUSED'', ''SUSPENDED'']"

definition convertToEntityMatch ::
  "(byte list \<Rightarrow> byte list) \<Rightarrow> uuid \<Rightarrow> fo_match \<Rightarrow> Competition \<Rightarrow> (go_uint \<Rightarrow> Team option) \<Rightarrow>
   (convert_error, Match) result" where
  "convertToEntityMatch k newID fm competition teamMapping =
     (case teamMapping (fo_HomeTeamID fm) of
        None \<Rightarrow> Inl (UnmappedHomeTeam (show_nat (unat (fo_HomeTeamID fm))))
      | Some homeTeamID \<Rightarrow> (case teamMapping (fo_AwayTeamID fm) of
        None \<Rightarrow> Inl (UnmappedAwayTeam (show_nat (unat (fo_AwayTeamID fm))))
      | Some awayTeamID \<Rightarrow> (case parse_rfc3339 (fo_UTCDate fm) of
        None \<Rightarrow> Inl BadStart
      | Some startTime \<Rightarrow>
          (let status = (if isInFinalStatus fm then Finished
                         else if isInProgress fm then InProgress else Pending);
               homeTeamScore = (case fo_FullTimeHome fm of None \<Rightarrow> 0 | Some n \<Rightarrow> n);
               awayTeamScore = (case fo_FullTimeAway fm of None \<Rightarrow> 0 | Some n \<Rightarrow> n)
           in (case NewMatch k newID startTime FootballOrg (show_nat (unat (fo_ID fm))) homeTeamID
                      awayTeamID homeTeamScore awayTeamScore competition status of
                 Inl er \<Rightarrow> Inl (CreateMatchFailed er)
               | Inr m \<Rightarrow> Inr m)))))"

section \<open>Fetching\<close>

definition fo_FetchMatchByID ::
  "'z provider_env_scheme \<Rightarrow> fo_client \<Rightarrow> string \<Rightarrow> world \<Rightarrow> (fetch_error, Match) result \<times> world" where
  "fo_FetchMatchByID e client providerMatchID w =
     (let w' = api_request (''GetMatch '' @ providerMatchID) w
      in (case fo_get_match e client (w_tick w) providerMatchID of
            Inl er \<Rightarrow> (Inl (FetchByIDFailed providerMatchID (ClientError er)), w')
          | Inr fm \<Rightarrow>
              (case FootballOrgIDToCompetition (fo_CompetitionID fm) of
                 None \<Rightarrow> (Inl (UnknownCompetitionID (fo_CompetitionID fm) providerMatchID), w')
               | Some competition \<Rightarrow>
                   (case convertToEntityMatch (keccak e) (uuid_new e (w_tick w')) fm competition
                           FootballOrgTeamMapping of
                      Inl er \<Rightarrow> (Inl (ConvertFailed providerMatchID er), tick w')
                    | Inr m \<Rightarrow> (Inr m, tick w')))))"

text \<open>The loop of \<open>FetchMatches\<close>: a match that does not convert is logged and skipped.\<close>

fun convert_fo_matches ::
  "'z provider_env_scheme \<Rightarrow> Competition \<Rightarrow> fo_match list \<Rightarrow> world \<Rightarrow> Match list \<times> world" where
  "convert_fo_matches e competition [] w = ([], w)"
| "convert_fo_matches e competition (fm # fms) w =
     (case convertToEntityMatch (keccak e) (uuid_new e (w_tick w)) fm competition FootballOrgTeamMapping of
        Inl _ \<Rightarrow> convert_fo_matches e competition fms w
      | Inr m \<Rightarrow> (case convert_fo_matches e competition fms (tick w) of (ms, w') \<Rightarrow> (m # ms, w')))"

text \<open>A missing key of the competition map reads as 0.\<close>

definition fo_FetchMatches ::
  "'z provider_env_scheme \<Rightarrow> fo_client \<Rightarrow> Competition \<Rightarrow> go_time \<Rightarrow> go_time \<Rightarrow> world \<Rightarrow>
   (fetch_error, Match list) result \<times> world" where
  "fo_FetchMatches e client competition from_t to_t w =
     (let competitionID = (case CompetitionToFootballOrgID competition of None \<Rightarrow> 0 | Some c \<Rightarrow> c);
          w' = api_request (''GetMatches '' @ show_nat (unat competitionID)) w
      in (case fo_get_matches e client (w_tick w) competitionID from_t to_t of
            Inl er \<Rightarrow> (Inl (ClientError er), w')
          | Inr fms \<Rightarrow>
              (case convert_fo_matches e competition fms w' of (ms, w'') \<Rightarrow> (Inr ms, w''))))"

text \<open>The provider as a value of the interfaces.\<close>

definition football_org :: "'z provider_env_scheme \<Rightarrow> ReconcileProvider" where
  "football_org e =
     (let client = fo_NewProvider e
      in \<lparr>ValidateCompetition = fo_ValidateCompetition, FetchMatches = fo_FetchMatches e client,
          GetProviderEntity = fo_GetProviderEntity, FetchMatchByID = fo_FetchMatchByID e client\<rparr>)"

section \<open>What the package promises\<close>

lemma convertToEntityMatch_ok:
  assumes "convertToEntityMatch k u fm c tm = Inr m"
  obtains home away start where
    "tm (fo_HomeTeamID fm) = Some home" "tm (fo_AwayTeamID fm) = Some away"
    "parse_rfc3339 (fo_UTCDate fm) = Some start"
    "NewMatch k u start FootballOrg (show_nat (unat (fo_ID fm))) home away
       (case fo_FullTimeHome fm of None \<Rightarrow> 0 | Some n \<Rightarrow> n) (case fo_FullTimeAway fm of None \<Rightarrow> 0 | Some n \<Rightarrow> n) c
       (if isInFinalStatus fm then Finished else if isInProgress fm then InProgress else Pending) = Inr m"
  using assms by (auto simp: convertToEntityMatch_def Let_def split: option.splits sum.splits)

lemma FootballOrgTeamMapping_known: "FootballOrgTeamMapping i = Some t \<Longrightarrow> known_team t"
proof -
  have "list_all (known_team \<circ> snd) fo_team_table" by code_simp
  then show "FootballOrgTeamMapping i = Some t \<Longrightarrow> known_team t"
    unfolding FootballOrgTeamMapping_def by (rule map_of_all)
qed

lemma FootballOrgIDToCompetition_known: "FootballOrgIDToCompetition i = Some c \<Longrightarrow> known_competition c"
  by (auto simp: FootballOrgIDToCompetition_def known_competition_def split: if_splits)

lemma convertToEntityMatch_delivered:
  assumes "convertToEntityMatch k u fm c FootballOrgTeamMapping = Inr m"
  shows "delivered k FootballOrg m \<and> CompetitionID m = c"
  using assms
proof (rule convertToEntityMatch_ok)
  fix home away start
  assume maps: "FootballOrgTeamMapping (fo_HomeTeamID fm) = Some home" "FootballOrgTeamMapping (fo_AwayTeamID fm) = Some away"
    and new: "NewMatch k u start FootballOrg (show_nat (unat (fo_ID fm))) home away
       (case fo_FullTimeHome fm of None \<Rightarrow> 0 | Some n \<Rightarrow> n) (case fo_FullTimeAway fm of None \<Rightarrow> 0 | Some n \<Rightarrow> n) c
       (if isInFinalStatus fm then Finished else if isInProgress fm then InProgress else Pending) = Inr m"
  show ?thesis
    using NewMatch_wf [OF new] NewMatch_fields [OF new] maps [THEN FootballOrgTeamMapping_known]
    by (simp add: delivered_def)
qed

lemma convert_fo_matches_frame:
  "w_db (snd (convert_fo_matches e c fms w)) = w_db w \<and> w_tick w \<le> w_tick (snd (convert_fo_matches e c fms w))"
proof (induction fms arbitrary: w)
  case Nil
  then show ?case by simp
next
  case (Cons fm fms)
  show ?case
    using Cons.IH [of w] Cons.IH [of "tick w"] by (simp add: case_prod_beta split: sum.split)
qed

lemma convert_fo_matches_delivered:
  "m \<in> set (fst (convert_fo_matches e c fms w)) \<Longrightarrow> delivered (keccak e) FootballOrg m \<and> CompetitionID m = c"
proof (induction fms arbitrary: w)
  case Nil
  then show ?case by simp
next
  case (Cons fm fms)
  then show ?case
    by (auto simp: case_prod_beta split: sum.splits dest: convertToEntityMatch_delivered)
qed

lemma fo_FetchMatches_frame:
  "w_db (snd (fo_FetchMatches e p c from_t to_t w)) = w_db w \<and>
   w_tick w < w_tick (snd (fo_FetchMatches e p c from_t to_t w))"
proof -
  have "w_db (snd (convert_fo_matches e c fms (api_request what w))) = w_db w \<and>
      w_tick w < w_tick (snd (convert_fo_matches e c fms (api_request what w)))" for fms what
    using convert_fo_matches_frame [of e c fms "api_request what w"] by simp
  then show ?thesis
    by (simp add: fo_FetchMatches_def Let_def case_prod_beta split: sum.split)
qed

lemma fo_FetchMatches_delivered:
  assumes "fst (fo_FetchMatches e p c from_t to_t w) = Inr ms" and "m \<in> set ms"
  shows "delivered (keccak e) FootballOrg m \<and> CompetitionID m = c"
  using assms convert_fo_matches_delivered
  by (fastforce simp: fo_FetchMatches_def Let_def case_prod_beta split: sum.splits)

lemma fo_FetchMatchByID_frame:
  "w_db (snd (fo_FetchMatchByID e p pmid w)) = w_db w \<and> w_tick w < w_tick (snd (fo_FetchMatchByID e p pmid w))"
  by (auto simp: fo_FetchMatchByID_def Let_def split: sum.split option.split)

lemma fo_FetchMatchByID_log:
  "w_log (snd (fo_FetchMatchByID e p pmid w)) = w_log w @ [ApiRequest (''GetMatch '' @ pmid)]"
  by (auto simp: fo_FetchMatchByID_def Let_def split: sum.split option.split)

lemma fo_FetchMatchByID_delivered:
  "fst (fo_FetchMatchByID e p pmid w) = Inr m \<Longrightarrow>
   delivered (keccak e) FootballOrg m \<and> known_competition (CompetitionID m)"
  by (auto simp: fo_FetchMatchByID_def Let_def split: sum.splits option.splits
      dest: convertToEntityMatch_delivered FootballOrgIDToCompetition_known)

lemma football_org_simps [simp]:
  "ValidateCompetition (football_org e) = fo_ValidateCompetition"
  "FetchMatches (football_org e) = fo_FetchMatches e (fo_NewProvider e)"
  "GetProviderEntity (football_org e) = FootballOrg"
  "FetchMatchByID (football_org e) = fo_FetchMatchByID e (fo_NewProvider e)"
  by (simp_all add: football_org_def fo_GetProviderEntity_def Let_def)

interpretation football_org: data_source "football_org e" "keccak e" for e
proof unfold_locales
  show "w_db (snd (FetchMatches (football_org e) c from_t to_t w)) = w_db w" for c from_t to_t w
    by (simp add: fo_FetchMatches_frame)
  show "w_tick w < w_tick (snd (FetchMatches (football_org e) c from_t to_t w))" for c from_t to_t w
    by (simp add: fo_FetchMatches_frame)
  show "w_db (snd (FetchMatchByID (football_org e) pmid w)) = w_db w" for pmid w
    by (simp add: fo_FetchMatchByID_frame)
  show "w_tick w < w_tick (snd (FetchMatchByID (football_org e) pmid w))" for pmid w
    by (simp add: fo_FetchMatchByID_frame)
  show "\<exists>what. w_log (snd (FetchMatchByID (football_org e) pmid w)) = w_log w @ [ApiRequest what]" for pmid w
    by (simp add: fo_FetchMatchByID_log)
qed (auto dest: fo_FetchMatches_delivered fo_FetchMatchByID_delivered)

section \<open>Properties\<close>

text \<open>
  A match of football-data.org is final exactly when its status is FINISHED or AWARDED, and a
  missing score is stored as 0, for a final match too.
\<close>

theorem convert_scores:
  assumes "convertToEntityMatch k u fm c team = Inr m"
  shows "(Status m = Finished \<longleftrightarrow> fo_Status fm = ''FINISHED'' \<or> fo_Status fm = ''AWARDED'') \<and>
    HomeTeamScore m = (case fo_FullTimeHome fm of None \<Rightarrow> 0 | Some n \<Rightarrow> n) \<and>
    AwayTeamScore m = (case fo_FullTimeAway fm of None \<Rightarrow> 0 | Some n \<Rightarrow> n)"
  using assms
proof (rule convertToEntityMatch_ok)
  fix home away start
  assume new: "NewMatch k u start FootballOrg (show_nat (unat (fo_ID fm))) home away
       (case fo_FullTimeHome fm of None \<Rightarrow> 0 | Some n \<Rightarrow> n) (case fo_FullTimeAway fm of None \<Rightarrow> 0 | Some n \<Rightarrow> n) c
       (if isInFinalStatus fm then Finished else if isInProgress fm then InProgress else Pending) = Inr m"
  show ?thesis
    unfolding NewMatch_fields(7,8,10) [OF new] by (simp add: isInFinalStatus_def go_const)
qed

theorem convert_scores_witness:
  "\<exists>m. convertToEntityMatch (keccak quiet_env) 0 (sample_fo\<lparr>fo_FullTimeHome := None, fo_FullTimeAway := None\<rparr>) LaLiga
        FootballOrgTeamMapping = Inr m \<and> Status m = Finished \<and> HomeTeamScore m = 0 \<and> AwayTeamScore m = 0"
proof -
  let ?fm = "sample_fo\<lparr>fo_FullTimeHome := None, fo_FullTimeAway := None\<rparr>"
  have "is_ok (convertToEntityMatch (keccak quiet_env) 0 ?fm LaLiga FootballOrgTeamMapping)" by code_simp
  then obtain m where m: "convertToEntityMatch (keccak quiet_env) 0 ?fm LaLiga FootballOrgTeamMapping = Inr m"
    by (auto simp: is_ok_iff)
  with convert_scores [OF this] show ?thesis by (simp add: sample_fo_def)
qed

end
