(* ===== verification/Sync.thy ===== *)
theory Sync
  imports Saver Apifootball Football_Org
begin

text \<open>
  The sync service of the provider (\<open>src/provider/internal/service/sync.go\<close>): which day to query,
  the stale-match filter, and the choice of the date stored for the next run.
\<close>

section \<open>The code\<close>

definition SYNC_CONTEXT_TIMEOUT :: duration where "SYNC_CONTEXT_TIMEOUT = seconds 15"
definition STALE_MATCH_THRESHOLD :: duration where "STALE_MATCH_THRESHOLD = hours 6"

datatype sync_error =
    SyncUnknownCompetition string
  | SyncUnknownProvider string
  | SyncInvalidCompetition fetch_error
  | QueryDateFailed repo_error
  | FetchMatchesFailed fetch_error
  | FilterFailed repo_error
  | UpdateDateFailed repo_error

text \<open>\<open>SystemClock.Now\<close>: the wall clock in UTC.\<close>

definition SystemClock :: "'z provider_env_scheme \<Rightarrow> nat \<Rightarrow> go_time" where
  "SystemClock e n = (wall_clock e n)\<lparr>zone_off := 0\<rparr>"

definition parse_competition :: "string \<Rightarrow> Competition option" where
  "parse_competition s =
     (let l = to_lower s in
      if l = ''la_liga'' then Some LaLiga
      else if l = ''premier_league'' then Some PremierLeague
      else if l = ''championship'' then Some Championship
      else None)"

definition parse_provider :: "'z provider_env_scheme \<Rightarrow> string \<Rightarrow> ReconcileProvider option" where
  "parse_provider e s =
     (let l = to_lower s in
      if l = ''football_org'' then Some (football_org e)
      else if l = ''apifootball'' then Some (apifootball e)
      else None)"

definition getQueryDate ::
  "'z db_env_scheme \<Rightarrow> Competition \<Rightarrow> go_time \<Rightarrow> Provider \<Rightarrow> world \<Rightarrow> (repo_error, go_time) result \<times> world" where
  "getQueryDate e competition today provider w =
     (case GetLastSyncedDate e competition provider w of
        (Inl err, w') \<Rightarrow> (Inl err, w')
      | (Inr None, w') \<Rightarrow> (Inr today, w')
      | (Inr (Some lastSyncedDate), w') \<Rightarrow>
          (let lastSyncedDay = utc_midnight lastSyncedDate
           in if time_after lastSyncedDay today then (Inr today, w') else (Inr lastSyncedDay, w')))"

definition is_stale :: "go_time \<Rightarrow> Match \<Rightarrow> bool" where
  "is_stale now m \<longleftrightarrow>
     Status m \<noteq> Finished \<and> time_before (Start m) (time_add now (- STALE_MATCH_THRESHOLD))"

definition stale_not_queued :: string where
  "stale_not_queued = ''Failed to add stale match to reconciliation queue''"

definition queue_stale :: "'z db_env_scheme \<Rightarrow> Provider \<Rightarrow> Match \<Rightarrow> world \<Rightarrow> world" where
  "queue_stale e provider m w =
     (case SaveToReconciliationQueue e (ProviderMatchID m) provider w of
        (Inl err, w') \<Rightarrow> log_event (SlogError stale_not_queued (ProviderMatchID m)) w'
      | (Inr _, w') \<Rightarrow> w')"

fun filterStaleMatches ::
  "'z db_env_scheme \<Rightarrow> Match list \<Rightarrow> Provider \<Rightarrow> go_time \<Rightarrow> world \<Rightarrow> (repo_error, Match list) result \<times> world" where
  "filterStaleMatches e [] provider now w = (Inr [], w)"
| "filterStaleMatches e (m # ms) provider now w =
     (if is_stale now m then filterStaleMatches e ms provider now (queue_stale e provider m w)
      else
        (case filterStaleMatches e ms provider now w of
           (Inl err, w') \<Rightarrow> (Inl err, w')
         | (Inr rest, w') \<Rightarrow> (Inr (m # rest), w')))"

fun hasInProgressMatches :: "Match list \<Rightarrow> bool" where
  "hasInProgressMatches [] = False"
| "hasInProgressMatches (m # ms) = (if Status m \<noteq> Finished then True else hasInProgressMatches ms)"

definition next_sync_date :: "go_time \<Rightarrow> go_time \<Rightarrow> Match list \<Rightarrow> go_time" where
  "next_sync_date queryDate today ms =
     (if hasInProgressMatches ms then queryDate
      else if time_before queryDate today then time_add queryDate (hours 24)
      else today)"

text \<open>\<open>Sync\<close> once the competition and the provider are chosen and validated.\<close>

definition sync_with ::
  "'z db_env_scheme \<Rightarrow> 's SyncProvider_scheme \<Rightarrow> Competition \<Rightarrow> (nat \<Rightarrow> go_time) \<Rightarrow> world \<Rightarrow>
   (sync_error, unit) result \<times> world" where
  "sync_with e src competition clock w =
     (let today = utc_midnight (clock (w_tick w)) in
      case getQueryDate e competition today (GetProviderEntity src) (tick w) of
        (Inl err, w1) \<Rightarrow> (Inl (QueryDateFailed err), w1)
      | (Inr queryDate, w1) \<Rightarrow>
          (case FetchMatches src competition queryDate (time_add queryDate (hours 24)) w1 of
             (Inl err, w2) \<Rightarrow> (Inl (FetchMatchesFailed err), w2)
           | (Inr ms, w2) \<Rightarrow>
               (case filterStaleMatches e ms (GetProviderEntity src) (clock (w_tick w2)) (tick w2) of
                  (Inl err, w3) \<Rightarrow> (Inl (FilterFailed err), w3)
                | (Inr filtered, w3) \<Rightarrow>
                    (case UpdateLastSyncedDate e competition (GetProviderEntity src)
                            (next_sync_date queryDate today filtered)
                            (SaveMatches e filtered (GetProviderEntity src) w3) of
                       (Inl err, w4) \<Rightarrow> (Inl (UpdateDateFailed err), w4)
                     | (Inr _, w4) \<Rightarrow> (Inr (), w4)))))"

definition Sync ::
  "'z provider_env_scheme \<Rightarrow> string \<Rightarrow> string \<Rightarrow> (nat \<Rightarrow> go_time) \<Rightarrow> world \<Rightarrow> (sync_error, unit) result \<times> world" where
  "Sync e provider competition clock w =
     (case parse_competition competition of
        None \<Rightarrow> (Inl (SyncUnknownCompetition competition), w)
      | Some competitionEntity \<Rightarrow>
          (case parse_provider e provider of
             None \<Rightarrow> (Inl (SyncUnknownProvider provider), w)
           | Some syncProvider \<Rightarrow>
               (case ValidateCompetition syncProvider competitionEntity of
                  Inl err \<Rightarrow> (Inl (SyncInvalidCompetition err), w)
                | Inr _ \<Rightarrow> sync_with e syncProvider competitionEntity clock w)))"

section \<open>The query date\<close>

lemma utc_midnight_le: "zone_off t = 0 \<Longrightarrow> unix_ns (utc_midnight t) \<le> unix_ns t"
  by (simp add: utc_midnight_eq local_ns_def day_ns_def second_ns_def)

lemma getQueryDate_frame [frame_simps]:
  "w_db (snd (getQueryDate e c today p w)) = w_db w"
  "w_tick (snd (getQueryDate e c today p w)) = Suc (w_tick w)"
  "w_log (snd (getQueryDate e c today p w)) = w_log w"
  using GetLastSyncedDate_frame [of e c p w]
  by (auto simp: getQueryDate_def Let_def split: prod.split sum.split option.split)

text \<open>What the code computes, as a function of the stored date.\<close>

definition query_day :: "tables \<Rightarrow> Competition \<Rightarrow> Provider \<Rightarrow> go_time \<Rightarrow> go_time" where
  "query_day t c p today =
     (case last_synced t c p of
        None \<Rightarrow> today
      | Some d \<Rightarrow> if unix_ns today < unix_ns (utc_midnight d) then today else utc_midnight d)"

lemma getQueryDate_spec:
  "fst (getQueryDate e c today p w) = Inr q \<Longrightarrow> q = query_day (w_db w) c p today"
  using GetLastSyncedDate_ok [of e c p w]
  by (auto simp: getQueryDate_def query_day_def time_after_def Let_def
      split: prod.splits sum.splits option.splits if_splits)

lemma getQueryDate_world: "snd (getQueryDate e c today p w) = tick w"
  using getQueryDate_frame [of e c today p w] by (simp add: world.equality)

lemma query_day_bounds:
  assumes "utc_midnight today = today"
  shows "unix_ns (query_day t c p today) \<le> unix_ns today"
    and "utc_midnight (query_day t c p today) = query_day t c p today"
  using assms by (auto simp: query_day_def utc_midnight_idem split: option.split)

section \<open>The stale filter\<close>

lemma filterStaleMatches_eq:
  "filterStaleMatches e ms p now w =
     (Inr (filter (\<lambda>m. \<not> is_stale now m) ms), fold (queue_stale e p) (filter (is_stale now) ms) w)"
  by (induction ms arbitrary: w) simp_all

text \<open>A stale match is in the queue afterwards, or an error names it.\<close>

definition handed_over :: "world \<Rightarrow> Provider \<Rightarrow> Match \<Rightarrow> bool" where
  "handed_over w p m \<longleftrightarrow>
     queued (w_db w) (ProviderMatchID m) p \<or> SlogError stale_not_queued (ProviderMatchID m) \<in> set (w_log w)"

lemma queue_stale_snd:
  "queue_stale e p m w =
     (let (r, w') = SaveToReconciliationQueue e (ProviderMatchID m) p w
      in if is_ok r then w' else log_event (SlogError stale_not_queued (ProviderMatchID m)) w')"
  by (simp add: queue_stale_def Let_def is_ok_def split: prod.split sum.split)

lemma queue_stale_hands_over: "handed_over (queue_stale e p m w) p m"
  using SaveToReconciliationQueue_ok [of e "ProviderMatchID m" p w]
  by (auto simp: queue_stale_snd handed_over_def is_ok_iff split: prod.split)

lemma queue_stale_frame [frame_simps]:
  "w_tick (queue_stale e p m w) = Suc (w_tick w)"
  "matches (w_db (queue_stale e p m w)) = matches (w_db w)"
  "sync_state (w_db (queue_stale e p m w)) = sync_state (w_db w)"
  using SaveToReconciliationQueue_frame(1) [of e "ProviderMatchID m" p w]
    SaveToReconciliationQueue_other [of e "ProviderMatchID m" p w]
  by (auto simp: queue_stale_snd split: prod.split)

lemma queue_stale_log: "set (w_log w) \<subseteq> set (w_log (queue_stale e p m w))"
  using SaveToReconciliationQueue_frame(2) [of e "ProviderMatchID m" p w]
  by (auto simp: queue_stale_snd split: prod.split)

lemma queue_stale_queued: "queued (w_db w) q p' \<Longrightarrow> queued (w_db (queue_stale e p m w)) q p'"
  using SaveToReconciliationQueue_keeps [of w q p' e "ProviderMatchID m" p]
  by (auto simp: queue_stale_snd split: prod.split)

lemma fold_queue_stale_frame [frame_simps]:
  "matches (w_db (fold (queue_stale e p) ms w)) = matches (w_db w)"
  "sync_state (w_db (fold (queue_stale e p) ms w)) = sync_state (w_db w)"
  "w_tick (fold (queue_stale e p) ms w) = w_tick w + length ms"
  by (induction ms arbitrary: w) (simp_all add: frame_simps)

lemma fold_queue_stale_invariant:
  assumes "I (w_db w)"
    and "\<And>pmid w. I (w_db w) \<Longrightarrow> I (w_db (snd (SaveToReconciliationQueue e pmid p w)))"
  shows "I (w_db (fold (queue_stale e p) ms w))"
  using assms(1)
proof (induction ms arbitrary: w)
  case (Cons m ms)
  have "I (w_db (queue_stale e p m w))"
    using assms(2) [OF Cons.prems, of "ProviderMatchID m"] by (auto simp: queue_stale_snd split: prod.split)
  with Cons.IH show ?case by simp
qed simp

lemma fold_queue_stale_keeps: "handed_over w p m \<Longrightarrow> handed_over (fold (queue_stale e p) ms w) p m"
proof (induction ms arbitrary: w)
  case (Cons x xs)
  have "handed_over (queue_stale e p x w) p m"
    using Cons.prems queue_stale_queued [of w "ProviderMatchID m" p e p x] queue_stale_log [of w e p x]
    by (auto simp: handed_over_def)
  with Cons.IH show ?case by simp
qed simp

lemma fold_queue_stale_hands_over: "m \<in> set ms \<Longrightarrow> handed_over (fold (queue_stale e p) ms w) p m"
proof (induction ms arbitrary: w)
  case (Cons x xs)
  show ?case
  proof (cases "m = x")
    case True
    then show ?thesis by (simp add: fold_queue_stale_keeps queue_stale_hands_over)
  next
    case False
    with Cons show ?thesis by simp
  qed
qed simp

section \<open>The next date\<close>

lemma hasInProgressMatches_iff: "hasInProgressMatches ms \<longleftrightarrow> (\<exists>m \<in> set ms. Status m \<noteq> Finished)"
  by (induction ms) auto

lemma midnight_ns: "utc_midnight t = t \<Longrightarrow> \<exists>n. unix_ns t = n * day_ns \<and> zone_off t = 0"
  by (metis go_time.select_convs utc_midnight_eq)

lemma midnight_of_ns: "utc_midnight \<lparr>unix_ns = n * day_ns, zone_off = 0\<rparr> = \<lparr>unix_ns = n * day_ns, zone_off = 0\<rparr>"
  by (simp add: utc_midnight_eq local_ns_def day_ns_def second_ns_def)

lemma hours_24: "hours 24 = day_ns"
  by (simp add: hours_def day_ns_def)

text \<open>Between two UTC midnights, adding a day to the earlier one never passes the later one.\<close>

lemma midnight_step:
  assumes "utc_midnight q = q" and "utc_midnight t = t" and "time_before q t"
  shows "utc_midnight (time_add q (hours 24)) = time_add q (hours 24)"
    and "unix_ns (time_add q (hours 24)) \<le> unix_ns t"
proof -
  obtain a b where a: "unix_ns q = a * day_ns" "zone_off q = 0" and b: "unix_ns t = b * day_ns"
    using midnight_ns assms(1,2) by metis
  have sum: "unix_ns q + day_ns = (a + 1) * day_ns" by (simp add: a distrib_right)
  then have add: "time_add q (hours 24) = \<lparr>unix_ns = (a + 1) * day_ns, zone_off = 0\<rparr>"
    using a(2) by (simp add: time_add_def hours_24)
  then show "utc_midnight (time_add q (hours 24)) = time_add q (hours 24)"
    by (simp only: midnight_of_ns)
  have "a * day_ns < b * day_ns" using assms(3) a b by (simp add: time_before_def)
  then have "a < b" by (simp add: day_ns_def second_ns_def)
  then have "(a + 1) * day_ns \<le> b * day_ns" by (intro mult_right_mono) (simp_all add: day_ns_def second_ns_def)
  with add b show "unix_ns (time_add q (hours 24)) \<le> unix_ns t" by simp
qed

lemma next_sync_date_bounds:
  fixes ms :: "Match list"
  assumes "utc_midnight q = q" and "utc_midnight today = today" and "unix_ns q \<le> unix_ns today"
  defines "d \<equiv> next_sync_date q today ms"
  shows "utc_midnight d = d" and "unix_ns q \<le> unix_ns d" and "unix_ns d \<le> unix_ns today"
    and "d = q \<or> d = time_add q (hours 24)"
proof -
  have same: "today = q" if "\<not> time_before q today"
    using that assms(3) midnight_ns [OF assms(1)] midnight_ns [OF assms(2)]
    by (auto simp: time_before_def intro: go_time.equality)
  have up: "unix_ns q \<le> unix_ns (time_add q (hours 24))"
    by (simp add: time_add_def hours_def second_ns_def)
  show "utc_midnight d = d" "unix_ns q \<le> unix_ns d" "unix_ns d \<le> unix_ns today"
    "d = q \<or> d = time_add q (hours 24)"
    using midnight_step [OF assms(1,2)] same up assms(1-3) by (simp_all add: d_def next_sync_date_def)
qed

section \<open>A run of the service\<close>

text \<open>The steps of a run that succeeds.\<close>

lemma sync_with_ok:
  assumes "sync_with e src c clock w = (Inr (), w')"
  obtains q ms w2 filtered w3 where
    "q = query_day (w_db w) c (GetProviderEntity src) (utc_midnight (clock (w_tick w)))"
    "FetchMatches src c q (time_add q (hours 24)) (tick (tick w)) = (Inr ms, w2)"
    "filtered = filter (\<lambda>m. \<not> is_stale (clock (w_tick w2)) m) ms"
    "w3 = fold (queue_stale e (GetProviderEntity src)) (filter (is_stale (clock (w_tick w2))) ms) (tick w2)"
    "UpdateLastSyncedDate e c (GetProviderEntity src) (next_sync_date q (utc_midnight (clock (w_tick w))) filtered)
       (SaveMatches e filtered (GetProviderEntity src) w3) = (Inr (), w')"
proof -
  define today where "today = utc_midnight (clock (w_tick w))"
  have "getQueryDate e c today (GetProviderEntity src) (tick w) =
      (fst (getQueryDate e c today (GetProviderEntity src) (tick w)), tick (tick w))"
    using getQueryDate_world [of e c today "GetProviderEntity src" "tick w"] by (simp add: prod_eq_iff)
  moreover have "q = query_day (w_db w) c (GetProviderEntity src) today"
    if "fst (getQueryDate e c today (GetProviderEntity src) (tick w)) = Inr q" for q
    using getQueryDate_spec [OF that] by simp
  ultimately show thesis
    using assms that unfolding today_def [symmetric]
    by (fastforce simp: sync_with_def Let_def filterStaleMatches_eq today_def [symmetric]
        split: prod.splits sum.splits)
qed

lemma handed_over_mono:
  "handed_over w p m \<Longrightarrow> (\<And>q. queued (w_db w) q p \<Longrightarrow> queued (w_db w') q p) \<Longrightarrow> set (w_log w) \<subseteq> set (w_log w') \<Longrightarrow>
     handed_over w' p m"
  by (auto simp: handed_over_def)

lemma UpdateLastSyncedDate_keeps:
  assumes "UpdateLastSyncedDate e c p d w = (r, w')"
  shows "accounted w p' ms m \<Longrightarrow> accounted w' p' ms m" and "handed_over w p' m \<Longrightarrow> handed_over w' p' m"
  using UpdateLastSyncedDate_other [of e c p d w] UpdateLastSyncedDate_frame [of e c p d w] assms
  by (simp_all add: accounted_def handed_over_def stored_def queued_def)

text \<open>
  What the service proves about itself from the contract of a data source alone, whichever of the
  two it talks to.
\<close>

context data_source
begin

lemma sync_invariant:
  assumes "I (w_db w)"
    and save: "\<And>m w. delivered k (GetProviderEntity src) m \<Longrightarrow> CompetitionID m = c \<Longrightarrow> Status m = Finished \<Longrightarrow>
      I (w_db w) \<Longrightarrow> I (w_db (snd (Save e m w)))"
    and queue: "\<And>pmid w. I (w_db w) \<Longrightarrow> I (w_db (snd (SaveToReconciliationQueue e pmid (GetProviderEntity src) w)))"
    and update: "\<And>d w. I (w_db w) \<Longrightarrow> I (w_db (snd (UpdateLastSyncedDate e c (GetProviderEntity src) d w)))"
  shows "I (w_db (snd (sync_with e src c clock w)))"
proof -
  let ?t = "utc_midnight (clock (w_tick w))" and ?p = "GetProviderEntity src"
  obtain r1 w1 where 1: "getQueryDate e c ?t ?p (tick w) = (r1, w1)"
    by (cases "getQueryDate e c ?t ?p (tick w)")
  have w1: "I (w_db w1)"
    using getQueryDate_frame(1) [of e c ?t ?p "tick w"] assms(1) 1 by simp
  show ?thesis
  proof (cases r1)
    case (Inl err)
    with 1 w1 show ?thesis by (simp add: sync_with_def)
  next
    case (Inr q)
    obtain r2 w2 where 2: "FetchMatches src c q (time_add q (hours 24)) w1 = (r2, w2)"
      by (cases "FetchMatches src c q (time_add q (hours 24)) w1")
    have w2: "I (w_db w2)" using fetch_db [of c q "time_add q (hours 24)" w1] 2 w1 by simp
    show ?thesis
    proof (cases r2)
      case (Inl err)
      with 1 2 Inr w2 show ?thesis by (simp add: sync_with_def)
    next
      case (Inr ms)
      define fl where "fl = filter (\<lambda>m. \<not> is_stale (clock (w_tick w2)) m) ms"
      define w3 where "w3 = SaveMatches e fl ?p (fold (queue_stale e ?p) (filter (is_stale (clock (w_tick w2))) ms) (tick w2))"
      have ms: "delivered k ?p m \<and> CompetitionID m = c" if "m \<in> set ms" for m
        using fetch_delivered [of c q "time_add q (hours 24)" w1 ms m] 2 Inr that by simp
      have "I (w_db w3)"
        unfolding w3_def
      proof (rule SaveMatches_invariant [where I = I])
        show "I (w_db (fold (queue_stale e ?p) (filter (is_stale (clock (w_tick w2))) ms) (tick w2)))"
          by (rule fold_queue_stale_invariant [where I = I]) (use w2 queue in simp_all)
        show "I (w_db (snd (Save e m v)))" if "m \<in> set fl" "Status m = Finished" "I (w_db v)" for m v
          using that ms by (intro save) (simp_all add: fl_def)
      qed (rule queue)
      then have "I (w_db (snd (UpdateLastSyncedDate e c ?p (next_sync_date q ?t fl) w3)))"
        by (rule update)
      with 1 2 \<open>r1 = Inr q\<close> Inr show ?thesis
        by (auto simp: sync_with_def filterStaleMatches_eq fl_def w3_def split: prod.split sum.split)
    qed
  qed
qed

lemma sync_fetch_error:
  assumes "sync_with e src c clock w = (Inl (FetchMatchesFailed er), w')"
  shows "w_db w' = w_db w"
proof -
  let ?t = "utc_midnight (clock (w_tick w))" and ?p = "GetProviderEntity src"
  obtain q where "FetchMatches src c q (time_add q (hours 24)) (snd (getQueryDate e c ?t ?p (tick w))) = (Inl er, w')"
    using assms by (auto simp: sync_with_def Let_def filterStaleMatches_eq split: prod.splits sum.splits)
  then show ?thesis
    using fetch_db [of c q "time_add q (hours 24)" "snd (getQueryDate e c ?t ?p (tick w))"]
      getQueryDate_frame(1) [of e c ?t ?p "tick w"] by simp
qed

lemma sync_date:
  assumes "sync_with e src c clock w = (Inr (), w')"
  defines "today \<equiv> utc_midnight (clock (w_tick w))"
  defines "q \<equiv> query_day (w_db w) c (GetProviderEntity src) today"
  shows "\<exists>d. last_synced (w_db w') c (GetProviderEntity src) = Some (ts_value e d) \<and>
    utc_midnight d = d \<and> unix_ns q \<le> unix_ns d \<and> unix_ns d \<le> unix_ns today \<and>
    (d = q \<or> d = time_add q (hours 24))"
  using assms(1)
proof (rule sync_with_ok)
  fix q' ms w2 filtered w3
  assume q': "q' = query_day (w_db w) c (GetProviderEntity src) (utc_midnight (clock (w_tick w)))"
    and upd: "UpdateLastSyncedDate e c (GetProviderEntity src)
        (next_sync_date q' (utc_midnight (clock (w_tick w))) filtered)
        (SaveMatches e filtered (GetProviderEntity src) w3) = (Inr (), w')"
  have t: "utc_midnight today = today" by (simp add: today_def utc_midnight_idem)
  note b = next_sync_date_bounds [OF query_day_bounds(2) [OF t, of "w_db w" c "GetProviderEntity src"] t
      query_day_bounds(1) [OF t, of "w_db w" c "GetProviderEntity src"], folded q_def, of filtered]
  have "last_synced (w_db w') c (GetProviderEntity src) = Some (ts_value e (next_sync_date q today filtered))"
    using UpdateLastSyncedDate_ok [OF upd] q' by (simp add: q_def today_def)
  with b show ?thesis by blast
qed

lemma sync_accounts:
  assumes "sync_with e src c clock w = (Inr (), w')"
  defines "p \<equiv> GetProviderEntity src"
  defines "q \<equiv> query_day (w_db w) c p (utc_midnight (clock (w_tick w)))"
  shows "\<exists>ms w2. FetchMatches src c q (time_add q (hours 24)) (tick (tick w)) = (Inr ms, w2) \<and>
    (\<forall>m \<in> set ms.
       if is_stale (clock (w_tick w2)) m then handed_over w' p m
       else if Status m = Finished
         then \<forall>earlier later. ms = earlier @ m # later \<longrightarrow> accounted w' p (m # later) m
       else last_synced (w_db w') c p = Some (ts_value e q))"
  using assms(1)
proof (rule sync_with_ok)
  fix q' ms w2 filtered w3
  assume q': "q' = query_day (w_db w) c (GetProviderEntity src) (utc_midnight (clock (w_tick w)))"
    and fetch: "FetchMatches src c q' (time_add q' (hours 24)) (tick (tick w)) = (Inr ms, w2)"
    and fl: "filtered = filter (\<lambda>m. \<not> is_stale (clock (w_tick w2)) m) ms"
    and w3: "w3 = fold (queue_stale e (GetProviderEntity src)) (filter (is_stale (clock (w_tick w2))) ms) (tick w2)"
    and upd: "UpdateLastSyncedDate e c (GetProviderEntity src)
        (next_sync_date q' (utc_midnight (clock (w_tick w))) filtered)
        (SaveMatches e filtered (GetProviderEntity src) w3) = (Inr (), w')"
  have qq: "q' = q" by (simp add: q' q_def p_def)
  have "handed_over w' p m" if "m \<in> set ms" "is_stale (clock (w_tick w2)) m" for m
  proof -
    have "handed_over w3 p m"
      unfolding w3 p_def by (rule fold_queue_stale_hands_over) (use that in simp)
    then have "handed_over (SaveMatches e filtered p w3) p m"
      by (rule handed_over_mono) (simp_all add: SaveMatches_queued SaveMatches_log)
    then show ?thesis using UpdateLastSyncedDate_keeps(2) [OF upd] by (simp add: p_def)
  qed
  moreover have "accounted w' p (m # later) m"
    if "\<not> is_stale (clock (w_tick w2)) m" "Status m = Finished" "ms = earlier @ m # later" for m earlier later
  proof -
    define fresh where "fresh = filter (\<lambda>m. \<not> is_stale (clock (w_tick w2)) m)"
    have "filtered = fresh earlier @ m # fresh later" using that fl by (simp add: fresh_def)
    then have "accounted (SaveMatches e filtered p w3) p (m # fresh later) m"
      using SaveMatches_accounts_split [OF that(2)] by simp
    then have "accounted (SaveMatches e filtered p w3) p (m # later) m"
      by (rule accounted_mono) (auto simp: fresh_def)
    then show ?thesis using UpdateLastSyncedDate_keeps(1) [OF upd] by (simp add: p_def)
  qed
  moreover have "last_synced (w_db w') c p = Some (ts_value e q)"
    if "m \<in> set ms" "\<not> is_stale (clock (w_tick w2)) m" "Status m \<noteq> Finished" for m
  proof -
    have "hasInProgressMatches filtered" using that fl by (auto simp: hasInProgressMatches_iff)
    then show ?thesis
      using UpdateLastSyncedDate_ok [OF upd] by (simp add: p_def next_sync_date_def qq)
  qed
  ultimately show ?thesis using fetch qq by auto
qed

end

lemma parse_provider_source: "parse_provider e s = Some src \<Longrightarrow> data_source src (keccak e)"
  by (auto simp: parse_provider_def Let_def football_org.data_source_axioms apifootball.data_source_axioms
      split: if_splits)

lemma Sync_cases:
  assumes "Sync e provider competition clock w = (r, w')"
  obtains (refused) er where "r = Inl er" "w' = w"
    "\<And>f. er \<noteq> FetchMatchesFailed f" "\<And>f. er \<noteq> UpdateDateFailed f"
  | (run) c src where "parse_competition competition = Some c" "parse_provider e provider = Some src"
    "ValidateCompetition src c = Inr ()" "sync_with e src c clock w = (r, w')"
  using assms by (auto simp: Sync_def split: option.splits sum.splits)

lemma parse_competition_known: "parse_competition s = Some c \<Longrightarrow> known_competition c"
  by (auto simp: parse_competition_def known_competition_def Let_def split: if_splits)

lemma Sync_invariant:
  assumes "Sync e provider competition clock w = (r, w')" and "I (w_db w)"
    and "\<And>m p w. delivered (keccak e) p m \<Longrightarrow> known_competition (CompetitionID m) \<Longrightarrow> Status m = Finished \<Longrightarrow>
      I (w_db w) \<Longrightarrow> I (w_db (snd (Save e m w)))"
    and "\<And>pmid p w. I (w_db w) \<Longrightarrow> I (w_db (snd (SaveToReconciliationQueue e pmid p w)))"
    and "\<And>c p d w. I (w_db w) \<Longrightarrow> I (w_db (snd (UpdateLastSyncedDate e c p d w)))"
  shows "I (w_db w')"
  using assms(1)
proof (cases rule: Sync_cases)
  case (run c src)
  have "known_competition c" by (rule parse_competition_known [OF run(1)])
  then have "I (w_db (snd (sync_with e src c clock w)))"
    by (intro data_source.sync_invariant [where I = I, OF parse_provider_source [OF run(2)]]) (use assms in auto)
  with run(4) show ?thesis by simp
qed (use assms(2) in simp)

section \<open>Properties\<close>

text \<open>A run against a source that answers with one finished match, and the row it leaves.\<close>

definition synced_row :: match_row where
  "synced_row =
     \<lparr>row_id = 3, row_canonical_id = ''0000000100000010000000040135024300000000000000000000000000000000'',
      row_home_team_id = 16, row_away_team_id = 4, row_start = \<lparr>unix_ns = 1764792000000000000, zone_off = 0\<rparr>,
      row_end = \<lparr>unix_ns = 1764799200000000000, zone_off = 0\<rparr>, row_status = 3, row_home_team_score = 2,
      row_away_team_score = 1, row_provider_match_id = ''7'', row_competition_id = 1, row_provider = 1,
      row_signature = None, row_updated_at = None, row_transaction_hash = None, row_created_at = epoch\<rparr>"

lemma sample_sync:
  "fst (Sync sample_env ''football_org'' ''la_liga'' (SystemClock sample_env) (start_world empty_tables)) = Inr ()"
  "matches (w_db (snd (Sync sample_env ''football_org'' ''la_liga'' (SystemClock sample_env)
     (start_world empty_tables)))) = [synced_row]"
proof -
  have "map_prod id (\<lambda>w. matches (w_db w)) (Sync sample_env ''football_org'' ''la_liga'' (SystemClock sample_env)
      (start_world empty_tables)) = (Inr (), [synced_row])" by code_simp
  then show "fst (Sync sample_env ''football_org'' ''la_liga'' (SystemClock sample_env) (start_world empty_tables)) = Inr ()"
    "matches (w_db (snd (Sync sample_env ''football_org'' ''la_liga'' (SystemClock sample_env)
      (start_world empty_tables)))) = [synced_row]"
    by (auto simp: map_prod_def split: prod.splits)
qed

text \<open>
  C15: A sync that succeeds accounts for every match the data source delivered for the queried day:
  a stale one is handed over to the queue (or an error names it), a final one is saved, itself or
  overwritten by a later one of the response with its key (or queued, or an error names it), and if
  any other is left, the stored date stays on the queried day.
\<close>

theorem Sync_accounts:
  assumes "Sync e provider competition clock w = (Inr (), w')"
  shows "\<exists>c src q ms w2. parse_competition competition = Some c \<and> parse_provider e provider = Some src \<and>
    q = query_day (w_db w) c (GetProviderEntity src) (utc_midnight (clock (w_tick w))) \<and>
    FetchMatches src c q (time_add q (hours 24)) (tick (tick w)) = (Inr ms, w2) \<and>
    (\<forall>m \<in> set ms.
       if is_stale (clock (w_tick w2)) m then handed_over w' (GetProviderEntity src) m
       else if Status m = Finished
         then \<forall>earlier later. ms = earlier @ m # later \<longrightarrow> accounted w' (GetProviderEntity src) (m # later) m
       else last_synced (w_db w') c (GetProviderEntity src) = Some (ts_value e q))"
  using assms
proof (cases rule: Sync_cases)
  case (run c src)
  show ?thesis
    using data_source.sync_accounts [OF parse_provider_source [OF run(2)] run(4)] run(1,2) by blast
qed simp

theorem Sync_accounts_witness:
  "fst (Sync sample_env ''football_org'' ''la_liga'' (SystemClock sample_env) (start_world empty_tables)) = Inr () \<and>
   (\<exists>src ms w2. parse_provider sample_env ''football_org'' = Some src \<and>
      (\<exists>q. FetchMatches src LaLiga q (time_add q (hours 24)) (tick (tick (start_world empty_tables))) = (Inr ms, w2)))"
proof -
  let ?run = "Sync sample_env ''football_org'' ''la_liga'' (SystemClock sample_env) (start_world empty_tables)"
  have ok: "fst ?run = Inr ()" by (rule sample_sync)
  have "parse_competition ''la_liga'' = Some LaLiga" by code_simp
  with Sync_accounts [of sample_env "''football_org''" "''la_liga''" "SystemClock sample_env" "start_world empty_tables"
      "snd ?run"] ok show ?thesis by (auto simp: prod_eq_iff)
qed

text \<open>
  C16: A sync that succeeds stores a UTC midnight that is not before the day it queried, not after
  today, and at most one day further than the day it queried.
\<close>

theorem Sync_date:
  assumes "Sync e provider competition clock w = (Inr (), w')"
  shows "\<exists>c src q d. parse_competition competition = Some c \<and> parse_provider e provider = Some src \<and>
    q = query_day (w_db w) c (GetProviderEntity src) (utc_midnight (clock (w_tick w))) \<and>
    last_synced (w_db w') c (GetProviderEntity src) = Some (ts_value e d) \<and> utc_midnight d = d \<and>
    unix_ns q \<le> unix_ns d \<and> unix_ns d \<le> unix_ns (utc_midnight (clock (w_tick w))) \<and>
    (d = q \<or> d = time_add q (hours 24))"
  using assms
proof (cases rule: Sync_cases)
  case (run c src)
  show ?thesis
    using data_source.sync_date [OF parse_provider_source [OF run(2)] run(4)] run(1,2) by blast
qed simp

theorem Sync_date_witness:
  "\<exists>p d. last_synced (w_db (snd (Sync sample_env ''football_org'' ''la_liga'' (SystemClock sample_env)
     (start_world empty_tables)))) LaLiga p = Some d \<and> utc_midnight d = d"
proof -
  let ?run = "Sync sample_env ''football_org'' ''la_liga'' (SystemClock sample_env) (start_world empty_tables)"
  have "fst ?run = Inr ()" by (rule sample_sync)
  then have run: "?run = (Inr (), snd ?run)" by (simp add: prod_eq_iff)
  have "parse_competition ''la_liga'' = Some LaLiga" by code_simp
  moreover have "ts_value sample_env d = d" for d by (simp add: sample_env_def quiet_env_def)
  ultimately show ?thesis using Sync_date [OF run] by auto
qed

text \<open>
  C37: A sync that fails before it stores the date (bad arguments, the date query, the fetch) leaves
  the tables as they were, so the next run starts from the same day.
\<close>

theorem Sync_failure_keeps_tables:
  assumes "Sync e provider competition clock w = (Inl er, w')" and "\<And>f. er \<noteq> UpdateDateFailed f"
  shows "w_db w' = w_db w"
  using assms(1)
proof (cases rule: Sync_cases)
  case (run c src)
  let ?t = "utc_midnight (clock (w_tick w))" and ?p = "GetProviderEntity src"
  from run(4) assms(2) have "er \<noteq> FilterFailed f" for f
    by (auto simp: sync_with_def Let_def filterStaleMatches_eq split: prod.splits sum.splits)
  with run(4) assms(2) consider (query) f where "er = QueryDateFailed f" "w' = snd (getQueryDate e c ?t ?p (tick w))"
    | (fetch) f where "er = FetchMatchesFailed f"
    by (auto simp: sync_with_def Let_def filterStaleMatches_eq split: prod.splits sum.splits)
  then show ?thesis
  proof cases
    case query
    then show ?thesis by (simp add: frame_simps)
  next
    case fetch
    with data_source.sync_fetch_error [OF parse_provider_source [OF run(2)]] run(4) show ?thesis by blast
  qed
qed simp

theorem Sync_failure_keeps_tables_witness:
  "fst (Sync quiet_env ''apifootball'' ''championship'' (SystemClock quiet_env) (start_world sample_queue)) =
     Inl (FetchMatchesFailed TransportError) \<and>
   w_db (snd (Sync quiet_env ''apifootball'' ''championship'' (SystemClock quiet_env) (start_world sample_queue))) =
     sample_queue"
proof -
  let ?run = "Sync quiet_env ''apifootball'' ''championship'' (SystemClock quiet_env) (start_world sample_queue)"
  have f: "fst ?run = Inl (FetchMatchesFailed TransportError)" by code_simp
  then have "?run = (Inl (FetchMatchesFailed TransportError), snd ?run)" by (simp add: prod_eq_iff)
  from Sync_failure_keeps_tables [OF this] f show ?thesis by (simp add: start_world_def)
qed

text \<open>
  The stale filter never fails; it returns exactly the matches that are final or started less
  than six hours ago, in order, and each of the others ends up in the reconciliation queue or in an
  error message.
\<close>

theorem filterStaleMatches_partition:
  "fst (filterStaleMatches e ms p now w) =
     Inr (filter (\<lambda>m. Status m = Finished \<or> unix_ns now - hours 6 \<le> unix_ns (Start m)) ms) \<and>
   (\<forall>m \<in> set ms. \<not> (Status m = Finished \<or> unix_ns now - hours 6 \<le> unix_ns (Start m)) \<longrightarrow>
      handed_over (snd (filterStaleMatches e ms p now w)) p m)"
proof -
  have stale: "is_stale now m \<longleftrightarrow> \<not> (Status m = Finished \<or> unix_ns now - hours 6 \<le> unix_ns (Start m))" for m
    by (auto simp: is_stale_def time_before_def time_add_def STALE_MATCH_THRESHOLD_def)
  have "handed_over (snd (filterStaleMatches e ms p now w)) p m" if "m \<in> set ms" "is_stale now m" for m
    unfolding filterStaleMatches_eq snd_conv by (rule fold_queue_stale_hands_over) (use that in simp)
  moreover have "(\<lambda>m. \<not> is_stale now m) = (\<lambda>m. Status m = Finished \<or> unix_ns now - hours 6 \<le> unix_ns (Start m))"
    using stale by blast
  ultimately show ?thesis using stale by (simp add: filterStaleMatches_eq)
qed

theorem filterStaleMatches_partition_witness:
  "queued (w_db (snd (filterStaleMatches quiet_env [sample_match\<lparr>Status := Pending\<rparr>] FootballOrg
     (time_add epoch (hours 7)) (start_world empty_tables)))) ''7'' FootballOrg"
proof -
  let ?m = "sample_match\<lparr>Status := Pending\<rparr>"
  let ?w = "snd (filterStaleMatches quiet_env [?m] FootballOrg (time_add epoch (hours 7)) (start_world empty_tables))"
  have log: "w_log ?w = []" by code_simp
  have m: "Status ?m \<noteq> Finished" "Start ?m = epoch" "ProviderMatchID ?m = ''7''"
    by (simp_all add: sample_match_def Pending_def Finished_def)
  have "\<not> unix_ns (time_add epoch (hours 7)) - hours 6 \<le> unix_ns epoch" by code_simp
  with filterStaleMatches_partition [of quiet_env "[?m]" FootballOrg "time_add epoch (hours 7)" "start_world empty_tables"]
    m have "handed_over ?w FootballOrg ?m" by simp
  with log m(3) show ?thesis by (simp add: handed_over_def)
qed

text \<open>
  C38: Whatever either data source delivers for a competition carries that competition and the
  source's own provider number, a canonical identifier that is the one of its own fields, one of the
  three statuses, two teams the provider has a number for, and an end two hours after the start.
\<close>

theorem sources_deliver:
  assumes "parse_provider e s = Some src" and "fst (FetchMatches src c from_t to_t w) = Inr ms" and "m \<in> set ms"
  shows "CompetitionID m = c \<and> Provider m = GetProviderEntity src \<and>
    generateMatchID (keccak e) c (HomeTeamID m) (AwayTeamID m) (Start m) = Inr (CanonicalID m) \<and>
    Status m \<in> {Pending, InProgress, Finished} \<and> HomeTeamID m \<in> {1..64} \<and> AwayTeamID m \<in> {1..64} \<and>
    End m = time_add (Start m) (hours 2)"
  using data_source.fetch_delivered [OF parse_provider_source [OF assms(1)] assms(2,3)]
  by (auto simp: delivered_def wf_match_def known_team_range)

theorem sources_deliver_witness:
  "\<exists>m. fst (FetchMatches (football_org sample_env) LaLiga epoch epoch (start_world empty_tables)) = Inr [m] \<and>
     Provider m = FootballOrg \<and> CompetitionID m = LaLiga"
proof -
  let ?f = "fst (FetchMatches (football_org sample_env) LaLiga epoch epoch (start_world empty_tables))"
  have "(case ?f of Inl _ \<Rightarrow> False | Inr ms \<Rightarrow> length ms = 1)" by code_simp
  then obtain m where m: "?f = Inr [m]" by (cases ?f) (auto simp: length_Suc_conv)
  have "parse_provider sample_env ''football_org'' = Some (football_org sample_env)"
    by (simp add: parse_provider_def to_lower_def) code_simp
  from sources_deliver [OF this m] m show ?thesis by simp
qed

text \<open>
  Rebuilding a UTC time from its year, month and day gives the midnight at or before it, less
  than a day earlier, on the same date.
\<close>

theorem utc_midnight_floor:
  assumes "zone_off t = 0"
  shows "date_of (utc_midnight t) = date_of t \<and> unix_ns (utc_midnight t) \<le> unix_ns t \<and>
    unix_ns t < unix_ns (utc_midnight t) + hours 24"
proof -
  have "date_of (utc_midnight t) = date_of t"
    by (simp add: date_of_def utc_midnight_eq local_ns_def day_ns_def second_ns_def)
  moreover have "unix_ns t < unix_ns t div day_ns * day_ns + day_ns"
    using div_bounds [of day_ns "unix_ns t"] by (simp add: day_ns_def second_ns_def mult.commute)
  ultimately show ?thesis
    using assms utc_midnight_le [OF assms] by (simp add: utc_midnight_eq local_ns_def hours_24)
qed

theorem utc_midnight_floor_witness:
  "date_of (utc_midnight \<lparr>unix_ns = hours 30, zone_off = 0\<rparr>) = (1970, 1, 2)"
proof -
  have "date_of \<lparr>unix_ns = hours 30, zone_off = 0\<rparr> = (1970, 1, 2)" by code_simp
  with utc_midnight_floor [of "\<lparr>unix_ns = hours 30, zone_off = 0\<rparr>"] show ?thesis by simp
qed

end
