(* ===== verification/Reconcile.thy ===== *)
theory Reconcile
  imports Sync
begin

text \<open>
  The reconcile service of the provider (\<open>src/provider/internal/service/reconcile.go\<close>): batches of
  pending entries are fetched again one by one until nothing is pending or the context is done. The
  outer loop has no bound of its own, so it is a partial function; not returning is \<open>None\<close>.
\<close>

section \<open>The code\<close>

definition RECONCILE_BATCH_SIZE :: nat where "RECONCILE_BATCH_SIZE = 10"
definition RECONCILE_MAX_TRIES :: int where "RECONCILE_MAX_TRIES = 5"
definition RECONCILE_REQUEST_DELAY :: duration where "RECONCILE_REQUEST_DELAY = seconds 7"
definition RECONCILE_CONTEXT_TIMEOUT :: duration where "RECONCILE_CONTEXT_TIMEOUT = minutes 2"

datatype reconcile_error = PendingFailed repo_error | ContextDone

definition getProviderForReconcile ::
  "'z provider_env_scheme \<Rightarrow> Provider \<Rightarrow> (unit, ReconcileProvider) result" where
  "getProviderForReconcile e provider =
     (if provider = FootballOrg then Inr (football_org e)
      else if provider = APIFootball then Inr (apifootball e)
      else Inl ())"

definition incrementTries :: "'z db_env_scheme \<Rightarrow> ReconciliationEntry \<Rightarrow> world \<Rightarrow> world" where
  "incrementTries e entry w =
     (case IncrementTries e (EntryID entry) w of
        (Inl incErr, w') \<Rightarrow>
          log_event (SlogError ''failed to increment tries for reconciliation entry''
                       (EntryProviderMatchID entry)) w'
      | (Inr _, w') \<Rightarrow> w')"

definition saveAndRemoveFromQueue ::
  "'z db_env_scheme \<Rightarrow> Match \<Rightarrow> uuid \<Rightarrow> world \<Rightarrow> (repo_error, unit) result \<times> world" where
  "saveAndRemoveFromQueue e m entryID w =
     (case BeginTx e w of
        (Inl err, w1) \<Rightarrow> (Inl err, w1)
      | (Inr tx, w1) \<Rightarrow>
          (case SaveInTx e m (tx, w1) of
             (Inl err, _, w2) \<Rightarrow> (Inl err, w2)
           | (Inr _, tx2, w2) \<Rightarrow>
               (case MarkReconciled e entryID (tx2, w2) of
                  (Inl err, _, w3) \<Rightarrow> (Inl err, w3)
                | (Inr _, tx3, w3) \<Rightarrow> check_err CommitError (tx_commit e (tx3, w3)))))"

text \<open>The body of the inner loop after the context checks.\<close>

definition reconcile_entry :: "'z provider_env_scheme \<Rightarrow> ReconciliationEntry \<Rightarrow> world \<Rightarrow> world" where
  "reconcile_entry e entry w =
     (case getProviderForReconcile e (EntryProvider entry) of
        Inl _ \<Rightarrow>
          incrementTries e entry
            (log_event (SlogError ''unable to get provider for reconciliation. manual intervention required.''
                          (EntryProviderMatchID entry)) w)
      | Inr reconcileProvider \<Rightarrow>
          (case FetchMatchByID reconcileProvider (EntryProviderMatchID entry) w of
             (Inl err, w1) \<Rightarrow> incrementTries e entry w1
           | (Inr m, w1) \<Rightarrow>
               if Status m \<noteq> Finished then incrementTries e entry w1
               else (case saveAndRemoveFromQueue e m (EntryID entry) w1 of
                       (Inl err, w2) \<Rightarrow>
                         log_event (SlogError ''failed to save reconciled match'' (EntryProviderMatchID entry)) w2
                     | (Inr _, w2) \<Rightarrow> w2)))"

text \<open>
  The inner loop. Both \<open>select\<close> statements look at the context; the second one is entered for every
  entry but the first of the batch and waits for the request delay.
\<close>

fun reconcile_batch ::
  "'z provider_env_scheme \<Rightarrow> nat \<Rightarrow> ReconciliationEntry list \<Rightarrow> world \<Rightarrow> (reconcile_error, unit) result \<times> world" where
  "reconcile_batch e i [] w = (Inr (), w)"
| "reconcile_batch e i (entry # entries) w =
     (if ctx_done e (w_tick w) then (Inl ContextDone, tick w)
      else if 0 < i then
        (if ctx_done e (w_tick (tick w)) then (Inl ContextDone, tick (tick w))
         else reconcile_batch e (Suc i) entries
                (reconcile_entry e entry (log_event (Sleep RECONCILE_REQUEST_DELAY) (tick (tick w)))))
      else reconcile_batch e (Suc i) entries (reconcile_entry e entry (tick w)))"

partial_function (option) Reconcile ::
  "'z provider_env_scheme \<Rightarrow> world \<Rightarrow> ((reconcile_error, unit) result \<times> world) option" where
  "Reconcile e w =
     (case GetPendingReconciliations e RECONCILE_BATCH_SIZE RECONCILE_MAX_TRIES w of (r, w1) \<Rightarrow>
        (case r of
           Inl err \<Rightarrow> Some (Inl (PendingFailed err), w1)
         | Inr entries \<Rightarrow>
             if entries = [] then Some (Inr (), w1)
             else (case reconcile_batch e 0 entries w1 of (r2, w2) \<Rightarrow>
                     (case r2 of Inl err \<Rightarrow> Some (Inl err, w2) | Inr _ \<Rightarrow> Reconcile e w2))))"

text \<open>What a run that returned has gone through, as a rule for properties of its result.\<close>

lemma Reconcile_rule:
  assumes "Reconcile e w = Some rw" and "I w"
    and "\<And>w err w1. I w \<Longrightarrow>
      GetPendingReconciliations e RECONCILE_BATCH_SIZE RECONCILE_MAX_TRIES w = (Inl err, w1) \<Longrightarrow>
      Q (Inl (PendingFailed err), w1)"
    and "\<And>w w1. I w \<Longrightarrow>
      GetPendingReconciliations e RECONCILE_BATCH_SIZE RECONCILE_MAX_TRIES w = (Inr [], w1) \<Longrightarrow> Q (Inr (), w1)"
    and "\<And>w es w1 err w2. I w \<Longrightarrow>
      GetPendingReconciliations e RECONCILE_BATCH_SIZE RECONCILE_MAX_TRIES w = (Inr es, w1) \<Longrightarrow>
      reconcile_batch e 0 es w1 = (Inl err, w2) \<Longrightarrow> Q (Inl err, w2)"
    and "\<And>w es w1 w2. I w \<Longrightarrow>
      GetPendingReconciliations e RECONCILE_BATCH_SIZE RECONCILE_MAX_TRIES w = (Inr es, w1) \<Longrightarrow> es \<noteq> [] \<Longrightarrow>
      reconcile_batch e 0 es w1 = (Inr (), w2) \<Longrightarrow> I w2"
  shows "Q rw"
proof -
  let ?get = "GetPendingReconciliations e RECONCILE_BATCH_SIZE RECONCILE_MAX_TRIES"
  let ?P = "\<lambda>e' w rw. e' = e \<longrightarrow> I w \<longrightarrow> Q rw"
  have "?P e w rw"
  proof (rule Reconcile.raw_induct [where P = ?P, OF _ assms(1)], intro impI)
    fix loop e' w rw
    assume IH: "\<And>e' w rw. loop e' w = Some rw \<Longrightarrow> ?P e' w rw" and "e' = e" and I: "I w"
      and body: "(case GetPendingReconciliations e' RECONCILE_BATCH_SIZE RECONCILE_MAX_TRIES w of (r, w1) \<Rightarrow>
        (case r of
           Inl err \<Rightarrow> Some (Inl (PendingFailed err), w1)
         | Inr entries \<Rightarrow>
             if entries = [] then Some (Inr (), w1)
             else (case reconcile_batch e' 0 entries w1 of (r2, w2) \<Rightarrow>
                     (case r2 of Inl err \<Rightarrow> Some (Inl err, w2) | Inr _ \<Rightarrow> loop e' w2)))) = Some rw"
    obtain r w1 where get: "?get w = (r, w1)" by (cases "?get w")
    show "Q rw"
    proof (cases r)
      case (Inl err)
      with body get \<open>e' = e\<close> assms(3) [OF I] show ?thesis by auto
    next
      case (Inr es)
      obtain r2 w2 where batch: "reconcile_batch e 0 es w1 = (r2, w2)" by (cases "reconcile_batch e 0 es w1")
      consider "es = []" | err where "es \<noteq> []" "r2 = Inl err" | "es \<noteq> []" "r2 = Inr ()" by (cases r2) auto
      then show ?thesis
      proof cases
        case 1
        with body get Inr \<open>e' = e\<close> assms(4) [OF I] show ?thesis by auto
      next
        case 2
        with body get Inr batch \<open>e' = e\<close> assms(5) [OF I] show ?thesis by auto
      next
        case 3
        with body get Inr batch \<open>e' = e\<close> have "loop e w2 = Some rw" by simp
        moreover have "I w2" using assms(6) [OF I] get Inr batch 3 by simp
        ultimately show ?thesis using IH by simp
      qed
    qed
  qed
  with assms(2) show ?thesis by simp
qed

section \<open>Termination under the context deadline\<close>

lemma incrementTries_tick: "w_tick (incrementTries e entry w) = Suc (w_tick w)"
  using IncrementTries_frame(1) [of e "EntryID entry" w]
  by (auto simp: incrementTries_def split: prod.split sum.split)

lemma SaveInTx_tick: "w_tick (snd (snd (SaveInTx e m (tx, w)))) = Suc (w_tick w)"
  by (simp add: SaveInTx_def frame_simps)

lemma MarkReconciled_tick: "w_tick (snd (snd (MarkReconciled e i (tx, w)))) = Suc (w_tick w)"
  by (simp add: MarkReconciled_def frame_simps)

lemma saveAndRemoveFromQueue_tick: "w_tick w \<le> w_tick (snd (saveAndRemoveFromQueue e m i w))"
proof -
  obtain r1 w1 where 1: "BeginTx e w = (r1, w1)" by (cases "BeginTx e w")
  have t1: "w_tick w \<le> w_tick w1" using BeginTx_frame(1) [of e w] 1 by simp
  show ?thesis
  proof (cases r1)
    case (Inl er)
    with 1 t1 show ?thesis by (simp add: saveAndRemoveFromQueue_def)
  next
    case (Inr tx)
    obtain r2 tx2 w2 where 2: "SaveInTx e m (tx, w1) = (r2, tx2, w2)" by (metis prod_cases3)
    have t2: "w_tick w1 \<le> w_tick w2" using SaveInTx_tick [of e m tx w1] 2 by simp
    obtain r3 tx3 w3 where 3: "MarkReconciled e i (tx2, w2) = (r3, tx3, w3)" by (metis prod_cases3)
    have t3: "w_tick w2 \<le> w_tick w3" using MarkReconciled_tick [of e i tx2 w2] 3 by simp
    from 1 2 3 t1 t2 t3 Inr show ?thesis
      by (cases r2; cases r3) (simp_all add: saveAndRemoveFromQueue_def frame_simps)
  qed
qed

lemma getProvider_source: "getProviderForReconcile e p = Inr src \<Longrightarrow> data_source src (keccak e)"
  by (auto simp: getProviderForReconcile_def football_org.data_source_axioms apifootball.data_source_axioms
      split: if_splits)

text \<open>The four ways one entry can go.\<close>

lemma reconcile_entry_cases:
  obtains (unknown) "getProviderForReconcile e (EntryProvider entry) = Inl ()"
      "reconcile_entry e entry w = incrementTries e entry
         (log_event (SlogError ''unable to get provider for reconciliation. manual intervention required.''
                          (EntryProviderMatchID entry)) w)"
  | (retry) src r w1 where "getProviderForReconcile e (EntryProvider entry) = Inr src"
      "FetchMatchByID src (EntryProviderMatchID entry) w = (r, w1)"
      "\<And>m. r = Inr m \<Longrightarrow> Status m \<noteq> Finished"
      "w_db w1 = w_db w" "w_tick w < w_tick w1" "reconcile_entry e entry w = incrementTries e entry w1"
  | (saved) src m w1 w2 where "getProviderForReconcile e (EntryProvider entry) = Inr src"
      "FetchMatchByID src (EntryProviderMatchID entry) w = (Inr m, w1)" "Status m = Finished"
      "w_db w1 = w_db w" "w_tick w < w_tick w1"
      "saveAndRemoveFromQueue e m (EntryID entry) w1 = (Inr (), w2)" "reconcile_entry e entry w = w2"
  | (failed) src m w1 err w2 where "getProviderForReconcile e (EntryProvider entry) = Inr src"
      "FetchMatchByID src (EntryProviderMatchID entry) w = (Inr m, w1)" "Status m = Finished"
      "w_db w1 = w_db w" "w_tick w < w_tick w1"
      "saveAndRemoveFromQueue e m (EntryID entry) w1 = (Inl err, w2)"
      "reconcile_entry e entry w =
         log_event (SlogError ''failed to save reconciled match'' (EntryProviderMatchID entry)) w2"
proof (cases "getProviderForReconcile e (EntryProvider entry)")
  case (Inl u)
  with unknown show thesis by (simp add: reconcile_entry_def)
next
  case (Inr src)
  note ds = getProvider_source [OF Inr]
  obtain r w1 where f: "FetchMatchByID src (EntryProviderMatchID entry) w = (r, w1)"
    by (cases "FetchMatchByID src (EntryProviderMatchID entry) w")
  have w1: "w_db w1 = w_db w" "w_tick w < w_tick w1"
    using data_source.by_id_db [OF ds, of "EntryProviderMatchID entry" w]
      data_source.by_id_tick [OF ds, of w "EntryProviderMatchID entry"] f by simp_all
  show thesis
  proof (cases "\<exists>m. r = Inr m \<and> Status m = Finished")
    case False
    then have "\<And>m. r = Inr m \<Longrightarrow> Status m \<noteq> Finished" by blast
    moreover have "reconcile_entry e entry w = incrementTries e entry w1"
      using Inr f False by (cases r) (auto simp: reconcile_entry_def)
    ultimately show ?thesis using retry [OF Inr f _ w1] by blast
  next
    case True
    then obtain m where m: "r = Inr m" "Status m = Finished" by blast
    obtain r2 w2 where s: "saveAndRemoveFromQueue e m (EntryID entry) w1 = (r2, w2)"
      by (cases "saveAndRemoveFromQueue e m (EntryID entry) w1")
    show ?thesis
    proof (cases r2)
      case (Inl er)
      then show ?thesis using failed [OF Inr f [unfolded m(1)] m(2) w1] s Inr f m by (simp add: reconcile_entry_def)
    next
      case (Inr u)
      then show ?thesis
        using saved [OF \<open>getProviderForReconcile e (EntryProvider entry) = Inr src\<close> f [unfolded m(1)] m(2) w1] s f m
          \<open>getProviderForReconcile e (EntryProvider entry) = Inr src\<close> by (simp add: reconcile_entry_def)
    qed
  qed
qed

lemma reconcile_entry_tick: "w_tick w < w_tick (reconcile_entry e entry w)"
proof (cases rule: reconcile_entry_cases [where e = e and entry = entry and w = w])
  case (saved src m w1 w2)
  then show ?thesis using saveAndRemoveFromQueue_tick [of w1 e m "EntryID entry"] by simp
next
  case (failed src m w1 err w2)
  then show ?thesis using saveAndRemoveFromQueue_tick [of w1 e m "EntryID entry"] by simp
qed (simp_all add: incrementTries_tick)

lemma reconcile_batch_tick:
  "w_tick w \<le> w_tick (snd (reconcile_batch e i es w)) \<and>
   (es \<noteq> [] \<longrightarrow> w_tick w < w_tick (snd (reconcile_batch e i es w)))"
proof (induction es arbitrary: i w)
  case Nil
  then show ?case by simp
next
  case (Cons en es)
  have step: "w_tick w < w_tick (snd (reconcile_batch e (Suc i) es (reconcile_entry e en w')))"
    if "w_tick w < w_tick w'" for w'
  proof -
    have "w_tick w < w_tick (reconcile_entry e en w')"
      using that reconcile_entry_tick [of w' e en] by simp
    also have "\<dots> \<le> w_tick (snd (reconcile_batch e (Suc i) es (reconcile_entry e en w')))"
      using Cons.IH by simp
    finally show ?thesis .
  qed
  have "w_tick w < w_tick (snd (reconcile_batch e i (en # es) w))"
    using step [of "tick w"] step [of "log_event (Sleep RECONCILE_REQUEST_DELAY) (tick (tick w))"] by auto
  then show ?case by simp
qed

lemma reconcile_batch_done:
  "ctx_done e (w_tick w) \<Longrightarrow> es \<noteq> [] \<Longrightarrow> reconcile_batch e i es w = (Inl ContextDone, tick w)"
  by (cases es) simp_all

text \<open>Once the deadline has passed for good, the loop stops at the next look at the context.\<close>

lemma Reconcile_returns_by:
  assumes "\<And>n. N \<le> n \<Longrightarrow> ctx_done e n"
  shows "\<exists>rw. Reconcile e w = Some rw"
proof (induction "Suc N - w_tick w" arbitrary: w rule: less_induct)
  case less
  obtain r w1 where get: "GetPendingReconciliations e RECONCILE_BATCH_SIZE RECONCILE_MAX_TRIES w = (r, w1)"
    by (cases "GetPendingReconciliations e RECONCILE_BATCH_SIZE RECONCILE_MAX_TRIES w")
  have w1: "w_tick w1 = Suc (w_tick w)"
    using GetPendingReconciliations_frame(1) [of e RECONCILE_BATCH_SIZE RECONCILE_MAX_TRIES w] get by simp
  show ?case
  proof (cases "\<exists>es. r = Inr es \<and> es \<noteq> []")
    case False
    with get show ?thesis by (cases r) (simp_all add: Reconcile.simps [of e w])
  next
    case True
    then obtain es where es: "r = Inr es" "es \<noteq> []" by blast
    obtain r2 w2 where b: "reconcile_batch e 0 es w1 = (r2, w2)" by (cases "reconcile_batch e 0 es w1")
    show ?thesis
    proof (cases r2)
      case (Inl er)
      with get es b show ?thesis by (simp add: Reconcile.simps [of e w])
    next
      case (Inr u)
      have early: "w_tick w1 < N"
      proof (rule ccontr)
        assume "\<not> w_tick w1 < N"
        with assms have "ctx_done e (w_tick w1)" by simp
        with reconcile_batch_done [of e w1 es 0] es b Inr show False by simp
      qed
      have "w_tick w1 \<le> w_tick w2" using reconcile_batch_tick [of w1 e 0 es] b by simp
      with early w1 have "Suc N - w_tick w2 < Suc N - w_tick w" by simp
      from less [OF this] get es b Inr show ?thesis by (simp add: Reconcile.simps [of e w])
    qed
  qed
qed

section \<open>What one entry does to the tables\<close>

definition increment_row :: "go_time \<Rightarrow> recon_row \<Rightarrow> recon_row" where
  "increment_row now r = r\<lparr>rr_tries := rr_tries r + 1, rr_reconciled_at := Some now\<rparr>"

definition bump_queue :: "go_time \<Rightarrow> uuid \<Rightarrow> recon_row list \<Rightarrow> recon_row list" where
  "bump_queue now i q = map (\<lambda>r. if rr_id r = i then increment_row now r else r) q"

definition drop_queue :: "uuid \<Rightarrow> recon_row list \<Rightarrow> recon_row list" where
  "drop_queue i q = filter (\<lambda>r. rr_id r \<noteq> i) q"

text \<open>The match is written and its entry removed, both.\<close>

definition saved_and_removed :: "'z db_env_scheme \<Rightarrow> go_time \<Rightarrow> Match \<Rightarrow> uuid \<Rightarrow> tables \<Rightarrow> tables \<Rightarrow> bool" where
  "saved_and_removed e now m i t t' \<longleftrightarrow>
     (\<exists>n t1. upsert_match now (match_to_row e m) t = Inr (n, t1) \<and>
        t' = t1\<lparr>match_reconciliation := drop_queue i (match_reconciliation t)\<rparr>)"

lemma saveAndRemoveFromQueue_db:
  assumes "saveAndRemoveFromQueue e m i w = (r, w')"
  shows "w_db w' = w_db w \<and> r \<noteq> Inr () \<or> saved_and_removed e (db_now e (Suc (w_tick w))) m i (w_db w) (w_db w')"
proof -
  obtain r1 w1 where 1: "BeginTx e w = (r1, w1)" by (cases "BeginTx e w")
  have w1: "w_tick w1 = Suc (w_tick w)" "w_db w1 = w_db w" using BeginTx_frame [of e w] 1 by simp_all
  show ?thesis
  proof (cases r1)
    case (Inl er)
    with 1 w1 assms show ?thesis by (auto simp: saveAndRemoveFromQueue_def)
  next
    case (Inr tx)
    with BeginTx_ok [of e w tx] 1 have tx: "tx = w_db w" by simp
    obtain r2 tx2 w2 where 2: "SaveInTx e m (tx, w1) = (r2, tx2, w2)" by (metis prod_cases3)
    have w2: "w_db w2 = w_db w" and up: "r2 = Inr () \<Longrightarrow>
        \<exists>n. upsert_match (db_now e (Suc (w_tick w))) (match_to_row e m) (w_db w) = Inr (n, tx2)"
      using 2 w1 tx by (auto simp: SaveInTx_def check_err_def tx_exec_def split: prod.splits sum.splits if_splits)
    obtain r3 tx3 w3 where 3: "MarkReconciled e i (tx2, w2) = (r3, tx3, w3)" by (metis prod_cases3)
    have w3: "w_db w3 = w_db w" and del: "r3 = Inr () \<Longrightarrow>
        tx3 = tx2\<lparr>match_reconciliation := drop_queue i (match_reconciliation tx2)\<rparr>"
      using 3 w2 by (auto simp: MarkReconciled_def check_err_def tx_exec_def delete_recon_def drop_queue_def
          split: prod.splits sum.splits if_splits)
    show ?thesis
    proof (cases "r2 = Inr () \<and> r3 = Inr ()")
      case False
      with 1 2 3 Inr w2 w3 assms show ?thesis
        by (cases r2; cases r3) (auto simp: saveAndRemoveFromQueue_def)
    next
      case True
      with up obtain n where n: "upsert_match (db_now e (Suc (w_tick w))) (match_to_row e m) (w_db w) = Inr (n, tx2)"
        by blast
      have sr: "saved_and_removed e (db_now e (Suc (w_tick w))) m i (w_db w) tx3"
        using n del True upsert_match_other [OF n] by (auto simp: saved_and_removed_def)
      have "check_err CommitError (tx_commit e (tx3, w3)) = (r, w')"
        using assms 1 2 3 Inr True by (simp add: saveAndRemoveFromQueue_def)
      then have "w_db w' = tx3 \<or> w_db w' = w_db w \<and> r \<noteq> Inr ()"
        using w3 by (auto simp: check_err_def tx_commit_def split: prod.splits fault.splits sum.splits)
      with sr show ?thesis by auto
    qed
  qed
qed

lemma incrementTries_db:
  "w_db (incrementTries e en w) \<in>
     {w_db w, (w_db w)\<lparr>match_reconciliation :=
        bump_queue (db_now e (w_tick w)) (EntryID en) (match_reconciliation (w_db w))\<rparr>}"
proof -
  have "w_db (incrementTries e en w) = w_db (snd (IncrementTries e (EntryID en) w))"
    by (simp add: incrementTries_def split: prod.split sum.split)
  then show ?thesis
    using db_exec_db [of e "bump_tries (db_now e (w_tick w)) (EntryID en)" w]
    by (auto simp: IncrementTries_def run_statement_def bump_tries_def bump_queue_def increment_row_def
        split: sum.splits if_splits)
qed

text \<open>What an entry can do to the tables, whatever fails.\<close>

lemma reconcile_entry_db:
  obtains (same) "w_db (reconcile_entry e en w) = w_db w"
  | (bumped) now where "w_db (reconcile_entry e en w) =
      (w_db w)\<lparr>match_reconciliation := bump_queue now (EntryID en) (match_reconciliation (w_db w))\<rparr>"
  | (moved) src m now w1 where "getProviderForReconcile e (EntryProvider en) = Inr src"
      "FetchMatchByID src (EntryProviderMatchID en) w = (Inr m, w1)" "Status m = Finished"
      "saved_and_removed e now m (EntryID en) (w_db w) (w_db (reconcile_entry e en w))"
proof (cases rule: reconcile_entry_cases [where e = e and entry = en and w = w])
  case unknown
  then show thesis
    using incrementTries_db [of e en "log_event (SlogError
      ''unable to get provider for reconciliation. manual intervention required.'' (EntryProviderMatchID en)) w"]
      same bumped by auto
next
  case (retry src r w1)
  then show thesis using incrementTries_db [of e en w1] same bumped by auto
next
  case (saved src m w1 w2)
  then show thesis using saveAndRemoveFromQueue_db [OF saved(6)] same moved by auto
next
  case (failed src m w1 err w2)
  then show thesis using saveAndRemoveFromQueue_db [OF failed(6)] same moved by auto
qed

lemma queue_simps [simp]:
  "rr_id (increment_row now r) = rr_id r" "recon_key (increment_row now r) = recon_key r"
  "rr_tries (increment_row now r) = rr_tries r + 1"
  "map rr_id (bump_queue now i q) = map rr_id q" "map recon_key (bump_queue now i q) = map recon_key q"
  by (auto simp: increment_row_def bump_queue_def recon_key_def)

lemma saved_and_removed_wf:
  assumes "saved_and_removed e now m i t t'" and "wf_tables t"
  shows "wf_tables t'"
proof -
  from assms(1) obtain n t1 where u: "upsert_match now (match_to_row e m) t = Inr (n, t1)"
    and t': "t' = t1\<lparr>match_reconciliation := drop_queue i (match_reconciliation t)\<rparr>"
    by (auto simp: saved_and_removed_def)
  have "wf_tables t1" by (rule upsert_match.stmt_wf [OF assms(2) u])
  with t' upsert_match_other [OF u] show ?thesis
    by (simp add: wf_tables_def drop_queue_def distinct_map_filter)
qed

lemma reconcile_entry_wf:
  assumes "wf_tables (w_db w)"
  shows "wf_tables (w_db (reconcile_entry e en w))"
proof (cases rule: reconcile_entry_db [where e = e and en = en and w = w])
  case (bumped now)
  with assms show ?thesis by (simp add: wf_tables_def)
qed (use assms saved_and_removed_wf in auto)

text \<open>An invariant of the tables that every entry keeps holds at the end of every batch and run.\<close>

lemma reconcile_batch_invariant:
  assumes "\<And>en w. I (w_db w) \<Longrightarrow> I (w_db (reconcile_entry e en w))" and "I (w_db w)"
  shows "I (w_db (snd (reconcile_batch e i es w)))"
  using assms(2)
proof (induction es arbitrary: i w)
  case (Cons en es)
  show ?case
    using Cons.prems Cons.IH assms(1) [of "tick w"]
      assms(1) [of "log_event (Sleep RECONCILE_REQUEST_DELAY) (tick (tick w))"] by simp
qed simp

lemma Reconcile_invariant:
  assumes "Reconcile e w = Some (r, w')" and "I (w_db w)"
    and "\<And>en w. I (w_db w) \<Longrightarrow> I (w_db (reconcile_entry e en w))"
  shows "I (w_db w')"
proof -
  have get: "w_db w1 = w_db w"
    if "GetPendingReconciliations e RECONCILE_BATCH_SIZE RECONCILE_MAX_TRIES w = (r1, w1)" for w r1 w1
    using GetPendingReconciliations_frame(3) [of e RECONCILE_BATCH_SIZE RECONCILE_MAX_TRIES w] that by simp
  have batch: "I (w_db w2)" if "reconcile_batch e 0 es w1 = (r2, w2)" "I (w_db w1)" for es w1 r2 w2
    using reconcile_batch_invariant [where I = I and e = e and w = w1 and i = 0 and es = es] assms(3) that by simp
  have "I (w_db (snd (r, w')))"
    by (rule Reconcile_rule [where I = "\<lambda>w. I (w_db w)" and Q = "\<lambda>rw. I (w_db (snd rw))", OF assms(1,2)])
      (metis get batch snd_conv)+
  then show ?thesis by simp
qed

section \<open>Entries of a batch and their rows\<close>

text \<open>Every row that has the id of an entry still reads as that entry.\<close>

definition snapshot :: "ReconciliationEntry list \<Rightarrow> tables \<Rightarrow> bool" where
  "snapshot es t \<longleftrightarrow>
     (\<forall>en \<in> set es. \<forall>r \<in> set (match_reconciliation t). rr_id r = EntryID en \<longrightarrow> entry_of_row r = en)"

lemma entry_of_row_simps [simp]:
  "EntryID (entry_of_row r) = rr_id r" "EntryProviderMatchID (entry_of_row r) = rr_provider_match_id r"
  "EntryProvider (entry_of_row r) = rr_provider r" "Tries (entry_of_row r) = rr_tries r"
  by (simp_all add: entry_of_row_def)

lemma snapshot_row:
  assumes "snapshot [en] t" and "r \<in> set (match_reconciliation t)" and "rr_id r = EntryID en"
  shows "rr_tries r = Tries en" and "recon_key r = (EntryProviderMatchID en, EntryProvider en)"
proof -
  have "entry_of_row r = en" using assms by (simp add: snapshot_def)
  then show "rr_tries r = Tries en" "recon_key r = (EntryProviderMatchID en, EntryProvider en)"
    by (auto simp: recon_key_def)
qed

lemma snapshot_step:
  assumes "snapshot (en # es) (w_db w)" and "EntryID en \<notin> EntryID ` set es"
  shows "snapshot es (w_db (reconcile_entry e en w))"
proof (cases rule: reconcile_entry_db [where e = e and en = en and w = w])
  case (bumped now)
  then show ?thesis using assms by (force simp: snapshot_def bump_queue_def)
next
  case (moved src m now w1)
  then have "set (match_reconciliation (w_db (reconcile_entry e en w))) \<subseteq> set (match_reconciliation (w_db w))"
    by (auto simp: saved_and_removed_def drop_queue_def)
  then show ?thesis using assms(1) by (auto simp: snapshot_def)
qed (use assms in \<open>auto simp: snapshot_def\<close>)

lemma reconcile_batch_rule:
  assumes "distinct (map EntryID es)" and "snapshot es (w_db w)" and "P (w_db w)"
    and step: "\<And>en w. en \<in> set es \<Longrightarrow> snapshot [en] (w_db w) \<Longrightarrow> P (w_db w) \<Longrightarrow> P (w_db (reconcile_entry e en w))"
  shows "P (w_db (snd (reconcile_batch e i es w)))"
  using assms
proof (induction es arbitrary: i w)
  case (Cons en es)
  have next_entry: "P (w_db (snd (reconcile_batch e (Suc i) es (reconcile_entry e en w'))))"
    if "w_db w' = w_db w" for w'
  proof (rule Cons.IH)
    show "snapshot es (w_db (reconcile_entry e en w'))"
      using Cons.prems(1,2) by (intro snapshot_step) (simp_all add: that)
    show "P (w_db (reconcile_entry e en w'))"
      using Cons.prems(2,3) by (intro Cons.prems(4)) (simp_all add: that snapshot_def)
    show "distinct (map EntryID es)" using Cons.prems(1) by simp
    show "P (w_db (reconcile_entry e en' w''))"
      if "en' \<in> set es" "snapshot [en'] (w_db w'')" "P (w_db w'')" for en' w''
      using that Cons.prems(4) by simp
  qed
  show ?case
    using Cons.prems(3) next_entry [of "tick w"]
      next_entry [of "log_event (Sleep RECONCILE_REQUEST_DELAY) (tick (tick w))"] by auto
qed simp

lemma GetPendingReconciliations_ok:
  assumes "GetPendingReconciliations e n k w = (Inr es, w1)"
  shows "es = map entry_of_row (take n (sort_key rr_id (filter (\<lambda>r. rr_tries r < k) (match_reconciliation (w_db w)))))"
    and "w_db w1 = w_db w"
proof -
  have "fst (GetPendingReconciliations e n k w) = Inr es" using assms by simp
  then show "es = map entry_of_row (take n (sort_key rr_id (filter (\<lambda>r. rr_tries r < k) (match_reconciliation (w_db w)))))"
    by (simp add: GetPendingReconciliations_def) (drule db_query_ok, simp)
  show "w_db w1 = w_db w" using GetPendingReconciliations_frame(3) [of e n k w] assms by simp
qed

lemma distinct_map_take: "distinct (map f xs) \<Longrightarrow> distinct (map f (take n xs))"
  by (metis distinct_take take_map)

lemma distinct_map_sort_key: "distinct (map f xs) \<Longrightarrow> distinct (map f (sort_key g xs))"
  by (simp add: distinct_map)

lemma pending_snapshot:
  assumes "GetPendingReconciliations e n k w = (Inr es, w1)" and "wf_tables (w_db w)"
  shows "distinct (map EntryID es)" and "snapshot es (w_db w1)" and "\<And>en. en \<in> set es \<Longrightarrow> Tries en < k"
proof -
  let ?rows = "take n (sort_key rr_id (filter (\<lambda>r. rr_tries r < k) (match_reconciliation (w_db w))))"
  note es = GetPendingReconciliations_ok [OF assms(1)]
  have d: "distinct (map rr_id (match_reconciliation (w_db w)))" using assms(2) by (simp add: wf_tables_def)
  have sub: "set ?rows \<subseteq> {r \<in> set (match_reconciliation (w_db w)). rr_tries r < k}"
    by (auto dest: in_set_takeD)
  have "map EntryID es = map rr_id ?rows" by (simp add: es entry_of_row_def)
  then show "distinct (map EntryID es)"
    using d by (simp add: distinct_map_take distinct_map_sort_key distinct_map_filter)
  show "snapshot es (w_db w1)"
    unfolding snapshot_def
  proof (intro ballI impI)
    fix en r
    assume "en \<in> set es" and r: "r \<in> set (match_reconciliation (w_db w1))" "rr_id r = EntryID en"
    then obtain r' where r': "r' \<in> set ?rows" "en = entry_of_row r'" by (auto simp: es(1))
    with sub r d es(2) have "r = r'" by (auto simp: entry_of_row_def distinct_map inj_on_def)
    with r' show "entry_of_row r = en" by simp
  qed
  show "\<And>en. en \<in> set es \<Longrightarrow> Tries en < k"
    using sub by (auto simp: es(1) entry_of_row_def)
qed

lemma Reconcile_pending_invariant:
  assumes "Reconcile e w = Some (r, w')" and "wf_tables (w_db w)" and "P (w_db w)"
    and step: "\<And>en w. Tries en < RECONCILE_MAX_TRIES \<Longrightarrow> snapshot [en] (w_db w) \<Longrightarrow> P (w_db w) \<Longrightarrow>
      P (w_db (reconcile_entry e en w))"
  shows "P (w_db w')"
proof -
  let ?I = "\<lambda>w. wf_tables (w_db w) \<and> P (w_db w)"
  have batch: "?I w2"
    if "?I w" "GetPendingReconciliations e RECONCILE_BATCH_SIZE RECONCILE_MAX_TRIES w = (Inr es, w1)"
      "reconcile_batch e 0 es w1 = (r2, w2)" for w w1 es r2 w2
  proof -
    have db: "w_db w1 = w_db w" using GetPendingReconciliations_ok(2) [OF that(2)] .
    from that(1) have "wf_tables (w_db w)" by simp
    note ps = pending_snapshot [OF that(2) this]
    have "P (w_db (snd (reconcile_batch e 0 es w1)))"
    proof (rule reconcile_batch_rule [where P = P, OF ps(1,2)])
      show "P (w_db w1)" using that(1) db by simp
      show "P (w_db (reconcile_entry e en w'))"
        if "en \<in> set es" "snapshot [en] (w_db w')" "P (w_db w')" for en w'
        using that(2,3) by (intro step ps(3) that(1))
    qed
    moreover have "wf_tables (w_db (snd (reconcile_batch e 0 es w1)))"
      by (rule reconcile_batch_invariant [where I = wf_tables])
        (use reconcile_entry_wf db that(1) in simp_all)
    ultimately show ?thesis using that(3) by simp
  qed
  have get: "w_db w1 = w_db w"
    if "GetPendingReconciliations e RECONCILE_BATCH_SIZE RECONCILE_MAX_TRIES w = (r1, w1)" for w r1 w1
    using GetPendingReconciliations_frame(3) [of e RECONCILE_BATCH_SIZE RECONCILE_MAX_TRIES w] that by simp
  have "P (w_db (snd (r, w')))"
  proof (rule Reconcile_rule [where I = ?I and Q = "\<lambda>rw. P (w_db (snd rw))", OF assms(1)])
    show "?I w" using assms(2,3) by simp
  next
    fix w1 es w2 er w3
    assume "?I w1" "GetPendingReconciliations e RECONCILE_BATCH_SIZE RECONCILE_MAX_TRIES w1 = (Inr es, w2)"
      "reconcile_batch e 0 es w2 = (Inl er, w3)"
    from batch [OF this] show "P (w_db (snd (Inl er :: (reconcile_error, unit) result, w3)))" by simp
  next
    fix w1 es w2 w3
    assume "?I w1" "GetPendingReconciliations e RECONCILE_BATCH_SIZE RECONCILE_MAX_TRIES w1 = (Inr es, w2)"
      "reconcile_batch e 0 es w2 = (Inr (), w3)"
    from batch [OF this] show "?I w3" .
  qed (simp_all add: get)
  then show ?thesis by simp
qed

section \<open>Tries\<close>

definition tries_bounded :: "tables \<Rightarrow> bool" where
  "tries_bounded t \<longleftrightarrow> (\<forall>r \<in> set (match_reconciliation t). rr_tries r \<le> RECONCILE_MAX_TRIES)"

lemma reconcile_entry_tries:
  assumes "Tries en < RECONCILE_MAX_TRIES" and "snapshot [en] (w_db w)" and "tries_bounded (w_db w)"
  shows "tries_bounded (w_db (reconcile_entry e en w))"
proof (cases rule: reconcile_entry_db [where e = e and en = en and w = w])
  case (bumped now)
  have "rr_tries r + 1 \<le> RECONCILE_MAX_TRIES"
    if "r \<in> set (match_reconciliation (w_db w))" "rr_id r = EntryID en" for r
    using assms(1) snapshot_row(1) [OF assms(2) that] by simp
  with bumped assms(3) show ?thesis by (auto simp: tries_bounded_def bump_queue_def)
next
  case (moved src m now w1)
  with assms(3) show ?thesis by (auto simp: tries_bounded_def saved_and_removed_def drop_queue_def)
qed (use assms in \<open>auto simp: tries_bounded_def\<close>)

lemma Reconcile_tries_bounded:
  assumes "Reconcile e w = Some (r, w')" and "wf_tables (w_db w)" and "tries_bounded (w_db w)"
  shows "tries_bounded (w_db w')"
  using assms reconcile_entry_tries by (rule Reconcile_pending_invariant)

text \<open>A run that reports success has left nothing that is still pending.\<close>

lemma Reconcile_success:
  assumes "Reconcile e w = Some (Inr (), w')"
  shows "\<forall>r \<in> set (match_reconciliation (w_db w')). RECONCILE_MAX_TRIES \<le> rr_tries r"
proof -
  let ?Q = "\<lambda>rw :: (reconcile_error, unit) result \<times> world. fst rw = Inr () \<longrightarrow>
    (\<forall>r \<in> set (match_reconciliation (w_db (snd rw))). RECONCILE_MAX_TRIES \<le> rr_tries r)"
  have none: "\<forall>r \<in> set (match_reconciliation (w_db w1)). RECONCILE_MAX_TRIES \<le> rr_tries r"
    if "GetPendingReconciliations e RECONCILE_BATCH_SIZE RECONCILE_MAX_TRIES w = (Inr [], w1)" for w w1
  proof -
    have "take RECONCILE_BATCH_SIZE (sort_key rr_id (filter (\<lambda>r. rr_tries r < RECONCILE_MAX_TRIES)
        (match_reconciliation (w_db w)))) = []"
      using GetPendingReconciliations_ok(1) [OF that] by simp
    then have "sort_key rr_id (filter (\<lambda>r. rr_tries r < RECONCILE_MAX_TRIES) (match_reconciliation (w_db w))) = []"
      by (simp add: RECONCILE_BATCH_SIZE_def)
    then have "filter (\<lambda>r. rr_tries r < RECONCILE_MAX_TRIES) (match_reconciliation (w_db w)) = []"
      by (metis set_empty set_sort)
    with GetPendingReconciliations_ok(2) [OF that] show ?thesis by (auto simp: filter_empty_conv not_less)
  qed
  have "?Q (Inr (), w')"
    by (rule Reconcile_rule [where I = "\<lambda>_. True" and Q = ?Q, OF assms]) (use none in auto)
  then show ?thesis by simp
qed

section \<open>Leaving the queue\<close>

text \<open>\<open>recovered\<close>: the data source of the entry delivered a final result, and a row carries it.\<close>

definition recovered :: "'z provider_env_scheme \<Rightarrow> string \<Rightarrow> Provider \<Rightarrow> tables \<Rightarrow> bool" where
  "recovered e pmid p t \<longleftrightarrow>
     (\<exists>src m w0 w1. getProviderForReconcile e p = Inr src \<and> FetchMatchByID src pmid w0 = (Inr m, w1) \<and>
        Status m = Finished \<and> (\<exists>row \<in> set (matches t). match_key row = key_of m \<and> row_status row = Finished))"

definition present :: "uuid \<Rightarrow> string \<times> int \<Rightarrow> tables \<Rightarrow> bool" where
  "present i k t \<longleftrightarrow> (\<exists>r \<in> set (match_reconciliation t). rr_id r = i \<and> recon_key r = k)"

lemma upsert_finished_keeps:
  assumes "upsert_match now (match_to_row e m) t = Inr (n, t')" and "Status m = Finished"
    and "row \<in> set (matches t)" and "match_key row = k" and "row_status row = Finished"
  shows "\<exists>row \<in> set (matches t'). match_key row = k \<and> row_status row = Finished"
proof -
  define up where "up = (\<lambda>x. if match_key x = key_of m then overwrite_match now (match_to_row e m) x else x)"
  have "up row \<in> set (map up (matches t))" "match_key (up row) = k" "row_status (up row) = Finished"
    using assms by (auto simp: up_def)
  moreover have "matches t' = map up (matches t) \<or> matches t' = matches t @ [column_defaults now (match_to_row e m)]"
    using assms(1) by (auto simp: upsert_match_def up_def split: if_splits)
  ultimately show ?thesis using assms(3,4,5) by auto
qed

lemma reconcile_entry_recovers:
  assumes "snapshot [en] (w_db w)" and "present i (pmid, p) (w_db w) \<or> recovered e pmid p (w_db w)"
  shows "present i (pmid, p) (w_db (reconcile_entry e en w)) \<or> recovered e pmid p (w_db (reconcile_entry e en w))"
proof (cases rule: reconcile_entry_db [where e = e and en = en and w = w])
  case same
  with assms show ?thesis by simp
next
  case (bumped now)
  have "\<exists>r' \<in> set (bump_queue now (EntryID en) q). rr_id r' = rr_id r \<and> recon_key r' = recon_key r"
    if "r \<in> set q" for q r
    using that by (intro bexI [of _ "if rr_id r = EntryID en then increment_row now r else r"])
      (auto simp: bump_queue_def)
  then have "present i (pmid, p) (w_db w) \<Longrightarrow> present i (pmid, p) (w_db (reconcile_entry e en w))"
    unfolding bumped present_def by fastforce
  moreover have "recovered e pmid p (w_db w) \<Longrightarrow> recovered e pmid p (w_db (reconcile_entry e en w))"
    by (simp add: bumped recovered_def)
  ultimately show ?thesis using assms(2) by blast
next
  case (moved src m now w1)
  let ?t = "w_db (reconcile_entry e en w)"
  from moved(4) obtain n t1 where u: "upsert_match now (match_to_row e m) (w_db w) = Inr (n, t1)"
    and t: "?t = t1\<lparr>match_reconciliation := drop_queue (EntryID en) (match_reconciliation (w_db w))\<rparr>"
    by (auto simp: saved_and_removed_def)
  from assms(2) show ?thesis
  proof
    assume "recovered e pmid p (w_db w)"
    then have "recovered e pmid p ?t"
      using upsert_finished_keeps [OF u moved(3)] unfolding recovered_def t by simp metis
    then show ?thesis ..
  next
    assume "present i (pmid, p) (w_db w)"
    then obtain r where r: "r \<in> set (match_reconciliation (w_db w))" "rr_id r = i" "recon_key r = (pmid, p)"
      by (auto simp: present_def)
    show ?thesis
    proof (cases "EntryID en = i")
      case False
      with r have "present i (pmid, p) ?t" by (auto simp: present_def t drop_queue_def)
      then show ?thesis ..
    next
      case True
      with snapshot_row(2) [OF assms(1) r(1)] r have "EntryProviderMatchID en = pmid" "EntryProvider en = p"
        by simp_all
      moreover have "stored t1 m" using u by (rule upsert_match_stored)
      ultimately have "recovered e pmid p ?t"
        using moved(1-3) unfolding recovered_def stored_def t by auto
      then show ?thesis ..
    qed
  qed
qed

lemma Reconcile_recovers:
  assumes "Reconcile e w = Some (r, w')" and "wf_tables (w_db w)" and "present i (pmid, p) (w_db w)"
  shows "present i (pmid, p) (w_db w') \<or> recovered e pmid p (w_db w')"
proof (rule Reconcile_pending_invariant [where P = "\<lambda>t. present i (pmid, p) t \<or> recovered e pmid p t",
      OF assms(1,2)])
  show "present i (pmid, p) (w_db w) \<or> recovered e pmid p (w_db w)" using assms(3) by simp
qed (rule reconcile_entry_recovers)

section \<open>Pauses between requests\<close>

text \<open>No request follows another without a pause of at least the given length in between.\<close>

fun spaced :: "duration \<Rightarrow> bool \<Rightarrow> io_event list \<Rightarrow> bool" where
  "spaced d outstanding [] = True"
| "spaced d outstanding (ApiRequest what # evs) = (\<not> outstanding \<and> spaced d True evs)"
| "spaced d outstanding (Sleep t # evs) = spaced d (outstanding \<and> t < d) evs"
| "spaced d outstanding (SlogError msg pmid # evs) = spaced d outstanding evs"

lemma incrementTries_log: "\<exists>evs. w_log (incrementTries e en w) = w_log w @ evs \<and> list_all (\<lambda>ev. \<exists>a b. ev = SlogError a b) evs"
  using IncrementTries_frame(2) [of e "EntryID en" w]
  by (auto simp: incrementTries_def split: prod.split sum.split)

lemma saveAndRemoveFromQueue_log: "w_log (snd (saveAndRemoveFromQueue e m i w)) = w_log w"
proof -
  obtain r1 w1 where 1: "BeginTx e w = (r1, w1)" by (cases "BeginTx e w")
  have l1: "w_log w1 = w_log w" using BeginTx_frame(2) [of e w] 1 by simp
  show ?thesis
  proof (cases r1)
    case (Inl er)
    with 1 l1 show ?thesis by (simp add: saveAndRemoveFromQueue_def)
  next
    case (Inr tx)
    obtain r2 tx2 w2 where 2: "SaveInTx e m (tx, w1) = (r2, tx2, w2)" by (metis prod_cases3)
    have l2: "w_log w2 = w_log w1"
      using 2 tx_exec_frame(2) [of e "upsert_match (db_now e (w_tick w1)) (match_to_row e m)" tx w1]
      by (auto simp: SaveInTx_def check_err_def split: prod.splits)
    obtain r3 tx3 w3 where 3: "MarkReconciled e i (tx2, w2) = (r3, tx3, w3)" by (metis prod_cases3)
    have l3: "w_log w3 = w_log w2"
      using 3 tx_exec_frame(2) [of e "delete_recon i" tx2 w2]
      by (auto simp: MarkReconciled_def check_err_def split: prod.splits)
    from 1 2 3 l1 l2 l3 Inr show ?thesis
      by (cases r2; cases r3) (simp_all add: saveAndRemoveFromQueue_def frame_simps)
  qed
qed

lemma spaced_errors:
  "list_all (\<lambda>ev. \<exists>a b. ev = SlogError a b) evs \<Longrightarrow> spaced d b (evs @ rest) = spaced d b rest"
  by (induction evs) auto

lemma spaced_mono: "spaced d b' evs \<Longrightarrow> (b \<Longrightarrow> b') \<Longrightarrow> spaced d b evs"
proof (induction evs arbitrary: b b')
  case (Cons ev evs)
  then show ?case
    by (cases ev) (auto intro: Cons.IH)
qed simp

lemma spaced_outstanding: "spaced d True evs \<Longrightarrow> spaced d b evs"
  by (rule spaced_mono [where b' = True]) simp_all

lemma reconcile_entry_log:
  "\<exists>evs. w_log (reconcile_entry e en w) = w_log w @ evs \<and> (\<forall>rest. spaced d True rest \<longrightarrow> spaced d False (evs @ rest))"
proof (cases rule: reconcile_entry_cases [where e = e and entry = en and w = w])
  case unknown
  let ?err = "SlogError ''unable to get provider for reconciliation. manual intervention required.'' (EntryProviderMatchID en)"
  obtain evs where evs: "w_log (incrementTries e en (log_event ?err w)) = (w_log w @ [?err]) @ evs"
    "list_all (\<lambda>ev. \<exists>a b. ev = SlogError a b) evs"
    using incrementTries_log [of e en "log_event ?err w"] by auto
  show ?thesis
    by (rule exI [of _ "?err # evs"]) (use unknown evs in \<open>simp add: spaced_errors spaced_outstanding\<close>)
next
  case (retry src r w1)
  obtain what where "w_log w1 = w_log w @ [ApiRequest what]"
    using data_source.by_id_log [OF getProvider_source [OF retry(1)], of "EntryProviderMatchID en" w] retry(2) by auto
  moreover obtain evs where "w_log (incrementTries e en w1) = w_log w1 @ evs"
    "list_all (\<lambda>ev. \<exists>a b. ev = SlogError a b) evs"
    using incrementTries_log [of e en w1] by auto
  ultimately show ?thesis
    by (intro exI [of _ "ApiRequest what # evs"]) (simp add: retry(6) spaced_errors)
next
  case (saved src m w1 w2)
  obtain what where "w_log w1 = w_log w @ [ApiRequest what]"
    using data_source.by_id_log [OF getProvider_source [OF saved(1)], of "EntryProviderMatchID en" w] saved(2) by auto
  then show ?thesis
    using saveAndRemoveFromQueue_log [of e m "EntryID en" w1] saved(6,7)
    by (intro exI [of _ "[ApiRequest what]"]) simp
next
  case (failed src m w1 err w2)
  obtain what where "w_log w1 = w_log w @ [ApiRequest what]"
    using data_source.by_id_log [OF getProvider_source [OF failed(1)], of "EntryProviderMatchID en" w] failed(2) by auto
  then show ?thesis
    using saveAndRemoveFromQueue_log [of e m "EntryID en" w1] failed(6,7)
    by (intro exI [of _ "[ApiRequest what, SlogError ''failed to save reconciled match'' (EntryProviderMatchID en)]"]) simp
qed

lemma reconcile_batch_spaced:
  "\<exists>evs. w_log (snd (reconcile_batch e i es w)) = w_log w @ evs \<and> spaced RECONCILE_REQUEST_DELAY (0 < i) evs"
proof (induction es arbitrary: i w)
  case (Cons en es)
  have rest: "\<exists>evs. w_log (snd (reconcile_batch e (Suc i) es (reconcile_entry e en w'))) = w_log w' @ evs \<and>
      spaced RECONCILE_REQUEST_DELAY False evs" for w'
  proof -
    obtain a where a: "w_log (reconcile_entry e en w') = w_log w' @ a"
      "\<And>rest. spaced RECONCILE_REQUEST_DELAY True rest \<Longrightarrow> spaced RECONCILE_REQUEST_DELAY False (a @ rest)"
      using reconcile_entry_log [of e en w' RECONCILE_REQUEST_DELAY] by auto
    obtain b where "w_log (snd (reconcile_batch e (Suc i) es (reconcile_entry e en w'))) = (w_log w' @ a) @ b"
      "spaced RECONCILE_REQUEST_DELAY True b"
      using Cons.IH [of "Suc i" "reconcile_entry e en w'"] a(1) by auto
    with a(2) show ?thesis by (intro exI [of _ "a @ b"]) simp
  qed
  show ?case
  proof (cases "ctx_done e (w_tick w)")
    case False
    show ?thesis
    proof (cases "0 < i")
      case True
      let ?w = "log_event (Sleep RECONCILE_REQUEST_DELAY) (tick (tick w))"
      obtain evs where "w_log (snd (reconcile_batch e (Suc i) es (reconcile_entry e en ?w))) =
          w_log w @ Sleep RECONCILE_REQUEST_DELAY # evs" "spaced RECONCILE_REQUEST_DELAY False evs"
        using rest [of ?w] by auto
      with False True show ?thesis by auto
    next
      case False
      with \<open>\<not> ctx_done e (w_tick w)\<close> rest [of "tick w"] show ?thesis by auto
    qed
  qed simp
qed simp

section \<open>When the data sources are down\<close>

text \<open>
  An outage: up to a tick, the time that is left until the deadline, the database is well and neither data
  source answers.
\<close>

definition outage :: "nat \<Rightarrow> 'z provider_env_scheme \<Rightarrow> bool" where
  "outage N e \<longleftrightarrow>
     (\<forall>n < N. db_fault e n = Healthy \<and> \<not> ctx_done e n \<and>
        (\<forall>url. http_get e n url = HttpFailed) \<and> (\<forall>c i. \<exists>er. fo_get_match e c n i = Inl er))"

definition open_tries :: "recon_row \<Rightarrow> nat" where
  "open_tries r = nat (RECONCILE_MAX_TRIES - rr_tries r)"

definition open_work :: "tables \<Rightarrow> nat" where
  "open_work t = sum_list (map open_tries (match_reconciliation t))"

text \<open>Only counters of pending entries have gone up since \<open>t0\<close>, with the time of the last attempt.\<close>

definition counted_up :: "recon_row \<Rightarrow> recon_row \<Rightarrow> bool" where
  "counted_up q q' \<longleftrightarrow> q' = q \<or>
     rr_tries q < rr_tries q' \<and> rr_tries q' \<le> RECONCILE_MAX_TRIES \<and>
     (\<exists>now. q' = q\<lparr>rr_tries := rr_tries q', rr_reconciled_at := Some now\<rparr>)"

definition only_counted :: "tables \<Rightarrow> tables \<Rightarrow> bool" where
  "only_counted t0 t \<longleftrightarrow>
     matches t = matches t0 \<and> sync_state t = sync_state t0 \<and>
     list_all2 counted_up (match_reconciliation t0) (match_reconciliation t) \<and>
     (\<forall>r \<in> set (match_reconciliation t). 0 \<le> rr_tries r)"

lemma counted_up_increment:
  "counted_up q r \<Longrightarrow> rr_tries r < RECONCILE_MAX_TRIES \<Longrightarrow> counted_up q (increment_row now r)"
  by (cases q; cases r) (auto simp: counted_up_def increment_row_def)

lemma only_counted_refl: "\<forall>r \<in> set (match_reconciliation t). 0 \<le> rr_tries r \<Longrightarrow> only_counted t t"
  by (simp add: only_counted_def counted_up_def list_all2_same)

lemma outage_fetch:
  assumes "outage N e" and "getProviderForReconcile e p = Inr src" and "w_tick w < N"
  shows "\<exists>er w1. FetchMatchByID src pmid w = (Inl er, w1) \<and> w_tick w1 = Suc (w_tick w)"
proof -
  obtain er where "fo_get_match e (fo_NewProvider e) (w_tick w) pmid = Inl er"
    using assms(1,3) unfolding outage_def by blast
  with assms show ?thesis
    by (auto simp: getProviderForReconcile_def outage_def fo_FetchMatchByID_def Let_def
        api_FetchMatchByID_def api_get_def split: if_splits)
qed

lemma incrementTries_healthy:
  assumes "db_fault e (w_tick w) = Healthy" and "snapshot [en] (w_db w)" and "Tries en < RECONCILE_MAX_TRIES"
    and "\<forall>r \<in> set (match_reconciliation (w_db w)). 0 \<le> rr_tries r"
  shows "w_db (incrementTries e en w) = (w_db w)\<lparr>match_reconciliation :=
     bump_queue (db_now e (w_tick w)) (EntryID en) (match_reconciliation (w_db w))\<rparr>"
proof -
  have "int4 (rr_tries r + 1)" if "r \<in> set (match_reconciliation (w_db w))" "rr_id r = EntryID en" for r
  proof -
    have "0 \<le> rr_tries r" using assms(4) that(1) by blast
    moreover have "rr_tries r < 5"
      using snapshot_row(1) [OF assms(2) that] assms(3) by (simp add: RECONCILE_MAX_TRIES_def)
    ultimately show ?thesis by (simp add: int4_def)
  qed
  then have "run_statement (bump_tries (db_now e (w_tick w)) (EntryID en)) (w_db w) = (w_db w)\<lparr>match_reconciliation :=
     bump_queue (db_now e (w_tick w)) (EntryID en) (match_reconciliation (w_db w))\<rparr>"
    by (auto simp: run_statement_def bump_tries_def bump_queue_def increment_row_def list_ex_iff)
  moreover have "w_db (incrementTries e en w) = w_db (snd (IncrementTries e (EntryID en) w))"
    by (simp add: incrementTries_def split: prod.split sum.split)
  ultimately show ?thesis
    using db_exec_healthy [OF assms(1), of "bump_tries (db_now e (w_tick w)) (EntryID en)"]
    by (simp add: IncrementTries_def)
qed

text \<open>An entry costs two ticks and one try.\<close>

lemma outage_entry:
  assumes "outage N e" and "w_tick w + 2 \<le> N" and "snapshot [en] (w_db w)" and "Tries en < RECONCILE_MAX_TRIES"
    and "\<forall>r \<in> set (match_reconciliation (w_db w)). 0 \<le> rr_tries r"
  shows "\<exists>now. w_db (reconcile_entry e en w) =
    (w_db w)\<lparr>match_reconciliation := bump_queue now (EntryID en) (match_reconciliation (w_db w))\<rparr> \<and>
    w_tick (reconcile_entry e en w) \<le> w_tick w + 2"
proof -
  have healthy: "n < N \<Longrightarrow> db_fault e n = Healthy" for n using assms(1) by (simp add: outage_def)
  show ?thesis
  proof (cases "getProviderForReconcile e (EntryProvider en)")
    case (Inl u)
    then show ?thesis
      using incrementTries_healthy [of e "log_event (SlogError
        ''unable to get provider for reconciliation. manual intervention required.'' (EntryProviderMatchID en)) w" en]
        assms healthy by (auto simp: reconcile_entry_def incrementTries_tick)
  next
    case (Inr src)
    have "w_tick w < N" using assms(2) by simp
    from outage_fetch [OF assms(1) Inr this] obtain er w1 where
      f: "FetchMatchByID src (EntryProviderMatchID en) w = (Inl er, w1)" "w_tick w1 = Suc (w_tick w)" by blast
    have "w_db w1 = w_db w"
      using data_source.by_id_db [OF getProvider_source [OF Inr], of "EntryProviderMatchID en" w] f(1) by simp
    moreover have "reconcile_entry e en w = incrementTries e en w1" using Inr f(1) by (simp add: reconcile_entry_def)
    ultimately show ?thesis
      using incrementTries_healthy [of e w1 en] f(2) assms healthy by (auto simp: incrementTries_tick)
  qed
qed

lemma bump_only_counted:
  assumes "only_counted t0 t" and "\<forall>r \<in> set (match_reconciliation t). rr_id r = i \<longrightarrow> rr_tries r < RECONCILE_MAX_TRIES"
  shows "only_counted t0 (t\<lparr>match_reconciliation := bump_queue now i (match_reconciliation t)\<rparr>)"
proof -
  have "list_all2 counted_up (match_reconciliation t0) (bump_queue now i (match_reconciliation t))"
    unfolding bump_queue_def list_all2_map2
  proof (rule list.rel_mono_strong)
    show "list_all2 counted_up (match_reconciliation t0) (match_reconciliation t)"
      using assms(1) by (simp add: only_counted_def)
  qed (use assms(2) counted_up_increment in auto)
  moreover have "\<forall>r \<in> set (bump_queue now i (match_reconciliation t)). 0 \<le> rr_tries r"
  proof -
    have "0 \<le> rr_tries r" if "r \<in> set (match_reconciliation t)" for r
      using assms(1) that unfolding only_counted_def by blast
    then show ?thesis by (auto simp: bump_queue_def intro: add_increasing2)
  qed
  ultimately show ?thesis using assms(1) by (simp add: only_counted_def)
qed

lemma bump_open_work:
  assumes "\<forall>r \<in> set (match_reconciliation t). rr_id r = i \<longrightarrow> rr_tries r < RECONCILE_MAX_TRIES"
    and "i \<in> rr_id ` set (match_reconciliation t)"
  shows "open_work (t\<lparr>match_reconciliation := bump_queue now i (match_reconciliation t)\<rparr>) < open_work t"
proof -
  let ?b = "\<lambda>r. if rr_id r = i then increment_row now r else r"
  have work: "open_work (t\<lparr>match_reconciliation := bump_queue now i (match_reconciliation t)\<rparr>) =
      sum_list (map (\<lambda>r. open_tries (?b r)) (match_reconciliation t))"
    by (simp add: open_work_def bump_queue_def comp_def)
  have le: "open_tries (?b r) \<le> open_tries r" for r
    unfolding open_tries_def by (cases "rr_id r = i") (simp_all add: nat_mono)
  from assms(2) obtain r where "r \<in> set (match_reconciliation t)" "rr_id r = i" by auto
  moreover from this have "open_tries (?b r) < open_tries r"
    using assms(1) by (auto simp: open_tries_def)
  ultimately show ?thesis
    unfolding work unfolding open_work_def by (intro sum_list_map_less le)
qed

lemma reconcile_batch_alive: "(\<And>n. \<not> ctx_done e n) \<Longrightarrow> fst (reconcile_batch e i es w) = Inr ()"
  by (induction es arbitrary: i w) simp_all

text \<open>
  One batch counts every entry it holds and touches nothing else. Five ticks are set aside for every try
  that is left: two looks at the context, the request, the counter, and the query of the batch.
\<close>

lemma outage_batch:
  assumes "outage N e" and "distinct (map EntryID es)" and "snapshot es (w_db w)"
    and "\<And>en. en \<in> set es \<Longrightarrow> Tries en < RECONCILE_MAX_TRIES \<and> EntryID en \<in> rr_id ` set (match_reconciliation (w_db w))"
    and "only_counted t0 (w_db w)" and "w_tick w + 5 * open_work (w_db w) \<le> N"
  shows "\<exists>w2. reconcile_batch e i es w = (Inr (), w2) \<and> only_counted t0 (w_db w2) \<and>
    w_tick w2 + 5 * open_work (w_db w2) + length es \<le> w_tick w + 5 * open_work (w_db w)"
  using assms(2-)
proof (induction es arbitrary: i w)
  case (Cons en es)
  have en: "Tries en < RECONCILE_MAX_TRIES" "EntryID en \<in> rr_id ` set (match_reconciliation (w_db w))"
    and snap: "snapshot [en] (w_db w)" and fresh: "EntryID en \<notin> EntryID ` set es"
    using Cons.prems(1-3) by (simp_all add: snapshot_def)
  have lt: "\<forall>r \<in> set (match_reconciliation (w_db w)). rr_id r = EntryID en \<longrightarrow> rr_tries r < RECONCILE_MAX_TRIES"
    using snapshot_row(1) [OF snap] en(1) by simp
  have nonneg: "\<forall>r \<in> set (match_reconciliation (w_db w)). 0 \<le> rr_tries r"
    using Cons.prems(4) by (simp add: only_counted_def)
  define v where "v = (if 0 < i then log_event (Sleep RECONCILE_REQUEST_DELAY) (tick (tick w)) else tick w)"
  have v: "w_db v = w_db w" "w_tick v \<le> w_tick w + 2" by (simp_all add: v_def)
  have work: "0 < open_work (w_db w)" using bump_open_work [OF lt en(2)] by (metis not_gr_zero not_less_zero)
  have "w_tick v + 2 \<le> N" using v(2) work Cons.prems(5) by linarith
  from outage_entry [OF assms(1) this, of en] obtain now where
    db: "w_db (reconcile_entry e en v) =
      (w_db w)\<lparr>match_reconciliation := bump_queue now (EntryID en) (match_reconciliation (w_db w))\<rparr>"
    and ticks: "w_tick (reconcile_entry e en v) \<le> w_tick w + 4"
    using snap en(1) nonneg v by fastforce
  let ?w' = "reconcile_entry e en v"
  have less: "open_work (w_db ?w') < open_work (w_db w)" unfolding db by (rule bump_open_work [OF lt en(2)])
  have ids: "rr_id ` set (match_reconciliation (w_db ?w')) = rr_id ` set (match_reconciliation (w_db w))"
    by (simp add: db flip: set_map)
  have "\<exists>w2. reconcile_batch e (Suc i) es ?w' = (Inr (), w2) \<and> only_counted t0 (w_db w2) \<and>
    w_tick w2 + 5 * open_work (w_db w2) + length es \<le> w_tick ?w' + 5 * open_work (w_db ?w')"
  proof (rule Cons.IH)
    show "distinct (map EntryID es)" using Cons.prems(1) by simp
    show "snapshot es (w_db ?w')" using Cons.prems(2) fresh by (intro snapshot_step) (simp_all add: v)
    show "only_counted t0 (w_db ?w')" unfolding db by (rule bump_only_counted [OF Cons.prems(4) lt])
    show "w_tick ?w' + 5 * open_work (w_db ?w') \<le> N" using ticks less Cons.prems(5) by linarith
  qed (use Cons.prems(3) ids in simp)
  moreover have "\<not> ctx_done e (w_tick w)" "\<not> ctx_done e (Suc (w_tick w))"
    using assms(1) work Cons.prems(5) by (simp_all add: outage_def)
  then have "reconcile_batch e i (en # es) w = reconcile_batch e (Suc i) es ?w'" by (simp add: v_def)
  ultimately show ?case using ticks less by fastforce
qed simp

lemma only_counted_wf: "only_counted t0 t \<Longrightarrow> wf_tables t0 \<Longrightarrow> wf_tables t"
proof -
  have map: "map f q' = map f q" if "list_all2 counted_up q q'" "\<And>q q'. counted_up q q' \<Longrightarrow> f q' = f q"
    for q q' :: "recon_row list" and f :: "recon_row \<Rightarrow> 'a"
    using that by (induction rule: list_all2_induct) auto
  have "rr_id q' = rr_id q" "recon_key q' = recon_key q" if "counted_up q q'" for q q'
    using that by (auto simp: counted_up_def recon_key_def) (metis recon_row.select_convs recon_row.surjective recon_row.update_convs)+
  then show "only_counted t0 t \<Longrightarrow> wf_tables t0 \<Longrightarrow> wf_tables t"
    using map [of "match_reconciliation t0" "match_reconciliation t" rr_id]
      map [of "match_reconciliation t0" "match_reconciliation t" recon_key]
    by (simp add: wf_tables_def only_counted_def)
qed

lemma Reconcile_outage:
  assumes "outage N e" and "wf_tables t0" and "only_counted t0 (w_db w)"
    and "w_tick w + 5 * open_work (w_db w) < N"
  shows "\<exists>w'. Reconcile e w = Some (Inr (), w') \<and> only_counted t0 (w_db w')"
  using assms(3,4)
proof (induction "open_work (w_db w)" arbitrary: w rule: less_induct)
  case less
  have "db_fault e (w_tick w) = Healthy" using assms(1) less.prems(2) by (simp add: outage_def)
  then obtain es w1 where get: "GetPendingReconciliations e RECONCILE_BATCH_SIZE RECONCILE_MAX_TRIES w = (Inr es, w1)"
    by (simp add: GetPendingReconciliations_def wrap_err_def db_query_def)
  note ok = GetPendingReconciliations_ok [OF get]
  have t1: "w_tick w1 = Suc (w_tick w)"
    using GetPendingReconciliations_frame(1) [of e RECONCILE_BATCH_SIZE RECONCILE_MAX_TRIES w] get by simp
  show ?case
  proof (cases "es = []")
    case True
    with get ok(2) less.prems show ?thesis by (simp add: Reconcile.simps [of e w])
  next
    case False
    note ps = pending_snapshot [OF get only_counted_wf [OF less.prems(1) assms(2)]]
    have ids: "EntryID en \<in> rr_id ` set (match_reconciliation (w_db w1))" if "en \<in> set es" for en
      using that unfolding ok(1) ok(2) by (auto dest: in_set_takeD)
    have "only_counted t0 (w_db w1)" "w_tick w1 + 5 * open_work (w_db w1) \<le> N"
      using less.prems ok(2) t1 by simp_all
    from outage_batch [OF assms(1) ps(1,2) conjI [OF ps(3) ids] this, of 0] obtain w2 where
      w2: "reconcile_batch e 0 es w1 = (Inr (), w2)" "only_counted t0 (w_db w2)"
      "w_tick w2 + 5 * open_work (w_db w2) + length es \<le> w_tick w1 + 5 * open_work (w_db w1)" by blast
    have "0 < length es" using False by simp
    moreover have "w_tick w1 \<le> w_tick w2 \<and> w_tick w1 < w_tick w2"
      using reconcile_batch_tick [of w1 e 0 es] w2(1) False by simp
    ultimately have "open_work (w_db w2) < open_work (w_db w)" "w_tick w2 + 5 * open_work (w_db w2) < N"
      using w2(3) t1 ok(2) less.prems(2) by (simp_all, linarith)
    from less.hyps [OF this(1) w2(2) this(2)] obtain w' where
      "Reconcile e w2 = Some (Inr (), w')" "only_counted t0 (w_db w')" by blast
    with get False w2(1) show ?thesis by (simp add: Reconcile.simps [of e w])
  qed
qed

section \<open>When a final result cannot be saved\<close>

text \<open>
  A failed save leaves the counter of its entry alone. If the source never delivers a final result that
  fits the table, and delivers one at every request before the deadline, the entry stays as it is and
  only the deadline ends the run: from then on the context is done and every database call fails.
\<close>

definition deadline :: "nat \<Rightarrow> 'z provider_env_scheme \<Rightarrow> bool" where
  "deadline N e \<longleftrightarrow> (\<forall>n. ctx_done e n = (N \<le> n) \<and> db_fault e n = (if n < N then Healthy else Lost))"

definition unsavable :: "nat \<Rightarrow> 'z provider_env_scheme \<Rightarrow> recon_row \<Rightarrow> bool" where
  "unsavable N e q \<longleftrightarrow>
     (\<exists>src. getProviderForReconcile e (rr_provider q) = Inr src \<and>
        (\<forall>w. w_tick w < N \<longrightarrow>
           (\<exists>m w1. FetchMatchByID src (rr_provider_match_id q) w = (Inr m, w1) \<and> Status m = Finished)) \<and>
        (\<forall>w m w1. FetchMatchByID src (rr_provider_match_id q) w = (Inr m, w1) \<and> Status m = Finished \<longrightarrow>
           \<not> row_fits (match_to_row e m)))"

lemma incrementTries_lost:
  "db_fault e (w_tick w) = Lost \<Longrightarrow> w_db (incrementTries e en w) = w_db w"
  by (simp add: incrementTries_def IncrementTries_def check_err_def db_exec_def)

lemma unsavable_entry:
  assumes "deadline N e" and "unsavable N e q" and "snapshot [en] (w_db w)" and "q \<in> set (match_reconciliation (w_db w))"
  shows "q \<in> set (match_reconciliation (w_db (reconcile_entry e en w)))"
proof (cases "rr_id q = EntryID en")
  case False
  show ?thesis
  proof (cases rule: reconcile_entry_db [where e = e and en = en and w = w])
    case (bumped now)
    with False assms(4) show ?thesis by (force simp: bump_queue_def)
  next
    case (moved src m now w1)
    with False assms(4) show ?thesis by (auto simp: saved_and_removed_def drop_queue_def)
  qed (use assms in simp)
next
  case True
  have en: "EntryProviderMatchID en = rr_provider_match_id q" "EntryProvider en = rr_provider q"
    using snapshot_row(2) [OF assms(3,4) True] by (simp_all add: recon_key_def)
  obtain src where src: "getProviderForReconcile e (EntryProvider en) = Inr src"
    and early: "\<And>w. w_tick w < N \<Longrightarrow>
      \<exists>m w1. FetchMatchByID src (EntryProviderMatchID en) w = (Inr m, w1) \<and> Status m = Finished"
    and unfit: "\<And>w m w1. FetchMatchByID src (EntryProviderMatchID en) w = (Inr m, w1) \<Longrightarrow> Status m = Finished \<Longrightarrow>
      \<not> row_fits (match_to_row e m)"
    using assms(2) unfolding unsavable_def en by blast
  have same: "w_db w2 = w_db w1"
    if "saveAndRemoveFromQueue e m i w1 = (r, w2)" "\<not> row_fits (match_to_row e m)" for m i w1 r w2
    using saveAndRemoveFromQueue_db [OF that(1)] that(2) by (auto simp: saved_and_removed_def upsert_match_def)
  have "w_db (reconcile_entry e en w) = w_db w"
  proof (cases rule: reconcile_entry_cases [where e = e and entry = en and w = w])
    case unknown
    with src show ?thesis by simp
  next
    case (retry src' r w1)
    with src early [of w] have "\<not> w_tick w < N" by fastforce
    with retry(5) assms(1) have "db_fault e (w_tick w1) = Lost" by (simp add: deadline_def)
    with retry(4,6) show ?thesis by (simp add: incrementTries_lost)
  next
    case (saved src' m w1 w2)
    with src unfit [of w m w1] same [OF saved(6)] show ?thesis by simp
  next
    case (failed src' m w1 err w2)
    with src unfit [of w m w1] same [OF failed(6)] show ?thesis by simp
  qed
  with assms(4) show ?thesis by simp
qed

lemma reconcile_batch_expired:
  "reconcile_batch e i es w = (Inl er, w2) \<Longrightarrow> \<exists>n < w_tick w2. ctx_done e n"
  by (induction es arbitrary: i w) (auto split: if_splits)

lemma Reconcile_stuck:
  assumes "deadline N e" and "wf_tables (w_db w)"
    and "q \<in> set (match_reconciliation (w_db w))" and "rr_tries q < RECONCILE_MAX_TRIES" and "unsavable N e q"
  shows "\<exists>er w'. Reconcile e w = Some (Inl er, w') \<and> N \<le> w_tick w' \<and> q \<in> set (match_reconciliation (w_db w'))"
proof -
  have "ctx_done e n" if "N \<le> n" for n using assms(1) that by (simp add: deadline_def)
  from Reconcile_returns_by [OF this] obtain r w' where ret: "Reconcile e w = Some (r, w')" by fastforce
  have stays: "q \<in> set (match_reconciliation (w_db w'))"
    by (rule Reconcile_pending_invariant [where P = "\<lambda>t. q \<in> set (match_reconciliation t)", OF ret assms(2,3)])
      (rule unsavable_entry [OF assms(1,5)])
  have "r \<noteq> Inr ()"
  proof
    assume "r = Inr ()"
    with Reconcile_success [of e w w'] ret stays assms(4) show False by fastforce
  qed
  then obtain er where er: "r = Inl er" by (cases r) auto
  let ?Q = "\<lambda>rw :: (reconcile_error, unit) result \<times> world. fst rw \<noteq> Inr () \<longrightarrow> N \<le> w_tick (snd rw)"
  have "?Q (r, w')"
  proof (rule Reconcile_rule [where I = "\<lambda>_. True" and Q = ?Q, OF ret])
    fix v er v1
    assume get: "GetPendingReconciliations e RECONCILE_BATCH_SIZE RECONCILE_MAX_TRIES v = (Inl er, v1)"
    then have "db_fault e (w_tick v) \<noteq> Healthy"
      by (auto simp: GetPendingReconciliations_def wrap_err_def db_query_def)
    then have "N \<le> w_tick v" using assms(1) by (auto simp: deadline_def split: if_splits)
    then show "?Q (Inl (PendingFailed er), v1)"
      using GetPendingReconciliations_frame(1) [of e RECONCILE_BATCH_SIZE RECONCILE_MAX_TRIES v] get by simp
  next
    fix v es v1 er v2
    assume "reconcile_batch e 0 es v1 = (Inl er, v2)"
    from reconcile_batch_expired [OF this] obtain n where "n < w_tick v2" "ctx_done e n" by blast
    moreover from this(2) assms(1) have "N \<le> n" unfolding deadline_def by blast
    ultimately show "?Q (Inl er, v2)" by simp
  qed simp_all
  with ret stays er show ?thesis by simp
qed

section \<open>A single pending entry\<close>

lemma pending_healthy:
  "db_fault e (w_tick w) = Healthy \<Longrightarrow>
   GetPendingReconciliations e n k w = (Inr (map entry_of_row (take n (sort_key rr_id
     (filter (\<lambda>r. rr_tries r < k) (match_reconciliation (w_db w)))))), tick w)"
  by (simp add: GetPendingReconciliations_def wrap_err_def db_query_def)

lemma Reconcile_step:
  assumes "GetPendingReconciliations e RECONCILE_BATCH_SIZE RECONCILE_MAX_TRIES w = (Inr es, w1)" and "es \<noteq> []"
    and "reconcile_batch e 0 es w1 = (Inr u, w2)"
  shows "Reconcile e w = Reconcile e w2"
  using assms by (simp add: Reconcile.simps [of e w])

lemma Reconcile_last:
  assumes "db_fault e (w_tick w) = Healthy"
    and "\<forall>r \<in> set (match_reconciliation (w_db w)). RECONCILE_MAX_TRIES \<le> rr_tries r"
  shows "Reconcile e w = Some (Inr (), tick w)"
proof -
  have "filter (\<lambda>r. rr_tries r < RECONCILE_MAX_TRIES) (match_reconciliation (w_db w)) = []"
    using assms(2) by (auto simp: filter_empty_conv)
  then show ?thesis by (simp add: Reconcile.simps [of e w] pending_healthy assms(1))
qed

lemma incrementTries_silent:
  assumes "db_fault e (w_tick w) = Healthy" and "is_ok (bump_tries (db_now e (w_tick w)) (EntryID en) (w_db w))"
  shows "w_log (incrementTries e en w) = w_log w"
proof -
  from assms(2) obtain n t where "bump_tries (db_now e (w_tick w)) (EntryID en) (w_db w) = Inr (n, t)"
    by (auto simp: is_ok_def split: sum.splits)
  then show ?thesis using assms(1) by (simp add: incrementTries_def IncrementTries_def check_err_def db_exec_def)
qed

lemma single_round:
  assumes "outage N e" and "match_reconciliation (w_db w) = [q]" and "rr_provider q = FootballOrg"
    and "0 \<le> rr_tries q" and "rr_tries q < RECONCILE_MAX_TRIES" and "w_tick w + 5 \<le> N"
  shows "\<exists>w2 now. Reconcile e w = Reconcile e w2 \<and> match_reconciliation (w_db w2) = [increment_row now q] \<and>
    w_log w2 = w_log w @ [ApiRequest (''GetMatch '' @ rr_provider_match_id q)] \<and> w_tick w2 \<le> w_tick w + 5"
proof -
  let ?en = "entry_of_row q"
  have oe: "n < N \<Longrightarrow> db_fault e n = Healthy" "n < N \<Longrightarrow> \<not> ctx_done e n" for n using assms(1) by (simp_all add: outage_def)
  have get: "GetPendingReconciliations e RECONCILE_BATCH_SIZE RECONCILE_MAX_TRIES w = (Inr [?en], tick w)"
    using assms(2,5,6) by (simp add: pending_healthy oe RECONCILE_BATCH_SIZE_def)
  let ?v = "tick (tick w)"
  have v: "w_db ?v = w_db w" "w_log ?v = w_log w" "w_tick ?v = w_tick w + 2" by simp_all
  have snap: "snapshot [?en] (w_db ?v)" using assms(2) by (simp add: snapshot_def recon_key_def entry_of_row_def)
  have "w_tick ?v + 2 \<le> N" using assms(6) by simp
  from outage_entry [OF assms(1) this snap] obtain now where db: "w_db (reconcile_entry e ?en ?v) =
      (w_db w)\<lparr>match_reconciliation := bump_queue now (EntryID ?en) (match_reconciliation (w_db w))\<rparr>"
    and ticks: "w_tick (reconcile_entry e ?en ?v) \<le> w_tick w + 5"
    using assms(2,4,5) by (auto simp: entry_of_row_def)
  have "w_tick ?v < N" using assms(6) by simp
  then obtain er where er: "fo_get_match e (fo_NewProvider e) (w_tick ?v) (rr_provider_match_id q) = Inl er"
    using assms(1) unfolding outage_def by blast
  let ?u = "api_request (''GetMatch '' @ rr_provider_match_id q) ?v"
  have entry: "reconcile_entry e ?en ?v = incrementTries e ?en ?u"
    using er assms(3) by (simp add: reconcile_entry_def getProviderForReconcile_def fo_FetchMatchByID_def)
  have "is_ok (bump_tries (db_now e (w_tick ?u)) (rr_id q) (w_db ?u))"
    using assms(2,4,5) by (simp add: bump_tries_def is_ok_def int4_def RECONCILE_MAX_TRIES_def)
  then have "w_log (incrementTries e ?en ?u) = w_log ?u"
    by (intro incrementTries_silent) (use assms(6) in \<open>simp_all add: oe\<close>)
  then have log: "w_log (reconcile_entry e ?en ?v) = w_log w @ [ApiRequest (''GetMatch '' @ rr_provider_match_id q)]"
    by (simp add: entry api_request_def)
  have "reconcile_batch e 0 [?en] (tick w) = (Inr (), reconcile_entry e ?en ?v)" using assms(6) by (simp add: oe)
  from Reconcile_step [OF get _ this] have "Reconcile e w = Reconcile e (reconcile_entry e ?en ?v)" by simp
  moreover have "match_reconciliation (w_db (reconcile_entry e ?en ?v)) = [increment_row now q]"
    using assms(2) by (simp add: db bump_queue_def)
  ultimately show ?thesis using log ticks by blast
qed

lemma Reconcile_single:
  assumes "outage N e" and "match_reconciliation (w_db w) = [q]" and "rr_provider q = FootballOrg"
    and "0 \<le> rr_tries q" and "w_tick w + 5 * open_tries q < N"
  shows "\<exists>w'. Reconcile e w = Some (Inr (), w') \<and>
    w_log w' = w_log w @ replicate (open_tries q) (ApiRequest (''GetMatch '' @ rr_provider_match_id q))"
  using assms(2-)
proof (induction "open_tries q" arbitrary: q w)
  case 0
  then have "Reconcile e w = Some (Inr (), tick w)"
    using assms(1) by (intro Reconcile_last) (simp_all add: outage_def open_tries_def)
  with 0 show ?case by (simp flip: 0(1))
next
  case (Suc n)
  then have "rr_tries q < RECONCILE_MAX_TRIES" "w_tick w + 5 \<le> N"
    by (simp_all add: open_tries_def flip: Suc.hyps(2))
  from single_round [OF assms(1) Suc.prems(1-3) this] obtain w2 now where
    w2: "Reconcile e w = Reconcile e w2" "match_reconciliation (w_db w2) = [increment_row now q]"
    "w_log w2 = w_log w @ [ApiRequest (''GetMatch '' @ rr_provider_match_id q)]" "w_tick w2 \<le> w_tick w + 5" by blast
  have n: "n = open_tries (increment_row now q)" using Suc.hyps(2) by (simp add: open_tries_def)
  have "w_tick w2 + 5 * open_tries (increment_row now q) < N"
    using w2(4) Suc.prems(4) Suc.hyps(2) n by linarith
  from Suc.hyps(1) [OF n w2(2) _ _ this] Suc.prems obtain w' where "Reconcile e w2 = Some (Inr (), w')"
    "w_log w' = w_log w2 @ replicate n (ApiRequest (''GetMatch '' @ rr_provider_match_id q))"
    using n by (auto simp: increment_row_def)
  with w2 show ?case by (simp flip: Suc.hyps(2) add: replicate_append_same)
qed

section \<open>Properties\<close>

text \<open>A run in which the data source delivers the result the queue waits for.\<close>

lemma sample_run: "\<exists>w'. Reconcile sample_env (start_world sample_queue) = Some (Inr (), w') \<and> 
     match_reconciliation (w_db w') = []"
proof -
  let ?v = "tick (start_world sample_queue)"
  let ?v2 = "snd (reconcile_batch sample_env 0 [entry_of_row sample_entry] ?v)"
  have f: "db_fault sample_env n = Healthy" "\<not> ctx_done sample_env n" for n by (simp_all add: sample_env_def quiet_env_def)
  have q: "match_reconciliation (w_db (start_world sample_queue)) = [sample_entry]" "rr_tries sample_entry = 0"
    by (simp_all add: start_world_def sample_queue_def sample_entry_def)
  have v2: "match_reconciliation (w_db ?v2) = []" by code_simp
  have "GetPendingReconciliations sample_env RECONCILE_BATCH_SIZE RECONCILE_MAX_TRIES (start_world sample_queue) =
      (Inr [entry_of_row sample_entry], ?v)"
    using q by (simp add: pending_healthy f RECONCILE_BATCH_SIZE_def RECONCILE_MAX_TRIES_def)
  moreover have "reconcile_batch sample_env 0 [entry_of_row sample_entry] ?v = (Inr (), ?v2)"
    using reconcile_batch_alive [of sample_env 0 "[entry_of_row sample_entry]" ?v] f(2) by (metis prod.collapse)
  ultimately have "Reconcile sample_env (start_world sample_queue) = Reconcile sample_env ?v2"
    using Reconcile_step [where w = "start_world sample_queue"] by blast
  also have "\<dots> = Some (Inr (), tick ?v2)" by (rule Reconcile_last) (simp_all only: v2 f, simp)
  finally show ?thesis using v2 by simp
qed


text \<open>
  C17: Once the context's deadline has passed for good, a reconciliation returns, whatever the
  database and the data sources answer.
\<close>

theorem Reconcile_terminates:
  assumes "\<exists>N. \<forall>n \<ge> N. ctx_done e n"
  shows "\<exists>r w'. Reconcile e w = Some (r, w')"
proof -
  obtain N where "\<And>n. N \<le> n \<Longrightarrow> ctx_done e n" using assms by blast
  from Reconcile_returns_by [OF this] show ?thesis by fastforce
qed

theorem Reconcile_terminates_witness:
  "\<exists>r w'. Reconcile (sample_env\<lparr>ctx_done := (\<lambda>n. 30 \<le> n)\<rparr>) (start_world sample_queue) = Some (r, w')"
  by (rule Reconcile_terminates) auto

text \<open>
  C29: A reconciliation that reports success leaves no entry with tries left in the queue.
\<close>

theorem Reconcile_drains:
  assumes "Reconcile e w = Some (Inr (), w')" and "r \<in> set (match_reconciliation (w_db w'))"
  shows "5 \<le> rr_tries r"
  using Reconcile_success [OF assms(1)] assms(2) by (simp add: RECONCILE_MAX_TRIES_def)

definition tired_queue :: tables where
  "tired_queue = empty_tables\<lparr>match_reconciliation := [sample_entry\<lparr>rr_tries := 5\<rparr>]\<rparr>"

theorem Reconcile_drains_witness:
  "list_all (\<lambda>r. 5 \<le> rr_tries r) (match_reconciliation (w_db (tick (start_world tired_queue))))"
proof -
  have "Reconcile quiet_env (start_world tired_queue) = Some (Inr (), tick (start_world tired_queue))"
    by (rule Reconcile_last) code_simp+
  then show ?thesis using Reconcile_drains by (fastforce simp: list_all_iff)
qed

text \<open>
  C20: No run takes the counter of an entry past five.
\<close>

theorem Reconcile_tries_invariant:
  assumes "Reconcile e w = Some (r, w')" and "wf_tables (w_db w)"
    and "\<forall>q \<in> set (match_reconciliation (w_db w)). rr_tries q \<le> 5"
  shows "\<forall>q \<in> set (match_reconciliation (w_db w')). rr_tries q \<le> 5"
  using Reconcile_tries_bounded [OF assms(1,2)] assms(3)
  by (simp add: tries_bounded_def RECONCILE_MAX_TRIES_def)

theorem Reconcile_tries_invariant_witness:
  "\<exists>w'. Reconcile quiet_env (start_world sample_queue) = Some (Inr (), w') \<and>
     list_all (\<lambda>q. rr_tries q \<le> 5) (match_reconciliation (w_db w'))"
proof -
  have "\<forall>q \<in> set (match_reconciliation (w_db (start_world sample_queue))). 0 \<le> rr_tries q \<and> rr_tries q \<le> 5" by code_simp
  moreover have "wf_tables (w_db (start_world sample_queue))" by code_simp
  moreover have "outage 26 quiet_env" by (simp add: outage_def quiet_env_def)
  moreover have "w_tick (start_world sample_queue) + 5 * open_work (w_db (start_world sample_queue)) < 26" by code_simp
  ultimately obtain w' where "Reconcile quiet_env (start_world sample_queue) = Some (Inr (), w')"
    using Reconcile_outage [OF _ _ only_counted_refl] by blast
  then show ?thesis
    unfolding list_all_iff using Reconcile_tries_invariant \<open>wf_tables _\<close> \<open>\<forall>q \<in> set _. _ \<and> _\<close> by blast
qed

text \<open>
  C18: An entry leaves the queue only when its data source has delivered a final result for it and a
  row with that result's key carries the final status, whatever fails on the way.
\<close>

theorem Reconcile_no_loss:
  assumes "Reconcile e w = Some (r, w')" and "wf_tables (w_db w)" and "q \<in> set (match_reconciliation (w_db w))"
  shows "(\<exists>q' \<in> set (match_reconciliation (w_db w')). rr_id q' = rr_id q \<and> recon_key q' = recon_key q) \<or>
    (\<exists>src m w0 w1. getProviderForReconcile e (rr_provider q) = Inr src \<and>
       FetchMatchByID src (rr_provider_match_id q) w0 = (Inr m, w1) \<and> Status m = Finished \<and>
       (\<exists>row \<in> set (matches (w_db w')). match_key row = key_of m \<and> row_status row = Finished))"
proof -
  have "present (rr_id q) (rr_provider_match_id q, rr_provider q) (w_db w)"
    using assms(3) by (auto simp: present_def recon_key_def)
  from Reconcile_recovers [OF assms(1,2) this] show ?thesis
    by (simp add: present_def recovered_def recon_key_def)
qed

theorem Reconcile_no_loss_witness:
  "\<exists>w'. Reconcile sample_env (start_world sample_queue) = Some (Inr (), w') \<and>
     match_reconciliation (w_db w') = [] \<and>
     (\<exists>m. \<exists>row \<in> set (matches (w_db w')). match_key row = key_of m \<and> row_status row = Finished)"
proof -
  obtain w' where w': "Reconcile sample_env (start_world sample_queue) = Some (Inr (), w')"
    "match_reconciliation (w_db w') = []" using sample_run by blast
  have "wf_tables (w_db (start_world sample_queue))" by code_simp
  moreover have "sample_entry \<in> set (match_reconciliation (w_db (start_world sample_queue)))"
    by (simp add: start_world_def sample_queue_def)
  ultimately show ?thesis using Reconcile_no_loss [OF w'(1)] w' by fastforce
qed

text \<open>
  C19: Saving a reconciled match and removing its entry happen together or not at all: whatever call
  of the transaction fails, the tables afterwards are those before it or those with the match written
  and the entry gone; when the call reports success it is the latter.
\<close>

theorem saveAndRemove_atomic:
  "w_db (snd (saveAndRemoveFromQueue e m i w)) = w_db w \<and> fst (saveAndRemoveFromQueue e m i w) \<noteq> Inr () \<or>
   (\<exists>n t. upsert_match (db_now e (Suc (w_tick w))) (match_to_row e m) (w_db w) = Inr (n, t) \<and>
      w_db (snd (saveAndRemoveFromQueue e m i w)) =
        t\<lparr>match_reconciliation := filter (\<lambda>q. rr_id q \<noteq> i) (match_reconciliation (w_db w))\<rparr>)"
proof -
  obtain r w' where "saveAndRemoveFromQueue e m i w = (r, w')" by (cases "saveAndRemoveFromQueue e m i w")
  from saveAndRemoveFromQueue_db [OF this] this show ?thesis
    by (auto simp: saved_and_removed_def drop_queue_def)
qed

text \<open>
  C32: An outage of the data sources uses all tries up: when neither source answers and the database is
  well, and the deadline leaves at least five interactions for every try that is left, a single run gives
  every pending entry up. It returns success; the matches, the sync state and the entries that had no try
  left are as before, and every other entry keeps its place and has five tries and the time of its last
  attempt, nothing else of it changed. (The deadline is two minutes and the pause within a batch seven
  seconds, so the condition is met when the queue is short: one to four entries that were never tried.)
\<close>

theorem Reconcile_outage_gives_up:
  assumes "\<And>n. n < N \<Longrightarrow> db_fault e n = Healthy \<and> \<not> ctx_done e n"
    and "\<And>n url. n < N \<Longrightarrow> http_get e n url = HttpFailed"
    and "\<And>c n i. n < N \<Longrightarrow> \<exists>er. fo_get_match e c n i = Inl er"
    and "wf_tables (w_db w)" and "\<And>q. q \<in> set (match_reconciliation (w_db w)) \<Longrightarrow> 0 \<le> rr_tries q"
    and "w_tick w + 5 * sum_list (map (\<lambda>q. nat (5 - rr_tries q)) (match_reconciliation (w_db w))) < N"
  shows "\<exists>w'. Reconcile e w = Some (Inr (), w') \<and>
    matches (w_db w') = matches (w_db w) \<and> sync_state (w_db w') = sync_state (w_db w) \<and>
    list_all2 (\<lambda>q q'. if 5 \<le> rr_tries q then q' = q
        else \<exists>now. q' = q\<lparr>rr_tries := 5, rr_reconciled_at := Some now\<rparr>)
      (match_reconciliation (w_db w)) (match_reconciliation (w_db w'))"
proof -
  have out: "outage N e" unfolding outage_def using assms(1-3) by blast
  have self: "only_counted (w_db w) (w_db w)" using assms(5) by (intro only_counted_refl) blast
  have "w_tick w + 5 * open_work (w_db w) < N"
    using assms(6) by (simp add: open_work_def open_tries_def [abs_def] RECONCILE_MAX_TRIES_def)
  from Reconcile_outage [OF out assms(4) self this] obtain w' where
    w': "Reconcile e w = Some (Inr (), w')" "only_counted (w_db w) (w_db w')" by blast
  have "list_all2 (\<lambda>q q'. if 5 \<le> rr_tries q then q' = q
        else \<exists>now. q' = q\<lparr>rr_tries := 5, rr_reconciled_at := Some now\<rparr>)
      (match_reconciliation (w_db w)) (match_reconciliation (w_db w'))"
  proof (rule list.rel_mono_strong)
    show "list_all2 counted_up (match_reconciliation (w_db w)) (match_reconciliation (w_db w'))"
      using w'(2) by (simp add: only_counted_def)
  next
    fix q q'
    assume "q' \<in> set (match_reconciliation (w_db w'))" "counted_up q q'"
    then have "5 \<le> rr_tries q'" "counted_up q q'"
      using Reconcile_success [OF w'(1)] by (simp_all add: RECONCILE_MAX_TRIES_def)
    then show "if 5 \<le> rr_tries q then q' = q else \<exists>now. q' = q\<lparr>rr_tries := 5, rr_reconciled_at := Some now\<rparr>"
      by (auto simp: counted_up_def RECONCILE_MAX_TRIES_def)
  qed
  with w' show ?thesis by (auto simp: only_counted_def)
qed

text \<open>The entry of the sample, with a deadline after 26 interactions.\<close>

theorem Reconcile_outage_gives_up_witness:
  "\<exists>w' now. Reconcile (quiet_env\<lparr>ctx_done := (\<lambda>n. 26 \<le> n)\<rparr>) (start_world sample_queue) = Some (Inr (), w') \<and>
     match_reconciliation (w_db w') = [sample_entry\<lparr>rr_tries := 5, rr_reconciled_at := Some now\<rparr>]"
proof -
  let ?e = "quiet_env\<lparr>ctx_done := (\<lambda>n. 26 \<le> n)\<rparr>" and ?w = "start_world sample_queue"
  have q: "match_reconciliation (w_db ?w) = [sample_entry]" "rr_tries sample_entry = 0" "w_tick ?w = 0"
    by (simp_all add: start_world_def sample_queue_def sample_entry_def)
  moreover have "wf_tables (w_db ?w)" by code_simp
  moreover have "n < 26 \<Longrightarrow> db_fault ?e n = Healthy \<and> \<not> ctx_done ?e n" "http_get ?e n u = HttpFailed"
    "\<exists>er. fo_get_match ?e c n i = Inl er" for n u c i
    by (simp_all add: quiet_env_def)
  ultimately show ?thesis
    using Reconcile_outage_gives_up [of 26 ?e ?w] by (auto simp: list_all2_Cons1)
qed

text \<open>
  Within one batch no request follows another without a pause of seven seconds in between.
\<close>

theorem reconcile_batch_throttled:
  "\<exists>evs. w_log (snd (reconcile_batch e 0 es w)) = w_log w @ evs \<and> spaced (seconds 7) False evs"
  using reconcile_batch_spaced [of e 0 es w] by (simp add: RECONCILE_REQUEST_DELAY_def)

text \<open>
  Between batches there is no pause: with a single pending entry and data sources that fail, one
  run sends five requests for it one right after the other.
\<close>

theorem Reconcile_single_entry_unthrottled:
  assumes "\<And>n. n < N \<Longrightarrow> db_fault e n = Healthy \<and> \<not> ctx_done e n"
    and "\<And>n url. n < N \<Longrightarrow> http_get e n url = HttpFailed"
    and "\<And>c n i. n < N \<Longrightarrow> \<exists>er. fo_get_match e c n i = Inl er" and "w_tick w + 25 < N"
    and "match_reconciliation (w_db w) = [q]" and "rr_provider q = FootballOrg" and "rr_tries q = 0"
  shows "\<exists>w'. Reconcile e w = Some (Inr (), w') \<and>
    w_log w' = w_log w @ replicate 5 (ApiRequest (''GetMatch '' @ rr_provider_match_id q))"
proof -
  have "outage N e" unfolding outage_def using assms(1-3) by blast
  from Reconcile_single [OF this assms(5,6)] assms(4,7) show ?thesis by (simp add: open_tries_def RECONCILE_MAX_TRIES_def)
qed

theorem Reconcile_single_entry_unthrottled_witness:
  "\<exists>w'. Reconcile quiet_env (start_world sample_queue) = Some (Inr (), w') \<and>
     w_log w' = replicate 5 (ApiRequest ''GetMatch 7'')"
  using Reconcile_single_entry_unthrottled [of 26 quiet_env "start_world sample_queue" sample_entry]
  by (simp add: quiet_env_def start_world_def sample_queue_def sample_entry_def)

text \<open>
  C31: A final result that can never be saved keeps a run busy until its deadline: if the source of a
  pending entry answers every request before the deadline with a final result, but never with one that
  fits the table, then the run, with a database that is well until the deadline and refuses every call
  after it, ends in an error and not before the deadline, and leaves the entry as it was, its tries not
  counted, so that the next run meets it again.
\<close>

theorem Reconcile_retries_until_deadline:
  assumes "\<And>n. ctx_done e n \<longleftrightarrow> N \<le> n" and "\<And>n. db_fault e n = (if n < N then Healthy else Lost)"
    and "wf_tables (w_db w)" and "q \<in> set (match_reconciliation (w_db w))" and "rr_tries q < 5"
    and "getProviderForReconcile e (rr_provider q) = Inr src"
    and "\<And>w. w_tick w < N \<Longrightarrow> \<exists>m w1. FetchMatchByID src (rr_provider_match_id q) w = (Inr m, w1) \<and> Status m = Finished"
    and "\<And>w m w1. FetchMatchByID src (rr_provider_match_id q) w = (Inr m, w1) \<Longrightarrow> Status m = Finished \<Longrightarrow>
           \<not> row_fits (match_to_row e m)"
  shows "\<exists>er w'. Reconcile e w = Some (Inl er, w') \<and> N \<le> w_tick w' \<and> q \<in> set (match_reconciliation (w_db w'))"
proof (rule Reconcile_stuck [OF _ assms(3,4)])
  show "deadline N e" using assms(1,2) by (simp add: deadline_def)
  show "rr_tries q < RECONCILE_MAX_TRIES" using assms(5) by (simp add: RECONCILE_MAX_TRIES_def)
  show "unsavable N e q" unfolding unsavable_def using assms(6-8) by blast
qed

text \<open>A source that reports three billion goals, and a deadline after thirty interactions.\<close>

definition huge_env :: provider_env where
  "huge_env = sample_env\<lparr>fo_get_match := (\<lambda>_ _ _. Inr (sample_fo\<lparr>fo_FullTimeHome := Some 3000000000\<rparr>)),
     ctx_done := (\<lambda>n. 30 \<le> n), db_fault := (\<lambda>n. if n < 30 then Healthy else Lost)\<rparr>"

lemma huge_fetch:
  "\<exists>m w1. fo_FetchMatchByID huge_env (fo_NewProvider huge_env) ''7'' w = (Inr m, w1) \<and> Status m = Finished \<and>
     \<not> row_fits (match_to_row huge_env m)"
proof -
  let ?c = "\<lambda>u. convertToEntityMatch (keccak huge_env) u (sample_fo\<lparr>fo_FullTimeHome := Some 3000000000\<rparr>) LaLiga
      FootballOrgTeamMapping"
  have ok: "is_ok (?c 0)" by code_simp
  have map: "FootballOrgIDToCompetition (fo_CompetitionID (sample_fo\<lparr>fo_FullTimeHome := Some 3000000000\<rparr>)) = Some LaLiga"
    by code_simp
  have "is_ok (?c u) = is_ok (?c 0)" for u
    by (simp add: convertToEntityMatch_def NewMatch_def Let_def is_ok_def split: option.split sum.split)
  with ok obtain m where m: "?c (uuid_new huge_env (Suc (w_tick w))) = Inr m" by (auto simp: is_ok_iff)
  then obtain home away start where "NewMatch (keccak huge_env) (uuid_new huge_env (Suc (w_tick w))) start FootballOrg
      (show_nat (unat (fo_ID (sample_fo\<lparr>fo_FullTimeHome := Some 3000000000\<rparr>)))) home away 3000000000 1 LaLiga Finished = Inr m"
    by (rule convertToEntityMatch_ok) (simp add: sample_fo_def isInFinalStatus_def)
  from NewMatch_fields(7,10) [OF this] have "HomeTeamScore m = 3000000000" "Status m = Finished"
    by (simp_all add: Finished_def)
  then have "\<not> row_fits (match_to_row huge_env m)" "Status m = Finished"
    by (simp_all add: row_fits_def match_to_row_def int4_def)
  moreover have "fst (fo_FetchMatchByID huge_env (fo_NewProvider huge_env) ''7'' w) = Inr m"
    using m map by (simp add: fo_FetchMatchByID_def huge_env_def Let_def)
  ultimately show ?thesis by (metis prod.collapse)
qed

theorem Reconcile_retries_until_deadline_witness:
  "\<exists>er w'. Reconcile huge_env (start_world sample_queue) = Some (Inl er, w') \<and>
     sample_entry \<in> set (match_reconciliation (w_db w')) \<and> rr_tries sample_entry = 0"
proof -
  let ?src = "football_org huge_env"
  have fetch: "\<exists>m w1. FetchMatchByID ?src (rr_provider_match_id sample_entry) w = (Inr m, w1) \<and> Status m = Finished \<and>
      \<not> row_fits (match_to_row huge_env m)" for w
    using huge_fetch [of w] by (simp add: sample_entry_def)
  have "\<exists>er w'. Reconcile huge_env (start_world sample_queue) = Some (Inl er, w') \<and> 30 \<le> w_tick w' \<and>
      sample_entry \<in> set (match_reconciliation (w_db w'))"
  proof (rule Reconcile_retries_until_deadline [where src = ?src])
    show "wf_tables (w_db (start_world sample_queue))" by code_simp
    show "sample_entry \<in> set (match_reconciliation (w_db (start_world sample_queue)))"
      by (simp add: start_world_def sample_queue_def)
    show "\<exists>m w1. FetchMatchByID ?src (rr_provider_match_id sample_entry) w = (Inr m, w1) \<and> Status m = Finished" for w
      using fetch [of w] by blast
    show "\<not> row_fits (match_to_row huge_env m)"
      if "FetchMatchByID ?src (rr_provider_match_id sample_entry) w = (Inr m, w1)" for w m w1
      using fetch [of w] that by auto
  qed (simp_all add: huge_env_def sample_entry_def getProviderForReconcile_def)
  then show ?thesis by (auto simp: sample_entry_def)
qed

end
