(* ===== verification/Db_Config.thy ===== *)
theory Db_Config
  imports Go_Time
begin

text \<open>
  The three copies of package \<open>config\<close> (\<open>db.go\<close> of the provider, the signer and the relayer): the
  connection string and the opening of the pool. The \<open>database/sql\<close> driver is an argument.
\<close>

text \<open>The calls of \<open>database/sql\<close>: \<open>Open\<close> on a connection string, \<open>Ping\<close> with an optional timeout.\<close>

record 'db sql_driver =
  sql_open :: "string \<Rightarrow> (string, 'db) result"
  sql_ping :: "'db \<Rightarrow> duration option \<Rightarrow> (string, unit) result"

datatype config_error = OpenFailed string | PingFailed string

definition db_name :: string where "db_name = ''sports_pulse''"

definition conn_str :: "(string \<Rightarrow> string) \<Rightarrow> string" where
  "conn_str env =
     ''host='' @ env ''DB_HOST'' @ '' port='' @ env ''DB_PORT'' @ '' user='' @ env ''DB_USER'' @
     '' password='' @ env ''DB_PASSWORD'' @ '' dbname='' @ db_name @ '' sslmode=disable''"

definition open_pool ::
  "'db sql_driver \<Rightarrow> duration option \<Rightarrow> (string \<Rightarrow> string) \<Rightarrow> (config_error, 'db) result" where
  "open_pool drv limit env =
     (case sql_open drv (conn_str env) of
        Inl er \<Rightarrow> Inl (OpenFailed er)
      | Inr db \<Rightarrow>
          (case sql_ping drv db limit of
             Inl er \<Rightarrow> Inl (PingFailed er)
           | Inr _ \<Rightarrow> Inr db))"

definition provider_InitDB :: "'db sql_driver \<Rightarrow> (string \<Rightarrow> string) \<Rightarrow> (config_error, 'db) result" where
  "provider_InitDB drv env = open_pool drv None env"

definition signer_InitDB :: "'db sql_driver \<Rightarrow> (string \<Rightarrow> string) \<Rightarrow> (config_error, 'db) result" where
  "signer_InitDB drv env = open_pool drv (Some (seconds 5)) env"

text \<open>The relayer's version also says whether the caller has to close the pool.\<close>

definition relayer_InitDB :: "'db sql_driver \<Rightarrow> (string \<Rightarrow> string) \<Rightarrow> (config_error, 'db \<times> bool) result" where
  "relayer_InitDB drv env =
     (case open_pool drv None env of Inl er \<Rightarrow> Inl er | Inr db \<Rightarrow> Inr (db, True))"

lemma open_pool_ok:
  "open_pool drv limit env = Inr db \<longleftrightarrow> sql_open drv (conn_str env) = Inr db \<and> is_ok (sql_ping drv db limit)"
  by (auto simp: open_pool_def is_ok_iff split: sum.split)

end
