(* ===== verification/Provider_Main.thy ===== *)
theory Provider_Main
  imports Reconcile Db_Config
begin

text \<open>
  The provider binary (\<open>src/provider/cmd/provider/main.go\<close>): argument and environment checks, the
  choice between a sync and a reconciliation, the exit codes.
\<close>

definition SUCCESS :: int where [go_const]: "SUCCESS = 0"
definition BAD_ARGUMENTS :: int where [go_const]: "BAD_ARGUMENTS = 1"
definition CONFIG_ERROR :: int where [go_const]: "CONFIG_ERROR = 2"
definition DB_INIT_ERROR :: int where [go_const]: "DB_INIT_ERROR = 3"
definition PROVIDER_ERROR :: int where [go_const]: "PROVIDER_ERROR = 4"

definition validateAPIKeys :: "(string \<Rightarrow> string) \<Rightarrow> (string, unit) result" where
  "validateAPIKeys env =
     (let missing = (if env ''APIFOOTBALL_API_KEY'' = [] then [''APIFOOTBALL_API_KEY''] else []) @
                    (if env ''FOOTBALL_ORG_API_KEY'' = [] then [''FOOTBALL_ORG_API_KEY''] else [])
      in if missing \<noteq> []
         then Inl (''missing required environment variable(s): '' @ join_strings '', '' missing)
         else Inr ())"

text \<open>
  \<open>main\<close> returns the argument of \<open>os.Exit\<close>; \<open>None\<close> is a reconciliation that never ends.
\<close>

definition provider_main ::
  "'z provider_env_scheme \<Rightarrow> 'db sql_driver \<Rightarrow> string list \<Rightarrow> world \<Rightarrow> (int \<times> world) option" where
  "provider_main e drv args w =
     (if args = [] then Some (BAD_ARGUMENTS, w)
      else (case validateAPIKeys (getenv e) of
        Inl _ \<Rightarrow> Some (CONFIG_ERROR, w)
      | Inr _ \<Rightarrow>
          (case provider_InitDB drv (getenv e) of
             Inl _ \<Rightarrow> Some (DB_INIT_ERROR, w)
           | Inr db \<Rightarrow>
               (case InitRepositories (Some db) of
                  Inl _ \<Rightarrow> Some (DB_INIT_ERROR, w)
                | Inr repositories \<Rightarrow>
                    if hd args = ''--reconcile'' then
                      (if length args \<noteq> 1 then Some (BAD_ARGUMENTS, w)
                       else (case Reconcile e w of
                               None \<Rightarrow> None
                             | Some (Inl _, w') \<Rightarrow> Some (PROVIDER_ERROR, w')
                             | Some (Inr _, w') \<Rightarrow> Some (SUCCESS, w')))
                    else if length args \<noteq> 2 then Some (BAD_ARGUMENTS, w)
                    else (case Sync e (args ! 0) (args ! 1) (SystemClock e) w of
                            (Inl _, w') \<Rightarrow> Some (PROVIDER_ERROR, w')
                          | (Inr _, w') \<Rightarrow> Some (SUCCESS, w'))))))"

section \<open>Exit codes\<close>

lemma InitRepositories_some [simp]:
  "InitRepositories (Some db) = Inr \<lparr>MatchRepo = db, SyncStateRepo = db, ReconciliationRepo = db\<rparr>"
  by (simp add: InitRepositories_def NewMatchRepository_def NewSyncStateRepository_def
      NewReconciliationRepository_def)

lemma validateAPIKeys_ok:
  "validateAPIKeys env = Inr () \<longleftrightarrow> env ''APIFOOTBALL_API_KEY'' \<noteq> [] \<and> env ''FOOTBALL_ORG_API_KEY'' \<noteq> []"
  by (simp add: validateAPIKeys_def)

text \<open>The two ways to success, and nothing is touched by a run that ends before them.\<close>

lemma provider_main_cases:
  assumes "provider_main e drv args w = Some (code, w')"
  obtains (refused) "code \<in> {BAD_ARGUMENTS, CONFIG_ERROR, DB_INIT_ERROR}" "w' = w"
  | (reconciled) r where "args = [''--reconcile'']" "Reconcile e w = Some (r, w')"
      "code = (if is_ok r then SUCCESS else PROVIDER_ERROR)"
  | (synced) r p c where "args = [p, c]" "p \<noteq> ''--reconcile''" "Sync e p c (SystemClock e) w = (r, w')"
      "code = (if is_ok r then SUCCESS else PROVIDER_ERROR)"
proof (cases "code \<in> {BAD_ARGUMENTS, CONFIG_ERROR, DB_INIT_ERROR}")
  case True
  then have "w' = w"
    using assms
    by (auto simp: provider_main_def go_const split: if_splits sum.splits option.splits prod.splits)
  with True refused show thesis by blast
next
  case False
  show thesis
  proof (cases "hd args = ''--reconcile''")
    case reco: True
    then have one: "length args = 1" and "args \<noteq> []" and "\<exists>r. Reconcile e w = Some (r, w') \<and>
        code = (if is_ok r then SUCCESS else PROVIDER_ERROR)"
      using assms False
      by (auto simp: provider_main_def split: if_splits sum.splits option.splits prod.splits)
    moreover have "args = [''--reconcile'']" using one reco by (cases args) auto
    ultimately show thesis using reconciled by blast
  next
    case sync: False
    then have two: "length args = 2" and s: "\<exists>r. Sync e (args ! 0) (args ! 1) (SystemClock e) w = (r, w') \<and>
        code = (if is_ok r then SUCCESS else PROVIDER_ERROR)"
      using assms False
      by (auto simp: provider_main_def split: if_splits sum.splits option.splits prod.splits)
    obtain p c where pc: "args = [p, c]" using two by (auto simp: numeral_2_eq_2 length_Suc_conv)
    with s sync synced show thesis by auto
  qed
qed

section \<open>Properties\<close>

text \<open>
  C40: What the exit code of the provider says: 1, 2 and 3 mean nothing was touched; 0 after
  \<open>--reconcile\<close> means the reconciliation returned without error and left no entry that
  still has tries; 0 otherwise means the sync of the two arguments succeeded; everything else is 4.
\<close>

theorem provider_exit_codes:
  assumes "provider_main e drv args w = Some (code, w')"
  shows "code \<in> {1, 2, 3} \<and> w' = w \<or>
    code = 4 \<and> (args = [''--reconcile''] \<or> length args = 2) \<or>
    code = 0 \<and> args = [''--reconcile''] \<and> Reconcile e w = Some (Inr (), w') \<and>
      (\<forall>q \<in> set (match_reconciliation (w_db w')). 5 \<le> rr_tries q) \<or>
    code = 0 \<and> (\<exists>p c. args = [p, c] \<and> Sync e p c (SystemClock e) w = (Inr (), w'))"
  using assms
proof (cases rule: provider_main_cases)
  case refused
  then show ?thesis by (auto simp: go_const)
next
  case (reconciled r)
  show ?thesis
  proof (cases r)
    case (Inr u)
    with reconciled have rec: "Reconcile e w = Some (Inr (), w')" by simp
    from Reconcile_success [OF this] have "\<forall>q \<in> set (match_reconciliation (w_db w')). 5 \<le> rr_tries q"
      by (auto simp: RECONCILE_MAX_TRIES_def)
    with reconciled rec Inr show ?thesis by (simp add: go_const)
  qed (use reconciled in \<open>simp add: go_const\<close>)
next
  case (synced r p c)
  then show ?thesis by (cases r) (auto simp: go_const)
qed

definition open_driver :: "unit sql_driver" where
  "open_driver = \<lparr>sql_open = (\<lambda>_. Inr ()), sql_ping = (\<lambda>_ _. Inr ())\<rparr>"

theorem provider_exit_codes_witness:
  "\<exists>w'. provider_main quiet_env open_driver [''--reconcile''] (start_world tired_queue) = Some (0, w') \<and>
     list_all (\<lambda>q. 5 \<le> rr_tries q) (match_reconciliation (w_db w'))"
proof -
  have "Reconcile quiet_env (start_world tired_queue) = Some (Inr (), tick (start_world tired_queue))"
    by (rule Reconcile_last) code_simp+
  moreover have "is_ok (validateAPIKeys (getenv quiet_env)) \<and> is_ok (provider_InitDB open_driver (getenv quiet_env))"
    by code_simp
  ultimately have run: "provider_main quiet_env open_driver [''--reconcile''] (start_world tired_queue) =
      Some (0, tick (start_world tired_queue))"
    by (auto simp: provider_main_def go_const is_ok_iff)
  from provider_exit_codes [OF run] run show ?thesis by (auto simp: list_all_iff)
qed

text \<open>
  The provider always exits, provided the deadline of its context passes for good.
\<close>

theorem provider_terminates:
  assumes "\<exists>N. \<forall>n \<ge> N. ctx_done e n"
  shows "\<exists>code w'. provider_main e drv args w = Some (code, w')"
proof -
  obtain N where "\<And>n. N \<le> n \<Longrightarrow> ctx_done e n" using assms by blast
  from Reconcile_returns_by [OF this] obtain r w' where "Reconcile e w = Some (r, w')" by fastforce
  then show ?thesis
    by (cases r; cases "Sync e (args ! 0) (args ! 1) (SystemClock e) w")
      (auto simp: provider_main_def split: sum.split)
qed

theorem provider_terminates_witness:
  "\<exists>code w'. provider_main (sample_env\<lparr>ctx_done := (\<lambda>n. 30 \<le> n)\<rparr>) open_driver [''--reconcile''] (start_world sample_queue) =
     Some (code, w')"
  by (rule provider_terminates) auto

end
