(* ===== verification/Eth_Keys.thy ===== *)
theory Eth_Keys
  imports Go_Time
begin

text \<open>
  The private keys of the signer and the relayer: \<open>src/signer/internal/service/load_private_key.go\<close>
  and \<open>parsePrivateKey\<close> of \<open>src/relayer/internal/config/env.go\<close>. \<open>crypto.ToECDSA\<close> of go-ethereum is
  an argument.
\<close>

text \<open>\<open>*ecdsa.PrivateKey\<close>: its scalar as bytes, and whether its curve is \<open>crypto.S256()\<close>.\<close>

record ecdsa_key =
  key_bytes :: "byte list"
  key_on_s256 :: bool

type_synonym to_ecdsa = "byte list \<Rightarrow> (string, ecdsa_key) result"

datatype key_error =
    KeyNotHex hex_error
  | KeyLength nat
  | KeyRejected string
  | KeyCurve

definition LoadPrivateKey :: "to_ecdsa \<Rightarrow> string \<Rightarrow> (key_error, ecdsa_key) result" where
  "LoadPrivateKey toECDSA hexKey =
     (case hex_decode (trim_prefix hexKey ''0x'') of
        Inl err \<Rightarrow> Inl (KeyNotHex err)
      | Inr privKeyBytes \<Rightarrow>
          if length privKeyBytes \<noteq> 32 then Inl (KeyLength (length privKeyBytes))
          else (case toECDSA privKeyBytes of
                  Inl err \<Rightarrow> Inl (KeyRejected err)
                | Inr privKey \<Rightarrow> if \<not> key_on_s256 privKey then Inl KeyCurve else Inr privKey))"

definition parsePrivateKey :: "to_ecdsa \<Rightarrow> string \<Rightarrow> (key_error, ecdsa_key) result" where
  "parsePrivateKey toECDSA privateKey =
     (let hexKey = trim_prefix privateKey ''0x''
      in (case hex_decode hexKey of
            Inl err \<Rightarrow> Inl (KeyNotHex err)
          | Inr privKeyBytes \<Rightarrow>
              if length privKeyBytes \<noteq> 32 then Inl (KeyLength (length privKeyBytes))
              else (case toECDSA privKeyBytes of
                      Inl err \<Rightarrow> Inl (KeyRejected err)
                    | Inr privKey \<Rightarrow> if \<not> key_on_s256 privKey then Inl KeyCurve else Inr privKey)))"

lemma parsePrivateKey_eq: "parsePrivateKey = LoadPrivateKey"
  by (simp add: fun_eq_iff parsePrivateKey_def LoadPrivateKey_def)

text \<open>The keys that load are those of 32 bytes that the curve accepts, with or without the prefix.\<close>

lemma LoadPrivateKey_hex:
  assumes "p \<in> {'''', ''0x''}"
  shows "LoadPrivateKey f (p @ hex_encode bs) =
    (if length bs \<noteq> 32 then Inl (KeyLength (length bs))
     else (case f bs of Inl er \<Rightarrow> Inl (KeyRejected er)
           | Inr k \<Rightarrow> if key_on_s256 k then Inr k else Inl KeyCurve))"
proof -
  have "trim_prefix (p @ hex_encode bs) ''0x'' = hex_encode bs"
    using assms trim_prefix_append [of "''0x''" "hex_encode bs"] by auto
  then show ?thesis by (simp add: LoadPrivateKey_def hex_decode_encode split: sum.split)
qed

lemma LoadPrivateKey_ok:
  assumes "LoadPrivateKey f s = Inr k"
  obtains bs where "hex_decode (trim_prefix s ''0x'') = Inr bs" "length bs = 32" "f bs = Inr k" "key_on_s256 k"
  using assms by (auto simp: LoadPrivateKey_def split: sum.splits if_splits)

section \<open>Properties\<close>

text \<open>
  The signer and the relayer read private keys alike: both accept exactly the hex strings, with
  or without the 0x prefix, of 32 bytes that the curve takes as a secp256k1 key.
\<close>

theorem key_loaders_agree:
  "parsePrivateKey f s = LoadPrivateKey f s \<and>
   (LoadPrivateKey f s = Inr k \<longleftrightarrow>
     (\<exists>bs. hex_decode (trim_prefix s ''0x'') = Inr bs \<and> length bs = 32 \<and> f bs = Inr k \<and> key_on_s256 k))"
  by (auto simp: parsePrivateKey_eq LoadPrivateKey_def split: sum.split)

end
