(* ===== verification/Signer.thy ===== *)
theory Signer
  imports Store Eth_Keys Db_Config "HOL-Library.Multiset"
begin

text \<open>
  The signer (\<open>src/signer\<close>): it reads the finished matches, signs each with EIP-712 and stores the
  signature together with the new status. The typed-data hashing of go-ethereum's \<open>apitypes\<close>,
  Keccak-256 and ECDSA signing are functions of the environment.
\<close>

section \<open>Entities\<close>

definition SignerFinished :: int where [go_const]: "SignerFinished = 3"
definition Signed :: int where [go_const]: "Signed = 4"

record SignerMatch =
  sm_ID :: uuid
  sm_CanonicalID :: string
  sm_HomeTeamScore :: go_uint
  sm_AwayTeamScore :: go_uint

section \<open>go-ethereum's typed data\<close>

datatype typed_value = TypedString string | TypedInt int

type_synonym typed_message = "(string \<times> typed_value) list"
type_synonym typed_types = "(string \<times> (string \<times> string) list) list"

record typed_domain =
  DomainName :: string
  DomainVersion :: string
  DomainChainId :: int
  VerifyingContract :: string

record typed_data =
  TypedTypes :: typed_types
  PrimaryType :: string
  TypedDomain :: typed_domain
  TypedMsg :: typed_message

record signer_env = db_env +
  s_getenv :: "string \<Rightarrow> string"
  s_keccak :: "byte list \<Rightarrow> byte list"
  s_to_ecdsa :: to_ecdsa
  hash_struct :: "typed_data \<Rightarrow> string \<Rightarrow> typed_message \<Rightarrow> (string, byte list) result"
  domain_map :: "typed_domain \<Rightarrow> typed_message"
  ecdsa_sign :: "byte list \<Rightarrow> ecdsa_key \<Rightarrow> (string, byte list) result"

section \<open>The service\<close>

datatype chain_id_error = ChainIdUnset | ChainIdInvalid string num_error

definition LoadChainId :: "(string \<Rightarrow> string) \<Rightarrow> (chain_id_error, go_uint) result" where
  "LoadChainId env =
     (let chainIdStr = env ''CHAIN_ID'' in
      if chainIdStr = [] then Inl ChainIdUnset
      else (case parse_uint 64 chainIdStr of
              Inl err \<Rightarrow> Inl (ChainIdInvalid chainIdStr err)
            | Inr chainId \<Rightarrow> Inr (word_of_nat chainId)))"

definition ORACLE_NAME :: string where "ORACLE_NAME = ''SportsPulse''"
definition ORACLE_VERSION :: string where "ORACLE_VERSION = ''1''"
definition ORACLE_MATCH_STRUCT_NAME :: string where "ORACLE_MATCH_STRUCT_NAME = ''Match''"

text \<open>The package variables \<open>types\<close> and \<open>domain\<close>, nil until first used.\<close>

record signer_globals =
  g_types :: "typed_types option"
  g_domain :: "typed_domain option"

definition no_globals :: signer_globals where
  "no_globals = \<lparr>g_types = None, g_domain = None\<rparr>"

definition oracle_types :: typed_types where
  "oracle_types =
     [(''EIP712Domain'', [(''name'', ''string''), (''version'', ''string''), (''chainId'', ''uint256''),
                          (''verifyingContract'', ''address'')]),
      (ORACLE_MATCH_STRUCT_NAME, [(''matchId'', ''bytes32''), (''homeScore'', ''uint8''),
                                  (''awayScore'', ''uint8'')])]"

definition getTypes :: "signer_globals \<Rightarrow> typed_types \<times> signer_globals" where
  "getTypes g =
     (case g_types g of
        Some ts \<Rightarrow> (ts, g)
      | None \<Rightarrow> (oracle_types, g\<lparr>g_types := Some oracle_types\<rparr>))"

text \<open>\<open>int64(chainId)\<close> reads the 64-bit word as a signed number.\<close>

definition oracle_domain :: "(string \<Rightarrow> string) \<Rightarrow> go_uint \<Rightarrow> typed_domain" where
  "oracle_domain env chainId =
     \<lparr>DomainName = ORACLE_NAME, DomainVersion = ORACLE_VERSION, DomainChainId = sint chainId,
      VerifyingContract = env ''ORACLE_CONTRACT_ADDRESS''\<rparr>"

definition getDomain :: "(string \<Rightarrow> string) \<Rightarrow> go_uint \<Rightarrow> signer_globals \<Rightarrow> typed_domain \<times> signer_globals" where
  "getDomain env chainId g =
     (case g_domain g of
        Some d \<Rightarrow> (d, g)
      | None \<Rightarrow> (let d = oracle_domain env chainId in (d, g\<lparr>g_domain := Some d\<rparr>)))"

datatype sign_error =
    HashStructFailed string
  | HashDomainFailed string
  | SignFailed string
  | InvalidRecoveryID byte
  | SignatureTooShort nat

text \<open>The typed data of a match.\<close>

definition match_message :: "typed_types \<Rightarrow> typed_domain \<Rightarrow> SignerMatch \<Rightarrow> typed_data" where
  "match_message ts d m =
     (let matchId = (if has_prefix (sm_CanonicalID m) ''0x'' then sm_CanonicalID m
                     else ''0x'' @ sm_CanonicalID m)
      in \<lparr>TypedTypes = ts, PrimaryType = ORACLE_MATCH_STRUCT_NAME, TypedDomain = d,
          TypedMsg = [(''matchId'', TypedString matchId),
                      (''homeScore'', TypedInt (sint (sm_HomeTeamScore m))),
                      (''awayScore'', TypedInt (sint (sm_AwayTeamScore m)))]\<rparr>)"

text \<open>
  Hashing and signing it. Indexing the signature at 64 would panic on a shorter one; that is the
  last error.
\<close>

definition sign_typed ::
  "'z signer_env_scheme \<Rightarrow> typed_data \<Rightarrow> ecdsa_key \<Rightarrow> (sign_error, string) result" where
  "sign_typed e message privKey =
     (case hash_struct e message (PrimaryType message) (TypedMsg message) of
        Inl err \<Rightarrow> Inl (HashStructFailed err)
      | Inr hashedMatch \<Rightarrow>
          (case hash_struct e message ''EIP712Domain'' (domain_map e (TypedDomain message)) of
             Inl err \<Rightarrow> Inl (HashDomainFailed err)
           | Inr domainSeparator \<Rightarrow>
               (case ecdsa_sign e (s_keccak e ([0x19, 0x01] @ domainSeparator @ hashedMatch)) privKey of
                  Inl err \<Rightarrow> Inl (SignFailed err)
                | Inr signature \<Rightarrow>
                    if length signature \<le> 64 then Inl (SignatureTooShort (length signature))
                    else if 1 < signature ! 64 then Inl (InvalidRecoveryID (signature ! 64))
                    else Inr (hex_encode (signature[64 := signature ! 64 + 27])))))"

definition SignMatch ::
  "'z signer_env_scheme \<Rightarrow> SignerMatch \<Rightarrow> ecdsa_key \<Rightarrow> go_uint \<Rightarrow> signer_globals \<Rightarrow>
   (sign_error, string) result \<times> signer_globals" where
  "SignMatch e m privKey chainId g =
     (case getTypes g of (ts, g1) \<Rightarrow>
        (case getDomain (s_getenv e) chainId g1 of (d, g2) \<Rightarrow>
           (sign_typed e (match_message ts d m) privKey, g2)))"

section \<open>The repository\<close>

datatype signer_repo_error = SignerNilDatabase | FindToSignError db_error | StoreSignatureError db_error

definition NewSignerRepository :: "'db option \<Rightarrow> (signer_repo_error, 'db) result" where
  "NewSignerRepository db = (case db of None \<Rightarrow> Inl SignerNilDatabase | Some d \<Rightarrow> Inr d)"

text \<open>A row whose scores do not scan into unsigned fields is logged and skipped.\<close>

definition scan_to_sign :: "match_row \<Rightarrow> SignerMatch option" where
  "scan_to_sign r =
     (if row_home_team_score r < 0 \<or> row_away_team_score r < 0 then None
      else Some \<lparr>sm_ID = row_id r, sm_CanonicalID = row_canonical_id r,
                 sm_HomeTeamScore = word_of_int (row_home_team_score r),
                 sm_AwayTeamScore = word_of_int (row_away_team_score r)\<rparr>)"

definition FindMatchesToSign ::
  "'z db_env_scheme \<Rightarrow> world \<Rightarrow> (signer_repo_error, SignerMatch list) result \<times> world" where
  "FindMatchesToSign e w =
     (case db_query e (\<lambda>t. heap_order e (w_tick w) (filter (\<lambda>r. row_status r = SignerFinished) (matches t))) w of
        (Inl er, w') \<Rightarrow> (Inl (FindToSignError er), w')
      | (Inr rows, w') \<Rightarrow> (Inr (List.map_filter scan_to_sign rows), w'))"

definition StoreSignature ::
  "'z db_env_scheme \<Rightarrow> SignerMatch \<Rightarrow> string \<Rightarrow> world \<Rightarrow> (signer_repo_error, unit) result \<times> world" where
  "StoreSignature e m signature w =
     (case db_exec e (store_signature (sm_ID m) signature Signed) w of
        (Inl er, w') \<Rightarrow> (Inl (StoreSignatureError er), w')
      | (Inr _, w') \<Rightarrow> (Inr (), w'))"

section \<open>The binary\<close>

definition SIGNER_SUCCESS :: int where [go_const]: "SIGNER_SUCCESS = 0"
definition DB_INIT_FAIL :: int where [go_const]: "DB_INIT_FAIL = 1"
definition DB_QUERY_FAIL :: int where [go_const]: "DB_QUERY_FAIL = 2"
definition PRIVATE_KEY_LOAD_FAIL :: int where [go_const]: "PRIVATE_KEY_LOAD_FAIL = 3"
definition CHAIN_ID_NOT_VALID :: int where [go_const]: "CHAIN_ID_NOT_VALID = 4"

text \<open>The body of the loop: a failed signature or a failed store is logged and the loop goes on.\<close>

definition sign_one ::
  "'z signer_env_scheme \<Rightarrow> ecdsa_key \<Rightarrow> go_uint \<Rightarrow> SignerMatch \<Rightarrow> signer_globals \<times> world \<Rightarrow> signer_globals \<times> world" where
  "sign_one e privKey chainId m gw =
     (case gw of (g, w) \<Rightarrow>
        (case SignMatch e m privKey chainId g of
           (Inl err, g') \<Rightarrow> (g', log_event (SlogError ''failed to sign match'' (sm_CanonicalID m)) w)
         | (Inr signature, g') \<Rightarrow>
             (case StoreSignature e m signature w of
                (Inl err, w') \<Rightarrow>
                  (g', log_event (SlogError ''failed to store signature'' (sm_CanonicalID m)) w')
              | (Inr _, w') \<Rightarrow> (g', w'))))"

fun sign_all ::
  "'z signer_env_scheme \<Rightarrow> ecdsa_key \<Rightarrow> go_uint \<Rightarrow> SignerMatch list \<Rightarrow> signer_globals \<times> world \<Rightarrow>
   signer_globals \<times> world" where
  "sign_all e privKey chainId [] gw = gw"
| "sign_all e privKey chainId (m # ms) gw = sign_all e privKey chainId ms (sign_one e privKey chainId m gw)"

definition signer_Run ::
  "'z signer_env_scheme \<Rightarrow> 'db option \<Rightarrow> signer_globals \<times> world \<Rightarrow> int \<times> signer_globals \<times> world" where
  "signer_Run e db gw =
     (case gw of (g, w) \<Rightarrow>
        (case NewSignerRepository db of
           Inl _ \<Rightarrow> (DB_INIT_FAIL, g, w)
         | Inr repo \<Rightarrow>
             (case FindMatchesToSign e w of
                (Inl _, w') \<Rightarrow> (DB_QUERY_FAIL, g, w')
              | (Inr ms, w') \<Rightarrow>
                  if ms = [] then (SIGNER_SUCCESS, g, w')
                  else (case LoadPrivateKey (s_to_ecdsa e) (s_getenv e ''SIGNER_PRIVATE_KEY'') of
                          Inl _ \<Rightarrow> (PRIVATE_KEY_LOAD_FAIL, g, w')
                        | Inr privateKey \<Rightarrow>
                            (case LoadChainId (s_getenv e) of
                               Inl _ \<Rightarrow> (CHAIN_ID_NOT_VALID, g, w')
                             | Inr chainId \<Rightarrow> (SIGNER_SUCCESS, sign_all e privateKey chainId ms (g, w')))))))"

definition signer_main ::
  "'z signer_env_scheme \<Rightarrow> 'db sql_driver \<Rightarrow> world \<Rightarrow> int \<times> world" where
  "signer_main e drv w =
     (case signer_InitDB drv (s_getenv e) of
        Inl _ \<Rightarrow> (DB_INIT_FAIL, w)
      | Inr db \<Rightarrow> (case signer_Run e (Some db) (no_globals, w) of (code, g, w') \<Rightarrow> (code, w')))"

section \<open>Signatures\<close>

text \<open>Within one run the package variables only ever hold the values of that run.\<close>

definition globals_for :: "'z signer_env_scheme \<Rightarrow> go_uint \<Rightarrow> signer_globals \<Rightarrow> bool" where
  "globals_for e chainId g \<longleftrightarrow>
     g_types g \<in> {None, Some oracle_types} \<and> g_domain g \<in> {None, Some (oracle_domain (s_getenv e) chainId)}"

lemma globals_for_none [simp]: "globals_for e chainId no_globals"
  by (simp add: globals_for_def no_globals_def)

lemma getTypes_for:
  "globals_for e c g \<Longrightarrow> fst (getTypes g) = oracle_types \<and> globals_for e c (snd (getTypes g))"
  by (auto simp: getTypes_def globals_for_def)

lemma getDomain_for:
  "globals_for e c g \<Longrightarrow> fst (getDomain (s_getenv e) c g) = oracle_domain (s_getenv e) c \<and>
     globals_for e c (snd (getDomain (s_getenv e) c g))"
  by (auto simp: getDomain_def globals_for_def Let_def)

lemma SignMatch_globals:
  assumes "globals_for e c g"
  shows "fst (SignMatch e m k c g) = fst (SignMatch e m k c no_globals)"
    and "globals_for e c (snd (SignMatch e m k c g))"
proof -
  obtain g1 where 1: "getTypes g = (oracle_types, g1)" "globals_for e c g1"
    using getTypes_for [OF assms] by (metis prod.collapse)
  obtain g2 where 2: "getDomain (s_getenv e) c g1 = (oracle_domain (s_getenv e) c, g2)" "globals_for e c g2"
    using getDomain_for [OF 1(2)] by (metis prod.collapse)
  obtain g3 where 3: "getTypes no_globals = (oracle_types, g3)" "globals_for e c g3"
    using getTypes_for [OF globals_for_none [of e c]] by (metis prod.collapse)
  obtain g4 where 4: "getDomain (s_getenv e) c g3 = (oracle_domain (s_getenv e) c, g4)" "globals_for e c g4"
    using getDomain_for [OF 3(2)] by (metis prod.collapse)
  show "fst (SignMatch e m k c g) = fst (SignMatch e m k c no_globals)"
    by (simp add: SignMatch_def 1 2 3 4)
  show "globals_for e c (snd (SignMatch e m k c g))"
    by (simp add: SignMatch_def 1 2)
qed

text \<open>A signature that comes out is the 65 bytes of the key's signature with the last one moved to 27 or 28.\<close>

lemma sign_typed_ok:
  assumes "sign_typed e message k = Inr s"
  obtains digest sig where "ecdsa_sign e (s_keccak e digest) k = Inr sig" "64 < length sig" "sig ! 64 \<le> 1"
    "s = hex_encode (sig[64 := sig ! 64 + 27])"
  using assms
  by (auto simp: sign_typed_def not_le not_less split: sum.splits if_splits)

lemma recovery_id:
  assumes "(v :: byte) \<le> 1"
  shows "v + 27 = 27 \<or> v + 27 = 28"
proof -
  have "unat v \<le> 1" using assms by (simp add: word_le_nat_alt)
  then have "unat v = 0 \<or> unat v = 1" by linarith
  then have "v = 0 \<or> v = 1" by (auto simp: word_unat_eq_iff)
  then show ?thesis by auto
qed

section \<open>What a run does to the rows\<close>

text \<open>The effect of the run on one row, when nothing fails.\<close>

definition sign_row :: "'z signer_env_scheme \<Rightarrow> ecdsa_key \<Rightarrow> go_uint \<Rightarrow> match_row \<Rightarrow> match_row" where
  "sign_row e k c r =
     (if row_status r \<noteq> SignerFinished then r
      else (case scan_to_sign r of
              None \<Rightarrow> r
            | Some m \<Rightarrow>
                (case fst (SignMatch e m k c no_globals) of
                   Inl _ \<Rightarrow> r
                 | Inr s \<Rightarrow> r\<lparr>row_signature := Some s, row_status := Signed\<rparr>)))"

lemma sign_row_keys [simp]: "row_id (sign_row e k c r) = row_id r" "match_key (sign_row e k c r) = match_key r"
  by (simp_all add: sign_row_def split: option.split sum.split)

lemma StoreSignature_frame [frame_simps]:
  "w_tick (snd (StoreSignature e m s w)) = Suc (w_tick w)"
  "w_log (snd (StoreSignature e m s w)) = w_log w"
  "sync_state (w_db (snd (StoreSignature e m s w))) = sync_state (w_db w)"
  "match_reconciliation (w_db (snd (StoreSignature e m s w))) = match_reconciliation (w_db w)"
  using db_exec_frame [of e "store_signature (sm_ID m) s Signed" w]
    db_exec_db [of e "store_signature (sm_ID m) s Signed" w]
  by (auto simp: StoreSignature_def run_statement_def store_signature_def split: prod.splits sum.splits if_splits)

definition put_signature :: "uuid \<Rightarrow> string \<Rightarrow> match_row list \<Rightarrow> match_row list" where
  "put_signature i s rows =
     map (\<lambda>r. if row_id r = i then r\<lparr>row_signature := Some s, row_status := Signed\<rparr> else r) rows"

lemma StoreSignature_rows:
  "matches (w_db (snd (StoreSignature e m s w))) \<in>
     {matches (w_db w), put_signature (sm_ID m) s (matches (w_db w))}"
  using db_exec_db [of e "store_signature (sm_ID m) s Signed" w]
  by (auto simp: StoreSignature_def run_statement_def store_signature_def put_signature_def
      split: prod.splits sum.splits if_splits)

lemma StoreSignature_healthy:
  assumes "db_fault e (w_tick w) = Healthy" and "varchar255 s"
  shows "StoreSignature e m s w = (Inr (), (tick w)\<lparr>w_db := (w_db w)\<lparr>matches := put_signature (sm_ID m) s (matches (w_db w))\<rparr>\<rparr>)"
  using assms
  by (simp add: StoreSignature_def db_exec_def store_signature_def put_signature_def int4_def Signed_def)

text \<open>A signature always fits its column and never fails to be written when the database is well.\<close>

definition smooth :: "'z signer_env_scheme \<Rightarrow> bool" where
  "smooth e \<longleftrightarrow> (\<forall>n. db_fault e n = Healthy) \<and> (\<forall>d k sig. ecdsa_sign e d k = Inr sig \<longrightarrow> length sig = 65)"

lemma hex_char_nonzero: "n < 16 \<Longrightarrow> hex_char n \<noteq> CHR 0x00"
proof
  assume n: "n < 16" and "hex_char n = CHR 0x00"
  then have "(of_char (hex_char n) :: nat) = of_char (CHR 0x00)" by simp
  with n show False by (simp add: hex_char_def split: if_splits)
qed

lemma varchar_hex_encode:
  assumes "length bs \<le> 127"
  shows "varchar255 (hex_encode bs)"
proof -
  have "CHR 0x00 \<notin> set (hex_encode bs)"
  proof -
    have "CHR 0x00 \<notin> set (hex_encode_byte b)" for b
      using hex_char_nonzero [of "unat b div 16"] hex_char_nonzero [of "unat b mod 16"] unat_byte_less [of b]
      by (auto simp: hex_encode_byte_def less_mult_imp_div_less)
    then show ?thesis by (auto simp: hex_encode_def)
  qed
  moreover have "length (filter P (hex_encode bs)) \<le> 255" for P
    using length_filter_le [of P "hex_encode bs"] assms by simp
  ultimately show ?thesis by (simp add: varchar255_def)
qed

text \<open>
  The bookkeeping of the loop: a row still to be visited is as it was, every other one is signed, or
  as it was if rows may be \<open>skip\<close>ped.
\<close>

definition row_so_far ::
  "'z signer_env_scheme \<Rightarrow> ecdsa_key \<Rightarrow> go_uint \<Rightarrow> bool \<Rightarrow> uuid set \<Rightarrow> match_row \<Rightarrow> match_row \<Rightarrow> bool" where
  "row_so_far e k c skip todo r0 r \<longleftrightarrow>
     (if row_id r0 \<in> todo then r = r0 else r = sign_row e k c r0 \<or> skip \<and> r = r0)"

text \<open>The matches to sign are the scans of finished rows.\<close>

definition scanned :: "SignerMatch list \<Rightarrow> match_row list \<Rightarrow> bool" where
  "scanned ms rows \<longleftrightarrow>
     distinct (map sm_ID ms) \<and>
     (\<forall>m \<in> set ms. \<forall>r \<in> set rows. row_id r = sm_ID m \<longrightarrow>
        scan_to_sign r = Some m \<and> row_status r = SignerFinished)"

lemma sign_one_frame:
  "sync_state (w_db (snd (sign_one e k c m (g, w)))) = sync_state (w_db w) \<and>
   match_reconciliation (w_db (snd (sign_one e k c m (g, w)))) = match_reconciliation (w_db w)"
  using StoreSignature_frame(3,4) [of e m _ w]
  by (auto simp: sign_one_def split: prod.split sum.split) (metis snd_conv)+

text \<open>A rewriting of the rows of one match that signs each, or may skip it, when the match is the next one.\<close>

lemma row_so_far_lift:
  assumes sc: "scanned (m # ms) rows"
    and rel: "list_all2 (row_so_far e k c skip (sm_ID ` set (m # ms))) rows rows'"
    and f: "\<And>r1. row_id r1 \<noteq> sm_ID m \<Longrightarrow> f r1 = r1"
      "\<And>r0. r0 \<in> set rows \<Longrightarrow> row_id r0 = sm_ID m \<Longrightarrow> f r0 = sign_row e k c r0 \<or> skip \<and> f r0 = r0"
  shows "list_all2 (row_so_far e k c skip (sm_ID ` set ms)) rows (map f rows')"
proof -
  have m: "sm_ID m \<notin> sm_ID ` set ms" using sc by (auto simp: scanned_def)
  have visited: "r1 = r0 \<and> scan_to_sign r0 = Some m \<and> row_status r0 = SignerFinished"
    if "r0 \<in> set rows" "row_so_far e k c skip (sm_ID ` set (m # ms)) r0 r1" "row_id r0 = sm_ID m" for r0 r1
    using that sc by (auto simp: row_so_far_def scanned_def)
  have other: "row_so_far e k c skip (sm_ID ` set ms) r0 r1 \<and> row_id r1 \<noteq> sm_ID m"
    if "row_so_far e k c skip (sm_ID ` set (m # ms)) r0 r1" "row_id r0 \<noteq> sm_ID m" for r0 r1
    using that by (auto simp: row_so_far_def split: if_splits)
  have "row_so_far e k c skip (sm_ID ` set ms) r0 (f r1)"
    if "r0 \<in> set rows" "row_so_far e k c skip (sm_ID ` set (m # ms)) r0 r1" for r0 r1
  proof (cases "row_id r0 = sm_ID m")
    case True
    with visited [OF that True] f(2) [OF that(1) True] m show ?thesis by (simp add: row_so_far_def)
  next
    case False
    with other [OF that(2) False] f(1) show ?thesis by simp
  qed
  with rel show ?thesis unfolding list_all2_map2 by (auto simp: list_all2_conv_all_nth)
qed

lemma sign_one_rows:
  assumes g: "globals_for e c g" and sc: "scanned (m # ms) rows" and ok: "skip \<or> smooth e"
    and rel: "list_all2 (row_so_far e k c skip (sm_ID ` set (m # ms))) rows (matches (w_db w))"
    and one: "sign_one e k c m (g, w) = (g', w')"
  shows "globals_for e c g'" and "list_all2 (row_so_far e k c skip (sm_ID ` set ms)) rows (matches (w_db w'))"
proof -
  obtain r g1 where sm: "SignMatch e m k c g = (r, g1)" by (cases "SignMatch e m k c g")
  have r: "fst (SignMatch e m k c no_globals) = r" and g1: "globals_for e c g1"
    using SignMatch_globals [OF g, of m k] sm by simp_all
  have "g' = g1" using one sm by (auto simp: sign_one_def split: sum.splits prod.splits)
  with g1 show "globals_for e c g'" by simp
  note lift = row_so_far_lift [OF sc rel]
  show "list_all2 (row_so_far e k c skip (sm_ID ` set ms)) rows (matches (w_db w'))"
  proof (cases r)
    case (Inl er)
    have "list_all2 (row_so_far e k c skip (sm_ID ` set ms)) rows (map (\<lambda>x. x) (matches (w_db w)))"
    proof (rule lift)
      fix r0
      assume "r0 \<in> set rows" "row_id r0 = sm_ID m"
      with sc have "scan_to_sign r0 = Some m" by (simp add: scanned_def)
      then show "r0 = sign_row e k c r0 \<or> skip \<and> r0 = r0" using r Inl by (simp add: sign_row_def)
    qed simp
    with one sm Inl show ?thesis by (auto simp: sign_one_def)
  next
    case (Inr s)
    have w': "w_db w' = w_db (snd (StoreSignature e m s w))"
      using one sm Inr by (auto simp: sign_one_def split: prod.splits sum.splits)
    have put: "list_all2 (row_so_far e k c skip (sm_ID ` set ms)) rows (put_signature (sm_ID m) s (matches (w_db w)))"
      unfolding put_signature_def
    proof (rule lift)
      fix r0
      assume "r0 \<in> set rows" "row_id r0 = sm_ID m"
      with sc have "scan_to_sign r0 = Some m" "row_status r0 = SignerFinished" by (simp_all add: scanned_def)
      then show "(if row_id r0 = sm_ID m then r0\<lparr>row_signature := Some s, row_status := Signed\<rparr> else r0) =
          sign_row e k c r0 \<or> skip \<and> (if row_id r0 = sm_ID m then r0\<lparr>row_signature := Some s, row_status := Signed\<rparr> else r0) = r0"
        using r Inr \<open>row_id r0 = sm_ID m\<close> by (simp add: sign_row_def)
    qed simp
    show ?thesis
    proof (cases skip)
      case True
      have "list_all2 (row_so_far e k c skip (sm_ID ` set ms)) rows (map (\<lambda>x. x) (matches (w_db w)))"
        by (rule lift) (simp_all add: True)
      with put w' StoreSignature_rows [of e m s w] show ?thesis by auto
    next
      case False
      with ok have sm_e: "smooth e" by simp
      have "sign_typed e (match_message (fst (getTypes g)) (fst (getDomain (s_getenv e) c (snd (getTypes g)))) m) k = Inr s"
        using sm Inr by (simp add: SignMatch_def split: prod.splits)
      then obtain digest sig where "ecdsa_sign e (s_keccak e digest) k = Inr sig" "s = hex_encode (sig[64 := sig ! 64 + 27])"
        by (rule sign_typed_ok)
      with sm_e have "varchar255 s" by (simp add: smooth_def varchar_hex_encode)
      with sm_e put w' show ?thesis by (simp add: smooth_def StoreSignature_healthy)
    qed
  qed
qed

lemma sign_all_rows:
  assumes "globals_for e c g" and "scanned ms rows" and "skip \<or> smooth e"
    and "list_all2 (row_so_far e k c skip (sm_ID ` set ms)) rows (matches (w_db w))"
    and "sign_all e k c ms (g, w) = (g', w')"
  shows "list_all2 (row_so_far e k c skip {}) rows (matches (w_db w')) \<and>
    sync_state (w_db w') = sync_state (w_db w) \<and> match_reconciliation (w_db w') = match_reconciliation (w_db w)"
  using assms
proof (induction ms arbitrary: g w)
  case (Cons m ms)
  obtain g1 w1 where one: "sign_one e k c m (g, w) = (g1, w1)" by (cases "sign_one e k c m (g, w)")
  note step = sign_one_rows [OF Cons.prems(1-4) one]
  have "scanned ms rows" using Cons.prems(2) by (auto simp: scanned_def)
  moreover have "sign_all e k c ms (g1, w1) = (g', w')" using Cons.prems(5) one by simp
  ultimately show ?case
    using Cons.IH [OF step(1) _ Cons.prems(3) step(2)] sign_one_frame [of e k c m g w] one by simp
qed simp

section \<open>The rows to sign\<close>

text \<open>An unordered query delivers the selected rows, each once, in some order.\<close>

definition faithful_order :: "'z db_env_scheme \<Rightarrow> bool" where
  "faithful_order e \<longleftrightarrow> (\<forall>n rows. mset (heap_order e n rows) = mset rows)"

lemma scan_ids: "map sm_ID (List.map_filter scan_to_sign rows) = map row_id (filter (\<lambda>r. scan_to_sign r \<noteq> None) rows)"
  by (induction rows) (auto simp: List.map_filter_simps scan_to_sign_def)

lemma scan_set: "m \<in> set (List.map_filter scan_to_sign rows) \<longleftrightarrow> (\<exists>r \<in> set rows. scan_to_sign r = Some m)"
  by (induction rows) (auto simp: List.map_filter_simps split: option.split)

lemma FindMatchesToSign_ok:
  assumes "FindMatchesToSign e w = (Inr ms, w')" and "faithful_order e" and "wf_tables (w_db w)"
  shows "w_db w' = w_db w" and "scanned ms (matches (w_db w))"
    and "list_all2 (row_so_far e' k c False (sm_ID ` set ms)) (matches (w_db w)) (matches (w_db w))"
proof -
  define fin where "fin = heap_order e (w_tick w) (filter (\<lambda>r. row_status r = SignerFinished) (matches (w_db w)))"
  from assms(1) have ms: "ms = List.map_filter scan_to_sign fin" and db: "w_db w' = w_db w"
    by (auto simp: FindMatchesToSign_def db_query_def fin_def split: if_splits)
  show "w_db w' = w_db w" by (fact db)
  have perm: "mset fin = mset (filter (\<lambda>r. row_status r = SignerFinished) (matches (w_db w)))"
    using assms(2) by (simp add: faithful_order_def fin_def)
  have set_fin: "set fin = {r \<in> set (matches (w_db w)). row_status r = SignerFinished}"
    using arg_cong [OF perm, of set_mset] by simp
  have dm: "distinct (map row_id (matches (w_db w)))" using assms(3) by (simp add: wf_tables_def)
  have "mset (map row_id fin) = mset (map row_id (filter (\<lambda>r. row_status r = SignerFinished) (matches (w_db w))))"
    using perm by simp
  then have "distinct (map row_id fin)"
    using distinct_map_filter [OF dm] mset_eq_imp_distinct_iff by blast
  then have d: "distinct (map sm_ID ms)" by (simp add: ms scan_ids distinct_map_filter)
  have uniq: "r' = r" if "r \<in> set (matches (w_db w))" "r' \<in> set (matches (w_db w))" "row_id r' = row_id r" for r r'
    using that inj_onD [of row_id "set (matches (w_db w))" r' r] dm by (simp add: distinct_map)
  have row: "\<exists>r \<in> set fin. scan_to_sign r = Some m \<and> row_id r = sm_ID m" if "m \<in> set ms" for m
  proof -
    from that obtain r where "r \<in> set fin" "scan_to_sign r = Some m" unfolding ms scan_set by blast
    moreover from this(2) have "row_id r = sm_ID m" by (auto simp: scan_to_sign_def split: if_splits)
    ultimately show ?thesis by blast
  qed
  show "scanned ms (matches (w_db w))"
    unfolding scanned_def
  proof (intro conjI ballI impI)
    fix m r
    assume "m \<in> set ms" and r: "r \<in> set (matches (w_db w))" "row_id r = sm_ID m"
    from row [OF this(1)] obtain r' where r': "r' \<in> set fin" "scan_to_sign r' = Some m" "row_id r' = sm_ID m"
      by (elim bexE conjE)
    then have "r' = r" using r set_fin by (intro uniq) simp_all
    with r' set_fin show "scan_to_sign r = Some m" "row_status r = SignerFinished" by simp_all
  qed (rule d)
  show "list_all2 (row_so_far e' k c False (sm_ID ` set ms)) (matches (w_db w)) (matches (w_db w))"
  proof (rule list_all2_same [THEN iffD2], rule ballI)
    fix r
    assume r: "r \<in> set (matches (w_db w))"
    show "row_so_far e' k c False (sm_ID ` set ms) r r"
    proof (cases "row_id r \<in> sm_ID ` set ms")
      case False
      have "sign_row e' k c r = r"
      proof (cases "row_status r = SignerFinished")
        case True
        with r set_fin have "r \<in> set fin" by simp
        have "scan_to_sign r = None"
        proof (rule ccontr)
          assume "scan_to_sign r \<noteq> None"
          then obtain m where "scan_to_sign r = Some m" by auto
          moreover from this have "sm_ID m = row_id r" by (auto simp: scan_to_sign_def split: if_splits)
          ultimately show False using False \<open>r \<in> set fin\<close> by (force simp: ms scan_set)
        qed
        then show ?thesis by (simp add: sign_row_def)
      qed (simp add: sign_row_def)
      then show ?thesis by (simp add: row_so_far_def)
    qed (simp add: row_so_far_def)
  qed
qed

section \<open>Whole runs\<close>

text \<open>The runs that get to the loop, and the others, which leave the tables alone.\<close>

lemma signer_Run_cases:
  assumes "signer_Run e (Some db) (g, w) = (code, g', w')"
  obtains (idle) "w_db w' = w_db w"
  | (loop) ms w1 k c where "FindMatchesToSign e w = (Inr ms, w1)"
      "LoadPrivateKey (s_to_ecdsa e) (s_getenv e ''SIGNER_PRIVATE_KEY'') = Inr k"
      "LoadChainId (s_getenv e) = Inr c" "sign_all e k c ms (g, w1) = (g', w')" "code = SIGNER_SUCCESS"
proof -
  obtain r w1 where f: "FindMatchesToSign e w = (r, w1)" by (cases "FindMatchesToSign e w")
  have db: "w_db w1 = w_db w"
    using f by (auto simp: FindMatchesToSign_def db_query_def split: if_splits)
  show thesis
    using assms f db idle loop
    by (auto simp: signer_Run_def NewSignerRepository_def split: sum.splits if_splits)
qed

lemma signer_Run_rows:
  assumes "signer_Run e (Some db) (no_globals, w) = (code, g', w')" and "faithful_order e" and "wf_tables (w_db w)"
    and "LoadPrivateKey (s_to_ecdsa e) (s_getenv e ''SIGNER_PRIVATE_KEY'') = Inr k"
    and "LoadChainId (s_getenv e) = Inr c"
  shows "list_all2 (\<lambda>r r'. r' = r \<or> r' = sign_row e k c r) (matches (w_db w)) (matches (w_db w'))"
    and "sync_state (w_db w') = sync_state (w_db w)"
    and "match_reconciliation (w_db w') = match_reconciliation (w_db w)"
proof -
  have "list_all2 (\<lambda>r r'. r' = r \<or> r' = sign_row e k c r) (matches (w_db w)) (matches (w_db w')) \<and>
      sync_state (w_db w') = sync_state (w_db w) \<and> match_reconciliation (w_db w') = match_reconciliation (w_db w)"
    using assms(1)
  proof (cases rule: signer_Run_cases)
    case idle
    then show ?thesis by (simp add: list_all2_same)
  next
    case (loop ms w1 k' c')
    note f = FindMatchesToSign_ok [OF loop(1) assms(2,3)]
    have rel: "list_all2 (row_so_far e k c True (sm_ID ` set ms)) (matches (w_db w)) (matches (w_db w1))"
      unfolding f(1) by (rule list_all2_mono [OF f(3)]) (auto simp: row_so_far_def split: if_splits)
    have all: "sign_all e k c ms (no_globals, w1) = (g', w')" using loop assms(4,5) by simp
    have "list_all2 (row_so_far e k c True {}) (matches (w_db w)) (matches (w_db w'))"
      using sign_all_rows [OF globals_for_none f(2) _ rel all] by simp
    then have "list_all2 (\<lambda>r r'. r' = r \<or> r' = sign_row e k c r) (matches (w_db w)) (matches (w_db w'))"
      by (rule list_all2_mono) (auto simp: row_so_far_def)
    then show ?thesis
      using sign_all_rows [OF globals_for_none f(2) _ rel all] f(1) by simp
  qed
  then show "list_all2 (\<lambda>r r'. r' = r \<or> r' = sign_row e k c r) (matches (w_db w)) (matches (w_db w'))"
    "sync_state (w_db w') = sync_state (w_db w)"
    "match_reconciliation (w_db w') = match_reconciliation (w_db w)" by simp_all
qed

text \<open>On a healthy database the run is a map over the rows.\<close>

lemma FindMatchesToSign_healthy:
  assumes "db_fault e (w_tick w) = Healthy"
  shows "\<exists>ms. FindMatchesToSign e w = (Inr ms, tick w)"
  using assms by (simp add: FindMatchesToSign_def db_query_def)

lemma signer_Run_healthy:
  assumes "smooth e" and "faithful_order e" and "wf_tables (w_db w)"
    and "LoadPrivateKey (s_to_ecdsa e) (s_getenv e ''SIGNER_PRIVATE_KEY'') = Inr k"
    and "LoadChainId (s_getenv e) = Inr c"
    and "signer_Run e (Some db) (no_globals, w) = (code, g', w')"
  shows "code = SIGNER_SUCCESS \<and> w_db w' = (w_db w)\<lparr>matches := map (sign_row e k c) (matches (w_db w))\<rparr>"
proof -
  obtain ms where f: "FindMatchesToSign e w = (Inr ms, tick w)"
    using FindMatchesToSign_healthy [of e w] assms(1) by (auto simp: smooth_def)
  note fo = FindMatchesToSign_ok [OF f assms(2,3)]
  have rel: "list_all2 (row_so_far e k c False (sm_ID ` set ms)) (matches (w_db w)) (matches (w_db (tick w)))"
    using fo(3) by simp
  have run: "code = SIGNER_SUCCESS \<and> sign_all e k c ms (no_globals, tick w) = (g', w')"
    using assms(4-6) f by (auto simp: signer_Run_def NewSignerRepository_def split: if_splits)
  from sign_all_rows [OF globals_for_none fo(2) _ rel, of g' w'] run assms(1)
  have rows: "list_all2 (row_so_far e k c False {}) (matches (w_db w)) (matches (w_db w'))"
    and rest: "sync_state (w_db w') = sync_state (w_db w)" "match_reconciliation (w_db w') = match_reconciliation (w_db w)"
    by simp_all
  from rows have "list_all2 (\<lambda>r r'. r' = sign_row e k c r) (matches (w_db w)) (matches (w_db w'))"
    by (rule list_all2_mono) (simp add: row_so_far_def)
  then have "matches (w_db w') = map (sign_row e k c) (matches (w_db w))"
    by (simp add: list_all2_conv_all_nth list_eq_iff_nth_eq)
  with rest run show ?thesis by (simp add: tables.equality)
qed

lemma list_all2_map_eq:
  assumes "list_all2 R xs ys" and "\<And>x y. R x y \<Longrightarrow> f y = f x"
  shows "map f ys = map f xs"
  using assms(1) by (induction rule: list_all2_induct) (simp_all add: assms(2))

lemma signer_Run_wf:
  assumes "signer_Run e (Some db) (no_globals, w) = (code, g', w')" and "faithful_order e" and "wf_tables (w_db w)"
  shows "wf_tables (w_db w')"
  using assms(1)
proof (cases rule: signer_Run_cases)
  case idle
  with assms(3) show ?thesis by simp
next
  case (loop ms w1 k c)
  note rows = signer_Run_rows [OF assms(1-3) loop(2,3)]
  have "map row_id (matches (w_db w')) = map row_id (matches (w_db w))"
    by (rule list_all2_map_eq [OF rows(1)]) auto
  moreover have "map match_key (matches (w_db w')) = map match_key (matches (w_db w))"
    by (rule list_all2_map_eq [OF rows(1)]) auto
  ultimately show ?thesis using assms(3) rows(2,3) by (simp add: wf_tables_def)
qed

section \<open>Properties\<close>

text \<open>An environment in which nothing fails, and tables with one finished match.\<close>

definition sample_key :: ecdsa_key where
  "sample_key = \<lparr>key_bytes = replicate 32 17, key_on_s256 = True\<rparr>"

definition quiet_signer :: signer_env where
  "quiet_signer =
     \<lparr>db_fault = (\<lambda>_. Healthy), db_now = (\<lambda>_. epoch), heap_order = (\<lambda>_ rows. rows), ts_value = (\<lambda>t. t),
      uuid_new = (\<lambda>n. word_of_nat n),
      s_getenv = (\<lambda>v. if v = ''CHAIN_ID'' then ''11155111'' else replicate 64 (CHR ''1'')),
      s_keccak = (\<lambda>bs. take 32 (bs @ replicate 32 0)), s_to_ecdsa = (\<lambda>_. Inr sample_key),
      hash_struct = (\<lambda>_ _ _. Inr [1]), domain_map = (\<lambda>_. []),
      ecdsa_sign = (\<lambda>_ _. Inr (replicate 65 0))\<rparr>"

definition finished_row :: match_row where
  "finished_row =
     \<lparr>row_id = 7, row_canonical_id = ''ab'', row_home_team_id = 1, row_away_team_id = 2, row_start = epoch,
      row_end = epoch, row_status = 3, row_home_team_score = 2, row_away_team_score = 1,
      row_provider_match_id = ''7'', row_competition_id = 1, row_provider = 1, row_signature = None,
      row_updated_at = None, row_transaction_hash = None, row_created_at = epoch\<rparr>"

definition finished_world :: world where
  "finished_world = \<lparr>w_db = empty_tables\<lparr>matches := [finished_row]\<rparr>, w_tick = 0, w_log = []\<rparr>"

lemma quiet_signer_simps:
  "db_fault quiet_signer n = Healthy" "faithful_order quiet_signer" "smooth quiet_signer"
  by (simp_all add: quiet_signer_def faithful_order_def smooth_def)

lemma quiet_signer_loads:
  "LoadPrivateKey (s_to_ecdsa quiet_signer) (s_getenv quiet_signer ''SIGNER_PRIVATE_KEY'') = Inr sample_key"
  "LoadChainId (s_getenv quiet_signer) = Inr 11155111"
  by code_simp+

lemma finished_world_wf: "wf_tables (w_db finished_world)"
  by code_simp

text \<open>
  C22: With a healthy database, a run of the signer that has a key and a chain id exits with success
  and maps \<open>sign_row\<close> over the rows of \<open>matches\<close>: every finished row whose
  match can be signed gets its signature and the status Signed, every other row and every other
  table stays as it is.
\<close>

theorem signer_run_functional:
  assumes "\<And>n. db_fault e n = Healthy" and "\<And>d k sig. ecdsa_sign e d k = Inr sig \<Longrightarrow> length sig = 65"
    and "\<And>n rows. mset (heap_order e n rows) = mset rows" and "wf_tables (w_db w)"
    and "LoadPrivateKey (s_to_ecdsa e) (s_getenv e ''SIGNER_PRIVATE_KEY'') = Inr k"
    and "LoadChainId (s_getenv e) = Inr c"
    and "signer_Run e (Some db) (no_globals, w) = (code, g', w')"
  shows "code = 0 \<and> w_db w' = (w_db w)\<lparr>matches := map (sign_row e k c) (matches (w_db w))\<rparr>"
proof -
  have "smooth e" "faithful_order e"
    unfolding smooth_def faithful_order_def using assms(1-3) by blast+
  from signer_Run_healthy [OF this assms(4-7)] show ?thesis by (simp add: SIGNER_SUCCESS_def)
qed

theorem signer_run_functional_witness:
  "w_db (snd (snd (signer_Run quiet_signer (Some ()) (no_globals, finished_world)))) =
     empty_tables\<lparr>matches := [finished_row\<lparr>row_signature := Some (hex_encode (replicate 64 0 @ [27])), row_status := 4\<rparr>]\<rparr>"
proof -
  obtain code g' w' where run: "signer_Run quiet_signer (Some ()) (no_globals, finished_world) = (code, g', w')"
    by (metis prod_cases3)
  from signer_run_functional [OF _ _ _ finished_world_wf quiet_signer_loads run] quiet_signer_simps
  have "w_db w' = (w_db finished_world)\<lparr>matches := map (sign_row quiet_signer sample_key 11155111) (matches (w_db finished_world))\<rparr>"
    by (auto simp: smooth_def faithful_order_def)
  moreover have "sign_row quiet_signer sample_key 11155111 finished_row =
      finished_row\<lparr>row_signature := Some (hex_encode (replicate 64 0 @ [27])), row_status := 4\<rparr>" by code_simp
  ultimately have "w_db w' = empty_tables\<lparr>matches :=
      [finished_row\<lparr>row_signature := Some (hex_encode (replicate 64 0 @ [27])), row_status := 4\<rparr>]\<rparr>"
    by (simp add: finished_world_def)
  then show ?thesis unfolding run by simp
qed

text \<open>
  Whatever calls fail, a run of the signer leaves each row as it was or signs it the way
  \<open>sign_row\<close> says, in place, and touches no other table.
\<close>

theorem signer_run_rows:
  assumes "\<And>n rows. mset (heap_order e n rows) = mset rows" and "wf_tables (w_db w)"
    and "LoadPrivateKey (s_to_ecdsa e) (s_getenv e ''SIGNER_PRIVATE_KEY'') = Inr k"
    and "LoadChainId (s_getenv e) = Inr c"
    and "signer_Run e (Some db) (no_globals, w) = (code, g', w')"
  shows "list_all2 (\<lambda>r r'. r' = r \<or> r' = sign_row e k c r) (matches (w_db w)) (matches (w_db w')) \<and>
    sync_state (w_db w') = sync_state (w_db w) \<and> match_reconciliation (w_db w') = match_reconciliation (w_db w)"
proof -
  have "faithful_order e" unfolding faithful_order_def using assms(1) by blast
  from signer_Run_rows [OF assms(5) this assms(2-4)] show ?thesis by blast
qed

definition dead_signer :: signer_env where
  "dead_signer = quiet_signer\<lparr>db_fault := (\<lambda>n. if n = 0 then Healthy else Lost)\<rparr>"

theorem signer_run_rows_witness:
  "list_all2 (\<lambda>r r'. r' = r \<or> r' = sign_row dead_signer sample_key 11155111 r)
     (matches (w_db finished_world))
     (matches (w_db (snd (snd (signer_Run dead_signer (Some ()) (no_globals, finished_world))))))"
proof -
  obtain code g' w' where run: "signer_Run dead_signer (Some ()) (no_globals, finished_world) = (code, g', w')"
    by (metis prod_cases3)
  have "LoadPrivateKey (s_to_ecdsa dead_signer) (s_getenv dead_signer ''SIGNER_PRIVATE_KEY'') = Inr sample_key"
    "LoadChainId (s_getenv dead_signer) = Inr 11155111"
    using quiet_signer_loads by (simp_all add: dead_signer_def)
  moreover have "mset (heap_order dead_signer n rows) = mset rows" for n rows
    by (simp add: dead_signer_def quiet_signer_def)
  ultimately have "list_all2 (\<lambda>r r'. r' = r \<or> r' = sign_row dead_signer sample_key 11155111 r)
      (matches (w_db finished_world)) (matches (w_db w'))"
    using signer_run_rows [OF _ finished_world_wf _ _ run] by blast
  then show ?thesis unfolding run by simp
qed

text \<open>
  A signature the signer stores is the hex form of 65 bytes: the 64 bytes the curve returned,
  followed by a recovery byte that is 27 or 28.
\<close>

theorem signature_shape:
  assumes "SignMatch e m k c g = (Inr s, g')" and "\<And>d k sig. ecdsa_sign e d k = Inr sig \<Longrightarrow> length sig = 65"
  shows "\<exists>digest sig v. ecdsa_sign e digest k = Inr sig \<and> length sig = 65 \<and> (v = 27 \<or> v = 28) \<and>
    s = hex_encode (take 64 sig @ [v])"
proof -
  have "sign_typed e (match_message (fst (getTypes g)) (fst (getDomain (s_getenv e) c (snd (getTypes g)))) m) k = Inr s"
    using assms(1) by (simp add: SignMatch_def split: prod.splits)
  then obtain digest sig where sig: "ecdsa_sign e (s_keccak e digest) k = Inr sig" "sig ! 64 \<le> 1"
    "s = hex_encode (sig[64 := sig ! 64 + 27])" by (rule sign_typed_ok)
  from assms(2) [OF sig(1)] have len: "length sig = 65" .
  have "sig[64 := v] = take 64 sig @ [v]" for v
    using len by (simp add: upd_conv_take_nth_drop)
  with sig len recovery_id [OF sig(2)] show ?thesis by metis
qed

theorem signature_shape_witness:
  "\<exists>s v. fst (SignMatch quiet_signer \<lparr>sm_ID = 7, sm_CanonicalID = ''ab'', sm_HomeTeamScore = 2, sm_AwayTeamScore = 1\<rparr>
        sample_key 1 no_globals) = Inr s \<and> (v = 27 \<or> v = 28) \<and> s = hex_encode (replicate 64 0 @ [v])"
proof -
  let ?m = "\<lparr>sm_ID = 7, sm_CanonicalID = ''ab'', sm_HomeTeamScore = 2, sm_AwayTeamScore = 1\<rparr>"
  have "is_ok (fst (SignMatch quiet_signer ?m sample_key 1 no_globals))" by code_simp
  then obtain s g' where s: "SignMatch quiet_signer ?m sample_key 1 no_globals = (Inr s, g')"
    by (metis is_ok_iff prod.collapse)
  have len: "ecdsa_sign quiet_signer d k = Inr sig \<Longrightarrow> length sig = 65" for d k sig
    by (auto simp: quiet_signer_def)
  obtain digest sig v where v: "ecdsa_sign quiet_signer digest sample_key = Inr sig"
    "v = 27 \<or> v = 28" "s = hex_encode (take 64 sig @ [v])" using signature_shape [OF s] len by blast
  from v(1) have "take 64 sig = replicate 64 0" by (auto simp: quiet_signer_def)
  with v s show ?thesis by auto
qed

text \<open>
  The chain id is read once per process: after the first match is signed, a match signed with
  another chain id carries the domain of the first one.
\<close>

theorem domain_cached:
  "fst (SignMatch e m k c2 (snd (SignMatch e m0 k0 c1 no_globals))) = fst (SignMatch e m k c1 no_globals)"
proof -
  have "globals_for e c1 (snd (SignMatch e m0 k0 c1 no_globals))" by (rule SignMatch_globals(2)) simp
  moreover have "g_domain (snd (SignMatch e m0 k0 c1 no_globals)) = Some (oracle_domain (s_getenv e) c1)"
    by (simp add: SignMatch_def getTypes_def getDomain_def no_globals_def Let_def)
  then have "fst (SignMatch e m k c2 (snd (SignMatch e m0 k0 c1 no_globals))) =
     fst (SignMatch e m k c1 (snd (SignMatch e m0 k0 c1 no_globals)))"
    by (simp add: SignMatch_def getTypes_def getDomain_def Let_def split: option.split)
  ultimately show ?thesis using SignMatch_globals(1) by metis
qed

lemma sign_row_idem: "sign_row e k c (sign_row e k c r) = sign_row e k c r"
  by (auto simp: sign_row_def SignerFinished_def Signed_def split: option.split sum.split)

text \<open>
  Running the signer a second time on a healthy database changes nothing.
\<close>

theorem signer_idempotent:
  assumes "\<And>n. db_fault e n = Healthy" and "\<And>d k sig. ecdsa_sign e d k = Inr sig \<Longrightarrow> length sig = 65"
    and "\<And>n rows. mset (heap_order e n rows) = mset rows" and "wf_tables (w_db w)"
    and "LoadPrivateKey (s_to_ecdsa e) (s_getenv e ''SIGNER_PRIVATE_KEY'') = Inr k"
    and "LoadChainId (s_getenv e) = Inr c"
    and "signer_Run e (Some db) (no_globals, w) = (code1, g1, w1)"
    and "signer_Run e (Some db) (no_globals, w1) = (code2, g2, w2)"
  shows "w_db w2 = w_db w1"
proof -
  have sf: "smooth e" "faithful_order e"
    unfolding smooth_def faithful_order_def using assms(1-3) by blast+
  note one = signer_Run_healthy [OF sf assms(4-7)]
  have "wf_tables (w_db w1)" by (rule signer_Run_wf [OF assms(7) sf(2) assms(4)])
  from signer_Run_healthy [OF sf this assms(5,6,8)] one show ?thesis
    by (simp add: sign_row_idem comp_def)
qed

theorem signer_idempotent_witness:
  "w_db (snd (snd (signer_Run quiet_signer (Some ())
       (no_globals, snd (snd (signer_Run quiet_signer (Some ()) (no_globals, finished_world))))))) =
   w_db (snd (snd (signer_Run quiet_signer (Some ()) (no_globals, finished_world))))"
proof -
  obtain c1 g1 w1 where 1: "signer_Run quiet_signer (Some ()) (no_globals, finished_world) = (c1, g1, w1)"
    by (metis prod_cases3)
  obtain c2 g2 w2 where 2: "signer_Run quiet_signer (Some ()) (no_globals, w1) = (c2, g2, w2)"
    by (metis prod_cases3)
  from signer_idempotent [OF _ _ _ finished_world_wf quiet_signer_loads 1 2] quiet_signer_simps show ?thesis
    by (auto simp: 1 2 smooth_def faithful_order_def)
qed

end
