(* ===== verification/Chain_Client.thy ===== *)
theory Chain_Client
  imports Eth_Keys
begin

text \<open>
  The interface between the relayer and an Ethereum node: \<open>ChainClient\<close> of
  \<open>src/relayer/internal/service/broadcaster.go\<close> as a record of methods over the state of the node,
  the data of go-ethereum its methods carry, the contract the broadcaster relies on, and the one
  implementation the repository holds (\<open>src/relayer/testutil/mock_chain_client.go\<close>).
\<close>

section \<open>Data of go-ethereum\<close>

type_synonym address = "byte list"
type_synonym hash32 = "byte list"

text \<open>
  An error of a call: \<open>ethereum.NotFound\<close>, an error that implements \<open>rpc.DataError\<close> with what
  \<open>ErrorData\<close> returns, or any other.
\<close>

datatype error_data = NoData | StringData string | OtherData

datatype chain_error = NotFound | DataError string error_data | ChainError string

record dyn_tx =
  TxChainID :: int
  TxNonce :: uint64
  TxGasTipCap :: int
  TxGasFeeCap :: int
  TxGas :: uint64
  TxTo :: address
  TxValue :: int
  TxData :: "byte list"

record signed_tx =
  SignedPayload :: dyn_tx
  SignedHash :: hash32

record call_msg =
  CallFrom :: address
  CallTo :: address
  CallData :: "byte list"
  CallValue :: int

record receipt =
  ReceiptStatus :: uint64

definition ReceiptStatusSuccessful :: uint64 where "ReceiptStatusSuccessful = 1"

section \<open>The interface\<close>

record 'c ChainClient =
  PendingNonceAt :: "address \<Rightarrow> 'c \<Rightarrow> (chain_error, uint64) result \<times> 'c"
  SuggestGasTipCap :: "'c \<Rightarrow> (chain_error, int) result \<times> 'c"
  SuggestGasPrice :: "'c \<Rightarrow> (chain_error, int) result \<times> 'c"
  EstimateGas :: "call_msg \<Rightarrow> 'c \<Rightarrow> (chain_error, uint64) result \<times> 'c"
  SendTransaction :: "signed_tx \<Rightarrow> 'c \<Rightarrow> (chain_error, unit) result \<times> 'c"
  TransactionReceipt :: "hash32 \<Rightarrow> 'c \<Rightarrow> (chain_error, receipt) result \<times> 'c"

text \<open>
  What the broadcaster relies on: only \<open>SendTransaction\<close> submits anything, and it submits exactly
  the transaction it is given. \<open>attempts\<close> counts the submissions, \<open>last_sent\<close> is the latest one.
\<close>

locale chain_client =
  fixes client :: "'c ChainClient" and attempts :: "'c \<Rightarrow> int" and last_sent :: "'c \<Rightarrow> signed_tx option"
  assumes nonce_reads: "attempts (snd (PendingNonceAt client a c)) = attempts c \<and>
      last_sent (snd (PendingNonceAt client a c)) = last_sent c"
    and tip_reads: "attempts (snd (SuggestGasTipCap client c)) = attempts c \<and>
      last_sent (snd (SuggestGasTipCap client c)) = last_sent c"
    and price_reads: "attempts (snd (SuggestGasPrice client c)) = attempts c \<and>
      last_sent (snd (SuggestGasPrice client c)) = last_sent c"
    and estimate_reads: "attempts (snd (EstimateGas client msg c)) = attempts c \<and>
      last_sent (snd (EstimateGas client msg c)) = last_sent c"
    and receipt_reads: "attempts (snd (TransactionReceipt client h c)) = attempts c \<and>
      last_sent (snd (TransactionReceipt client h c)) = last_sent c"
    and send_submits: "attempts (snd (SendTransaction client tx c)) = attempts c + 1 \<and>
      last_sent (snd (SendTransaction client tx c)) = Some tx"

section \<open>MockChainClient\<close>

record MockChainClient =
  MockNonce :: uint64
  MockTipCap :: "int option"
  MockFeeCap :: "int option"
  MockReceipt :: "receipt option"
  SendErr :: "chain_error option"
  EstimatedGas :: uint64
  EstimateGasErr :: "chain_error option"
  TimesCalled :: int
  LastSentTx :: "signed_tx option"

definition mock_PendingNonceAt :: "address \<Rightarrow> MockChainClient \<Rightarrow> (chain_error, uint64) result \<times> MockChainClient" where
  "mock_PendingNonceAt account mock = (Inr (MockNonce mock), mock)"

definition mock_SuggestGasTipCap :: "MockChainClient \<Rightarrow> (chain_error, int) result \<times> MockChainClient" where
  "mock_SuggestGasTipCap mock = (Inr (case MockTipCap mock of Some v \<Rightarrow> v | None \<Rightarrow> 1), mock)"

definition mock_SuggestGasPrice :: "MockChainClient \<Rightarrow> (chain_error, int) result \<times> MockChainClient" where
  "mock_SuggestGasPrice mock = (Inr (case MockFeeCap mock of Some v \<Rightarrow> v | None \<Rightarrow> 2), mock)"

definition mock_EstimateGas :: "call_msg \<Rightarrow> MockChainClient \<Rightarrow> (chain_error, uint64) result \<times> MockChainClient" where
  "mock_EstimateGas msg mock =
     (case EstimateGasErr mock of
        Some er \<Rightarrow> (Inl er, mock)
      | None \<Rightarrow> if EstimatedGas mock \<noteq> 0 then (Inr (EstimatedGas mock), mock) else (Inr 100000, mock))"

definition mock_SendTransaction :: "signed_tx \<Rightarrow> MockChainClient \<Rightarrow> (chain_error, unit) result \<times> MockChainClient" where
  "mock_SendTransaction tx mock =
     (let mock' = mock\<lparr>TimesCalled := TimesCalled mock + 1, LastSentTx := Some tx\<rparr>
      in (case SendErr mock of Some er \<Rightarrow> Inl er | None \<Rightarrow> Inr (), mock'))"

definition mock_TransactionReceipt :: "hash32 \<Rightarrow> MockChainClient \<Rightarrow> (chain_error, receipt) result \<times> MockChainClient" where
  "mock_TransactionReceipt txHash mock =
     (case MockReceipt mock of Some r \<Rightarrow> (Inr r, mock) | None \<Rightarrow> (Inl NotFound, mock))"

definition mock_client :: "MockChainClient ChainClient" where
  "mock_client =
     \<lparr>PendingNonceAt = mock_PendingNonceAt, SuggestGasTipCap = mock_SuggestGasTipCap,
      SuggestGasPrice = mock_SuggestGasPrice, EstimateGas = mock_EstimateGas,
      SendTransaction = mock_SendTransaction, TransactionReceipt = mock_TransactionReceipt\<rparr>"

lemma mock_client_simps [simp]:
  "PendingNonceAt mock_client = mock_PendingNonceAt" "SuggestGasTipCap mock_client = mock_SuggestGasTipCap"
  "SuggestGasPrice mock_client = mock_SuggestGasPrice" "EstimateGas mock_client = mock_EstimateGas"
  "SendTransaction mock_client = mock_SendTransaction" "TransactionReceipt mock_client = mock_TransactionReceipt"
  by (simp_all add: mock_client_def)

interpretation mock: chain_client mock_client TimesCalled LastSentTx
  by unfold_locales
    (simp_all add: mock_PendingNonceAt_def mock_SuggestGasTipCap_def mock_SuggestGasPrice_def mock_EstimateGas_def
      mock_SendTransaction_def mock_TransactionReceipt_def Let_def split: option.split)

end
