(* ===== verification/Relayer.thy ===== *)
theory Relayer
  imports Store Chain_Client Db_Config
begin

text \<open>
  The relayer (\<open>src/relayer\<close>): it reads the signed matches, submits each to the \<open>MatchRegistry\<close>
  contract through a chain client and marks the accepted ones as broadcasted. The ABI codec, address
  and hash parsing and transaction signing of go-ethereum are functions of the environment.
\<close>

section \<open>Entities\<close>

definition SIGNED_STATUS :: int where [go_const]: "SIGNED_STATUS = 4"
definition BROADCASTED_STATUS :: int where [go_const]: "BROADCASTED_STATUS = 5"

record RelayerMatch =
  rm_ID :: uuid
  rm_CanonicalID :: string
  rm_CompetitionID :: int32
  rm_HomeTeamID :: int32
  rm_AwayTeamID :: int32
  rm_HomeTeamScore :: int32
  rm_AwayTeamScore :: int32
  rm_Start :: uint32
  rm_Signature :: "byte list"

section \<open>The environment\<close>

datatype abi_value =
    AbiBytes32 "byte list"
  | AbiUint32 uint32
  | AbiUint8 uint8
  | AbiBytes "byte list"

text \<open>
  \<open>'abi\<close> is the parsed \<open>abi.ABI\<close>; \<open>abi_error_id\<close> looks up the identifier of a declared error.
  \<open>bctx_done s n\<close> says whether at tick \<open>n\<close> the context created at tick \<open>s\<close> is done.
\<close>

record 'abi relayer_env = db_env +
  r_getenv :: "string \<Rightarrow> string"
  r_to_ecdsa :: to_ecdsa
  is_hex_address :: "string \<Rightarrow> bool"
  hex_to_address :: "string \<Rightarrow> address"
  hex_to_hash :: "string \<Rightarrow> hash32"
  pubkey_to_address :: "ecdsa_key \<Rightarrow> address"
  abi_json :: "string \<Rightarrow> (string, 'abi) result"
  abi_pack :: "'abi \<Rightarrow> string \<Rightarrow> abi_value list \<Rightarrow> (string, byte list) result"
  abi_error_id :: "'abi \<Rightarrow> string \<Rightarrow> byte list option"
  sign_tx :: "dyn_tx \<Rightarrow> int \<Rightarrow> ecdsa_key \<Rightarrow> (string, signed_tx) result"
  bctx_done :: "nat \<Rightarrow> nat \<Rightarrow> bool"

section \<open>Configuration\<close>

record EnvVars =
  RPCURL :: string
  ContractAddress :: address
  PrivateKey :: ecdsa_key
  ChainID :: string

datatype env_error = Unset string | InvalidAddress string | BadKey key_error

definition LoadEnvVars :: "('abi, 'z) relayer_env_scheme \<Rightarrow> (env_error, EnvVars) result" where
  "LoadEnvVars e =
     (let rpcURL = r_getenv e ''RPC_URL'' in
      if rpcURL = [] then Inl (Unset ''RPC_URL'')
      else let contractAddr = r_getenv e ''ORACLE_CONTRACT_ADDRESS'' in
      if contractAddr = [] then Inl (Unset ''ORACLE_CONTRACT_ADDRESS'')
      else if \<not> is_hex_address e contractAddr then Inl (InvalidAddress contractAddr)
      else let privateKey = r_getenv e ''RELAYER_PRIVATE_KEY'' in
      if privateKey = [] then Inl (Unset ''RELAYER_PRIVATE_KEY'')
      else (case parsePrivateKey (r_to_ecdsa e) privateKey of
              Inl err \<Rightarrow> Inl (BadKey err)
            | Inr privateKeyParsed \<Rightarrow>
                (let chainID = r_getenv e ''CHAIN_ID'' in
                 if chainID = [] then Inl (Unset ''CHAIN_ID'')
                 else Inr \<lparr>RPCURL = rpcURL, ContractAddress = hex_to_address e contractAddr,
                           PrivateKey = privateKeyParsed, ChainID = chainID\<rparr>)))"

definition MATCH_REGISTRY_SUBMIT_MATCH_ABI :: string where
  "MATCH_REGISTRY_SUBMIT_MATCH_ABI =
     ''[{\"type\":\"function\",\"name\":\"submitMatch\",\"inputs\":[{\"name\":\"matchId\",\"type\":\"bytes32\",\"internalType\":\"bytes32\"},'' @
     ''{\"name\":\"competitionId\",\"type\":\"uint32\",\"internalType\":\"uint32\"},'' @
     ''{\"name\":\"homeTeamId\",\"type\":\"uint32\",\"internalType\":\"uint32\"},'' @
     ''{\"name\":\"awayTeamId\",\"type\":\"uint32\",\"internalType\":\"uint32\"},'' @
     ''{\"name\":\"homeTeamScore\",\"type\":\"uint8\",\"internalType\":\"uint8\"},'' @
     ''{\"name\":\"awayTeamScore\",\"type\":\"uint8\",\"internalType\":\"uint8\"},'' @
     ''{\"name\":\"matchDate\",\"type\":\"uint32\",\"internalType\":\"uint32\"},'' @
     ''{\"name\":\"signature\",\"type\":\"bytes\",\"internalType\":\"bytes\"}],\"outputs\":[],\"stateMutability\":\"nonpayable\"},'' @
     ''{\"type\":\"error\",\"name\":\"MatchAlreadySubmitted\",\"inputs\":[{\"name\":\"matchId\",\"type\":\"bytes32\",\"internalType\":\"bytes32\"}]}]''"

record 'abi BroadcasterConfig =
  BcRPCURL :: string
  BcContractAddress :: address
  BcPrivateKey :: ecdsa_key
  BcChainID :: int
  BcContractABI :: 'abi

datatype build_error = BadChainID num_error | BadABI string

definition BuildBroadcasterConfig ::
  "('abi, 'z) relayer_env_scheme \<Rightarrow> EnvVars \<Rightarrow> (build_error, 'abi BroadcasterConfig) result" where
  "BuildBroadcasterConfig e envVars =
     (case parse_int 64 (ChainID envVars) of
        Inl err \<Rightarrow> Inl (BadChainID err)
      | Inr chainIDInt \<Rightarrow>
          (case abi_json e MATCH_REGISTRY_SUBMIT_MATCH_ABI of
             Inl err \<Rightarrow> Inl (BadABI err)
           | Inr contractABI \<Rightarrow>
               Inr \<lparr>BcRPCURL = RPCURL envVars, BcContractAddress = ContractAddress envVars,
                    BcPrivateKey = PrivateKey envVars, BcChainID = chainIDInt,
                    BcContractABI = contractABI\<rparr>))"

section \<open>The repository\<close>

datatype relayer_repo_error = RelayerNilDatabase | QuerySignedError db_error | UpdateStatusError db_error | MatchNotFound uuid

text \<open>
  The body of the scan loop: a row without a signature does not scan into a string, and a signature
  that is not hex is skipped too. The day of \<open>start\<close> becomes the number YYYYMMDD.
\<close>

definition scan_signed :: "match_row \<Rightarrow> RelayerMatch option" where
  "scan_signed r =
     (case row_signature r of
        None \<Rightarrow> None
      | Some sigHex \<Rightarrow>
          (case hex_decode (trim_prefix sigHex ''0x'') of
             Inl _ \<Rightarrow> None
           | Inr sig \<Rightarrow>
               Some \<lparr>rm_ID = row_id r, rm_CanonicalID = row_canonical_id r,
                     rm_CompetitionID = word_of_int (row_competition_id r),
                     rm_HomeTeamID = word_of_int (row_home_team_id r),
                     rm_AwayTeamID = word_of_int (row_away_team_id r),
                     rm_HomeTeamScore = word_of_int (row_home_team_score r),
                     rm_AwayTeamScore = word_of_int (row_away_team_score r),
                     rm_Start = word_of_int (year_of (row_start r) * 10000 + month_of (row_start r) * 100 +
                                             day_of (row_start r)),
                     rm_Signature = sig\<rparr>))"

definition FindSignedMatches ::
  "'z db_env_scheme \<Rightarrow> 'db option \<Rightarrow> world \<Rightarrow> (relayer_repo_error, RelayerMatch list) result \<times> world" where
  "FindSignedMatches e db w =
     (case db of
        None \<Rightarrow> (Inl RelayerNilDatabase, w)
      | Some _ \<Rightarrow>
          (case db_query e (\<lambda>t. heap_order e (w_tick w) (filter (\<lambda>r. row_status r = SIGNED_STATUS) (matches t))) w of
             (Inl er, w') \<Rightarrow> (Inl (QuerySignedError er), w')
           | (Inr rows, w') \<Rightarrow> (Inr (List.map_filter scan_signed rows), w')))"

definition BroadcastMatch ::
  "'z db_env_scheme \<Rightarrow> 'db option \<Rightarrow> uuid \<Rightarrow> world \<Rightarrow> (relayer_repo_error, unit) result \<times> world" where
  "BroadcastMatch e db matchID w =
     (case db of
        None \<Rightarrow> (Inl RelayerNilDatabase, w)
      | Some _ \<Rightarrow>
          (case db_exec e (set_status matchID BROADCASTED_STATUS) w of
             (Inl er, w') \<Rightarrow> (Inl (UpdateStatusError er), w')
           | (Inr rows, w') \<Rightarrow> (if rows = 0 then Inl (MatchNotFound matchID) else Inr (), w')))"

section \<open>The broadcaster\<close>

definition GAS_ESTIMATE_FALLBACK_LIMIT :: uint64 where "GAS_ESTIMATE_FALLBACK_LIMIT = 130000"
definition GAS_ESTIMATE_BUFFER_PERCENT :: uint64 where "GAS_ESTIMATE_BUFFER_PERCENT = 2"

datatype wait_error = ReceiptError chain_error | WaitContextDone

datatype broadcast_error =
    NonceFailed chain_error
  | GasTipFailed chain_error
  | GasPriceFailed chain_error
  | SignTxFailed string
  | ErrMatchAlreadySubmitted
  | SendTxFailed chain_error
  | WaitFailed wait_error
  | Reverted uint64

definition isMatchAlreadySubmitted :: "('abi, 'z) relayer_env_scheme \<Rightarrow> chain_error \<Rightarrow> 'abi \<Rightarrow> bool" where
  "isMatchAlreadySubmitted e err contractABI =
     (case err of
        DataError _ (StringData errorSelector) \<Rightarrow>
          (case hex_decode (trim_prefix errorSelector ''0x'') of
             Inl _ \<Rightarrow> False
           | Inr errorSelectorBytes \<Rightarrow>
               if length errorSelectorBytes < 4 then False
               else (case abi_error_id e contractABI ''MatchAlreadySubmitted'' of
                       None \<Rightarrow> False
                     | Some errID \<Rightarrow> take 4 errorSelectorBytes = take 4 errID))
      | _ \<Rightarrow> False)"

datatype calldata_error = ParseAbiFailed string | PackFailed string

definition submit_args :: "('abi, 'z) relayer_env_scheme \<Rightarrow> RelayerMatch \<Rightarrow> abi_value list" where
  "submit_args e m =
     (let matchID = hex_to_hash e (trim_prefix (rm_CanonicalID m) ''0x'')
      in [AbiBytes32 matchID, AbiUint32 (rm_CompetitionID m), AbiUint32 (rm_HomeTeamID m),
          AbiUint32 (rm_AwayTeamID m), AbiUint8 (ucast (rm_HomeTeamScore m)),
          AbiUint8 (ucast (rm_AwayTeamScore m)), AbiUint32 (rm_Start m), AbiBytes (rm_Signature m)])"

definition buildCalldata :: "('abi, 'z) relayer_env_scheme \<Rightarrow> RelayerMatch \<Rightarrow> (calldata_error, byte list) result" where
  "buildCalldata e m =
     (case abi_json e MATCH_REGISTRY_SUBMIT_MATCH_ABI of
        Inl err \<Rightarrow> Inl (ParseAbiFailed err)
      | Inr contractABI \<Rightarrow>
          (case abi_pack e contractABI ''submitMatch'' (submit_args e m) of
             Inl err \<Rightarrow> Inl (PackFailed err)
           | Inr calldata \<Rightarrow> Inr calldata))"

text \<open>
  The polling loop: every round asks for the receipt; while it is not found, the context is looked
  at and half a second passes. It ends only with an answer or with the context.
\<close>

partial_function (option) waitForReceipt ::
  "('abi, 'z) relayer_env_scheme \<Rightarrow> 'c ChainClient \<Rightarrow> nat \<Rightarrow> hash32 \<Rightarrow> 'c \<Rightarrow> world \<Rightarrow>
   ((wait_error, receipt) result \<times> 'c \<times> world) option" where
  "waitForReceipt e client start txHash c w =
     (case TransactionReceipt client txHash c of (r, c1) \<Rightarrow>
        (case r of
           Inr rc \<Rightarrow> Some (Inr rc, c1, tick w)
         | Inl err \<Rightarrow>
             if err \<noteq> NotFound then Some (Inl (ReceiptError err), c1, tick w)
             else if bctx_done e start (w_tick (tick w)) then Some (Inl WaitContextDone, c1, tick (tick w))
             else waitForReceipt e client start txHash c1 (log_event (Sleep (second_ns div 2)) (tick (tick w)))))"

declare waitForReceipt.simps [code]

definition gas_limit :: "uint64 \<Rightarrow> uint64" where
  "gas_limit estimatedGas = estimatedGas + (estimatedGas * GAS_ESTIMATE_BUFFER_PERCENT div 100)"

text \<open>The part of \<open>broadcast\<close> after the transaction is signed.\<close>

definition submit_and_wait ::
  "('abi, 'z) relayer_env_scheme \<Rightarrow> 'c ChainClient \<Rightarrow> 'abi BroadcasterConfig \<Rightarrow> nat \<Rightarrow> signed_tx \<Rightarrow> 'c \<Rightarrow> world \<Rightarrow>
   ((broadcast_error, unit) result \<times> 'c \<times> world) option" where
  "submit_and_wait e client config start stx c w =
     (case SendTransaction client stx c of
        (Inl err, c1) \<Rightarrow>
          if isMatchAlreadySubmitted e err (BcContractABI config) then Some (Inl ErrMatchAlreadySubmitted, c1, w)
          else Some (Inl (SendTxFailed err), c1, w)
      | (Inr _, c1) \<Rightarrow>
          (case waitForReceipt e client start (SignedHash stx) c1 w of
             None \<Rightarrow> None
           | Some (Inl err, c2, w2) \<Rightarrow> Some (Inl (WaitFailed err), c2, w2)
           | Some (Inr rc, c2, w2) \<Rightarrow>
               if ReceiptStatus rc \<noteq> ReceiptStatusSuccessful then Some (Inl (Reverted (ReceiptStatus rc)), c2, w2)
               else Some (Inr (), c2, w2)))"

definition broadcast ::
  "('abi, 'z) relayer_env_scheme \<Rightarrow> 'c ChainClient \<Rightarrow> 'abi BroadcasterConfig \<Rightarrow> byte list \<Rightarrow> nat \<Rightarrow> 'c \<Rightarrow> world \<Rightarrow>
   ((broadcast_error, unit) result \<times> 'c \<times> world) option" where
  "broadcast e client config calldata start c w =
     (let auth = pubkey_to_address e (BcPrivateKey config) in
      (case PendingNonceAt client auth c of
         (Inl err, c1) \<Rightarrow> Some (Inl (NonceFailed err), c1, w)
       | (Inr nonce, c1) \<Rightarrow>
      (case SuggestGasTipCap client c1 of
         (Inl err, c2) \<Rightarrow> Some (Inl (GasTipFailed err), c2, w)
       | (Inr tipCap, c2) \<Rightarrow>
      (case SuggestGasPrice client c2 of
         (Inl err, c3) \<Rightarrow> Some (Inl (GasPriceFailed err), c3, w)
       | (Inr feeCap, c3) \<Rightarrow>
      (case EstimateGas client \<lparr>CallFrom = auth, CallTo = BcContractAddress config, CallData = calldata,
                                CallValue = 0\<rparr> c3 of
         (est, c4) \<Rightarrow>
           (let estimatedGas = (case est of Inl _ \<Rightarrow> GAS_ESTIMATE_FALLBACK_LIMIT | Inr g \<Rightarrow> g);
                tx = \<lparr>TxChainID = BcChainID config, TxNonce = nonce, TxGasTipCap = tipCap,
                      TxGasFeeCap = feeCap, TxGas = gas_limit estimatedGas,
                      TxTo = BcContractAddress config, TxValue = 0, TxData = calldata\<rparr>
            in (case sign_tx e tx (BcChainID config) (BcPrivateKey config) of
                  Inl err \<Rightarrow> Some (Inl (SignTxFailed err), c4, w)
                | Inr stx \<Rightarrow> submit_and_wait e client config start stx c4 w)))))))"

text \<open>
  One round of the loop of \<open>BroadcastMatches\<close>; the flag says whether it counts as a failure. The
  context of a round starts with it.
\<close>

definition broadcast_one ::
  "('abi, 'z) relayer_env_scheme \<Rightarrow> 'c ChainClient \<Rightarrow> 'abi BroadcasterConfig \<Rightarrow> 'db option \<Rightarrow> RelayerMatch \<Rightarrow>
   'c \<Rightarrow> world \<Rightarrow> (bool \<times> 'c \<times> world) option" where
  "broadcast_one e client cfg repo m c w =
     (case buildCalldata e m of
        Inl err \<Rightarrow> Some (True, c, log_event (SlogError ''build submitMatch calldata failed'' (rm_CanonicalID m)) w)
      | Inr calldata \<Rightarrow>
          (case broadcast e client cfg calldata (w_tick w) c w of
             None \<Rightarrow> None
           | Some (r, c1, w1) \<Rightarrow>
               (case r of
                  Inl err \<Rightarrow>
                    if err = ErrMatchAlreadySubmitted then
                      (case BroadcastMatch e repo (rm_ID m) w1 of
                         (Inl _, w2) \<Rightarrow> Some (False, c1, log_event (SlogError
                            ''broadcast match status update failed after already-submitted'' (rm_CanonicalID m)) w2)
                       | (Inr _, w2) \<Rightarrow> Some (False, c1, w2))
                    else Some (True, c1, log_event (SlogError ''broadcast failed'' (rm_CanonicalID m)) w1)
                | Inr _ \<Rightarrow>
                    (case BroadcastMatch e repo (rm_ID m) w1 of
                       (Inl _, w2) \<Rightarrow> Some (False, c1, log_event (SlogError
                          ''broadcast match status update failed'' (rm_CanonicalID m)) w2)
                     | (Inr _, w2) \<Rightarrow> Some (False, c1, w2)))))"

fun BroadcastMatches ::
  "('abi, 'z) relayer_env_scheme \<Rightarrow> 'c ChainClient \<Rightarrow> 'abi BroadcasterConfig \<Rightarrow> 'db option \<Rightarrow> RelayerMatch list \<Rightarrow>
   'c \<Rightarrow> world \<Rightarrow> (nat \<times> 'c \<times> world) option" where
  "BroadcastMatches e client cfg repo [] c w = Some (0, c, w)"
| "BroadcastMatches e client cfg repo (m # ms) c w =
     (case broadcast_one e client cfg repo m c w of
        None \<Rightarrow> None
      | Some (failed, c1, w1) \<Rightarrow>
          (case BroadcastMatches e client cfg repo ms c1 w1 of
             None \<Rightarrow> None
           | Some (failedCount, c2, w2) \<Rightarrow> Some ((if failed then 1 else 0) + failedCount, c2, w2)))"

section \<open>The binary\<close>

definition RELAYER_SUCCESS :: int where [go_const]: "RELAYER_SUCCESS = 0"
definition RELAYER_DB_INIT_ERROR :: int where [go_const]: "RELAYER_DB_INIT_ERROR = 1"
definition MISSING_ENV :: int where [go_const]: "MISSING_ENV = 2"
definition BUILD_CONFIG_ERROR :: int where [go_const]: "BUILD_CONFIG_ERROR = 3"
definition FIND_MATCHES_ERROR :: int where [go_const]: "FIND_MATCHES_ERROR = 4"
definition BROADCAST_FAILURE :: int where [go_const]: "BROADCAST_FAILURE = 5"

definition relayer_Run ::
  "('abi, 'z) relayer_env_scheme \<Rightarrow> 'db sql_driver \<Rightarrow> 'c ChainClient \<Rightarrow> 'abi BroadcasterConfig \<Rightarrow> 'c \<Rightarrow> world \<Rightarrow>
   (int \<times> 'c \<times> world) option" where
  "relayer_Run e drv client cfg c w =
     (case relayer_InitDB drv (r_getenv e) of
        Inl _ \<Rightarrow> Some (RELAYER_DB_INIT_ERROR, c, w)
      | Inr (db, shouldClose) \<Rightarrow>
          (case FindSignedMatches e (Some db) w of
             (Inl _, w1) \<Rightarrow> Some (FIND_MATCHES_ERROR, c, w1)
           | (Inr ms, w1) \<Rightarrow>
               (case BroadcastMatches e client cfg (Some db) ms c w1 of
                  None \<Rightarrow> None
                | Some (failed, c2, w2) \<Rightarrow>
                    Some (if 0 < failed then BROADCAST_FAILURE else RELAYER_SUCCESS, c2, w2))))"

text \<open>\<open>ethclient.DialContext\<close> gives a client for a URL, or an error.\<close>

definition relayer_main ::
  "('abi, 'z) relayer_env_scheme \<Rightarrow> 'db sql_driver \<Rightarrow> (string \<Rightarrow> (string, 'c ChainClient) result) \<Rightarrow> 'c \<Rightarrow> world \<Rightarrow>
   (int \<times> 'c \<times> world) option" where
  "relayer_main e drv dial c w =
     (case LoadEnvVars e of
        Inl _ \<Rightarrow> Some (MISSING_ENV, c, w)
      | Inr envVars \<Rightarrow>
          (case BuildBroadcasterConfig e envVars of
             Inl _ \<Rightarrow> Some (BUILD_CONFIG_ERROR, c, w)
           | Inr cfg \<Rightarrow>
               (case dial (BcRPCURL cfg) of
                  Inl _ \<Rightarrow> Some (BUILD_CONFIG_ERROR, c, w)
                | Inr client \<Rightarrow> relayer_Run e drv client cfg c w)))"

section \<open>Gas\<close>

lemma gas_limit_unat:
  assumes "unat g < 2 ^ 63"
  shows "unat (gas_limit g) = unat g + unat g * 2 div 100"
proof -
  have "unat (g * 2) = unat g * 2"
    using assms by (simp add: unat_word_ariths)
  then have "unat (g * 2 div 100) = unat g * 2 div 100"
    by (simp add: unat_div)
  moreover have "unat g + unat g * 2 div 100 < 2 ^ 64"
  proof -
    have "unat g * 2 div 100 \<le> unat g" by simp
    moreover have "unat g < 9223372036854775808" using assms by simp
    ultimately show ?thesis by simp
  qed
  ultimately show ?thesis
    by (simp add: gas_limit_def GAS_ESTIMATE_BUFFER_PERCENT_def unat_word_ariths)
qed

section \<open>Waiting for the receipt\<close>

lemma waitForReceipt_returns:
  assumes "\<And>n. N \<le> n \<Longrightarrow> bctx_done e start n"
  shows "\<exists>res. waitForReceipt e client start h c w = Some res"
proof (induction "N - w_tick w" arbitrary: c w rule: less_induct)
  case less
  obtain r c1 where r: "TransactionReceipt client h c = (r, c1)" by (cases "TransactionReceipt client h c")
  show ?case
  proof (cases "r = Inl NotFound \<and> \<not> bctx_done e start (w_tick (tick w))")
    case True
    with assms have "Suc (w_tick w) < N" by (metis not_less tick_simps(1))
    then have "N - w_tick (log_event (Sleep (second_ns div 2)) (tick (tick w))) < N - w_tick w" by simp
    from less [OF this] r True show ?thesis by (simp add: waitForReceipt.simps [of e client start h c w])
  next
    case False
    with r show ?thesis by (cases r) (auto simp: waitForReceipt.simps [of e client start h c w])
  qed
qed

lemma waitForReceipt_rule:
  assumes "waitForReceipt e client start h c w = Some (r, c', w')" and "I c w"
    and "\<And>c w. I c w \<Longrightarrow> I (snd (TransactionReceipt client h c)) (tick w)"
    and "\<And>c w. I c w \<Longrightarrow> I c (tick w)"
    and "\<And>c w. I c w \<Longrightarrow> I c (log_event (Sleep (second_ns div 2)) w)"
  shows "I c' w'"
proof -
  let ?P = "\<lambda>e' client' start' h' c w res. client' = client \<longrightarrow> h' = h \<longrightarrow> I c w \<longrightarrow> I (fst (snd res)) (snd (snd res))"
  have "?P e client start h c w (r, c', w')"
  proof (rule waitForReceipt.raw_induct [where P = ?P, OF _ assms(1)], intro impI)
    fix loop e' client' start' h' c w res
    assume IH: "\<And>e' client' start' h' c w res. loop e' client' start' h' c w = Some res \<Longrightarrow> ?P e' client' start' h' c w res"
      and eq: "client' = client" "h' = h" and I: "I c w"
      and body: "(case TransactionReceipt client' h' c of (r, c1) \<Rightarrow>
        (case r of
           Inl err \<Rightarrow>
             if err \<noteq> NotFound then Some (Inl (ReceiptError err), c1, tick w)
             else if bctx_done e' start' (w_tick (tick w)) then Some (Inl WaitContextDone, c1, tick (tick w))
             else loop e' client' start' h' c1 (log_event (Sleep (second_ns div 2)) (tick (tick w)))
         | Inr rc \<Rightarrow> Some (Inr rc, c1, tick w))) = Some res"
    obtain r1 c1 where r: "TransactionReceipt client h c = (r1, c1)" by (cases "TransactionReceipt client h c")
    have I1: "I c1 (tick w)" using assms(3) [OF I] r by simp
    have I2: "I c1 (tick (tick w))" by (rule assms(4) [OF I1])
    have I3: "I c1 (log_event (Sleep (second_ns div 2)) (tick (tick w)))" by (rule assms(5) [OF I2])
    show "I (fst (snd res)) (snd (snd res))"
      using body r eq I1 I2 I3 IH by (cases r1) (auto split: if_splits)
  qed
  with assms(2) show ?thesis by simp
qed

lemma waitForReceipt_db:
  "waitForReceipt e client start h c w = Some (r, c', w') \<Longrightarrow> w_db w' = w_db w"
  by (rule waitForReceipt_rule [where I = "\<lambda>_ v. w_db v = w_db w"]) auto

section \<open>One broadcast\<close>

lemma submit_and_wait_db:
  "submit_and_wait e client cfg start stx c w = Some (r, c', w') \<Longrightarrow> w_db w' = w_db w"
  by (auto simp: submit_and_wait_def dest: waitForReceipt_db split: prod.splits sum.splits if_splits option.splits)

lemma submit_and_wait_returns:
  assumes "\<And>n. N \<le> n \<Longrightarrow> bctx_done e start n"
  shows "\<exists>res. submit_and_wait e client cfg start stx c w = Some res"
proof -
  obtain r c1 where "SendTransaction client stx c = (r, c1)" by (cases "SendTransaction client stx c")
  moreover obtain r2 c2 w2 where "waitForReceipt e client start (SignedHash stx) c1 w = Some (r2, c2, w2)"
    using waitForReceipt_returns [OF assms] by (metis prod_cases3)
  ultimately show ?thesis
    by (cases r; cases r2) (auto simp: submit_and_wait_def)
qed

text \<open>
  What a broadcast has built when it gets as far as signing: the transaction, from the answers of
  the node.
\<close>

definition kept_by_reads :: "'c ChainClient \<Rightarrow> ('c \<Rightarrow> bool) \<Rightarrow> bool" where
  "kept_by_reads client I \<longleftrightarrow>
     (\<forall>c. I c \<longrightarrow> (\<forall>a. I (snd (PendingNonceAt client a c))) \<and> I (snd (SuggestGasTipCap client c)) \<and>
        I (snd (SuggestGasPrice client c)) \<and> (\<forall>msg. I (snd (EstimateGas client msg c))))"

text \<open>A state that only calls other than \<open>SendTransaction\<close> and the receipt query lead to.\<close>

definition via_reads :: "'c ChainClient \<Rightarrow> 'c \<Rightarrow> 'c \<Rightarrow> bool" where
  "via_reads client c c' \<longleftrightarrow> (\<forall>I. kept_by_reads client I \<longrightarrow> I c \<longrightarrow> I c')"

lemma via_reads_keeps: "via_reads client c c' \<Longrightarrow> kept_by_reads client I \<Longrightarrow> I c \<Longrightarrow> I c'"
  unfolding via_reads_def by blast

lemma via_reads_step:
  assumes "via_reads client c c1"
  shows "PendingNonceAt client a c1 = (r, c2) \<Longrightarrow> via_reads client c c2"
    and "SuggestGasTipCap client c1 = (r', c2) \<Longrightarrow> via_reads client c c2"
    and "SuggestGasPrice client c1 = (r', c2) \<Longrightarrow> via_reads client c c2"
    and "EstimateGas client msg c1 = (r, c2) \<Longrightarrow> via_reads client c c2"
  using assms unfolding via_reads_def kept_by_reads_def by (metis snd_conv)+

lemma broadcast_cases:
  obtains (early) r c' where "broadcast e client cfg d start c w = Some (Inl r, c', w)"
      "r \<noteq> ErrMatchAlreadySubmitted" "via_reads client c c'"
  | (signing) nonce c1 tip c2 fee c3 est c4 g stx where
      "PendingNonceAt client (pubkey_to_address e (BcPrivateKey cfg)) c = (Inr nonce, c1)"
      "SuggestGasTipCap client c1 = (Inr tip, c2)" "SuggestGasPrice client c2 = (Inr fee, c3)"
      "EstimateGas client \<lparr>CallFrom = pubkey_to_address e (BcPrivateKey cfg), CallTo = BcContractAddress cfg,
         CallData = d, CallValue = 0\<rparr> c3 = (est, c4)"
      "g = (case est of Inl _ \<Rightarrow> GAS_ESTIMATE_FALLBACK_LIMIT | Inr g \<Rightarrow> g)"
      "sign_tx e \<lparr>TxChainID = BcChainID cfg, TxNonce = nonce, TxGasTipCap = tip, TxGasFeeCap = fee,
         TxGas = gas_limit g, TxTo = BcContractAddress cfg, TxValue = 0, TxData = d\<rparr>
         (BcChainID cfg) (BcPrivateKey cfg) = Inr stx"
      "broadcast e client cfg d start c w = submit_and_wait e client cfg start stx c4 w"
      "via_reads client c c4"
proof -
  let ?a = "pubkey_to_address e (BcPrivateKey cfg)"
  obtain r1 c1 where 1: "PendingNonceAt client ?a c = (r1, c1)" by (cases "PendingNonceAt client ?a c")
  obtain r2 c2 where 2: "SuggestGasTipCap client c1 = (r2, c2)" by (cases "SuggestGasTipCap client c1")
  obtain r3 c3 where 3: "SuggestGasPrice client c2 = (r3, c3)" by (cases "SuggestGasPrice client c2")
  let ?m = "\<lparr>CallFrom = ?a, CallTo = BcContractAddress cfg, CallData = d, CallValue = 0\<rparr>"
  obtain est c4 where 4: "EstimateGas client ?m c3 = (est, c4)" by (cases "EstimateGas client ?m c3")
  define g where "g = (case est of Inl _ \<Rightarrow> GAS_ESTIMATE_FALLBACK_LIMIT | Inr g \<Rightarrow> g)"
  note defs = broadcast_def Let_def 1 2 3 4 g_def [symmetric]
  have "via_reads client c c" by (simp add: via_reads_def)
  note k1 = via_reads_step(1) [OF this 1]
  note k2 = via_reads_step(2) [OF k1 2]
  note k3 = via_reads_step(3) [OF k2 3]
  note k4 = via_reads_step(4) [OF k3 4]
  show thesis
  proof (cases r1)
    case (Inl er)
    then show thesis using early [of "NonceFailed er" c1, OF _ _ k1] by (simp add: defs)
  next
    case r1: (Inr nonce)
    show thesis
    proof (cases r2)
      case (Inl er)
      then show thesis using early [of "GasTipFailed er" c2, OF _ _ k2] by (simp add: defs r1)
    next
      case r2: (Inr tip)
      show thesis
      proof (cases r3)
        case (Inl er)
        then show thesis using early [of "GasPriceFailed er" c3, OF _ _ k3] by (simp add: defs r1 r2)
      next
        case r3: (Inr fee)
        let ?tx = "\<lparr>TxChainID = BcChainID cfg, TxNonce = nonce, TxGasTipCap = tip, TxGasFeeCap = fee,
         TxGas = gas_limit g, TxTo = BcContractAddress cfg, TxValue = 0, TxData = d\<rparr>"
        show thesis
        proof (cases "sign_tx e ?tx (BcChainID cfg) (BcPrivateKey cfg)")
          case (Inl er)
          then show thesis using early [of "SignTxFailed er" c4, OF _ _ k4] by (simp add: defs r1 r2 r3)
        next
          case (Inr stx)
          have "broadcast e client cfg d start c w = submit_and_wait e client cfg start stx c4 w"
            by (simp add: defs r1 r2 r3 Inr)
          from signing [OF 1 [unfolded r1] 2 [unfolded r2] 3 [unfolded r3] 4 g_def Inr this k4] show thesis .
        qed
      qed
    qed
  qed
qed

lemma broadcast_db:
  assumes "broadcast e client cfg d start c w = Some (r, c', w')"
  shows "w_db w' = w_db w"
proof (cases rule: broadcast_cases [where e = e and client = client and cfg = cfg and d = d and start = start and c = c and w = w])
  case (early r c')
  with assms show ?thesis by simp
next
  case (signing nonce c1 tip c2 fee c3 est c4 g stx)
  with assms submit_and_wait_db [of e client cfg start stx c4 w r c' w'] show ?thesis by simp
qed

lemma broadcast_returns:
  assumes "\<And>n. N \<le> n \<Longrightarrow> bctx_done e start n"
  shows "\<exists>res. broadcast e client cfg d start c w = Some res"
proof (cases rule: broadcast_cases [where e = e and client = client and cfg = cfg and d = d and start = start and c = c and w = w])
  case (signing nonce c1 tip c2 fee c3 est c4 g stx)
  with submit_and_wait_returns [where e = e and start = start and N = N and client = client and cfg = cfg
      and stx = stx and c = c4 and w = w] assms show ?thesis by simp
qed simp

text \<open>
  Submissions, from the contract of the client alone: a broadcast submits at most one transaction,
  and when it reports acceptance it has submitted exactly one, to the contract, with its calldata.
\<close>

definition submission ::
  "('abi, 'z) relayer_env_scheme \<Rightarrow> 'abi BroadcasterConfig \<Rightarrow> byte list \<Rightarrow> signed_tx \<Rightarrow> bool" where
  "submission e cfg d stx \<longleftrightarrow>
     (\<exists>tx. sign_tx e tx (BcChainID cfg) (BcPrivateKey cfg) = Inr stx \<and> TxData tx = d \<and>
        TxTo tx = BcContractAddress cfg \<and> TxChainID tx = BcChainID cfg \<and> TxValue tx = 0)"

context chain_client
begin

lemma wait_submits_nothing:
  "waitForReceipt e client start h c w = Some (r, c', w') \<Longrightarrow> attempts c' = attempts c \<and> last_sent c' = last_sent c"
  by (rule waitForReceipt_rule [where I = "\<lambda>c' _. attempts c' = attempts c \<and> last_sent c' = last_sent c"])
    (auto simp: receipt_reads)

lemma submit_submits:
  assumes "submit_and_wait e client cfg start stx c w = Some (r, c', w')"
  shows "attempts c' = attempts c + 1 \<and> last_sent c' = Some stx"
proof -
  obtain r1 c1 where s: "SendTransaction client stx c = (r1, c1)" by (cases "SendTransaction client stx c")
  then have c1: "attempts c1 = attempts c + 1" "last_sent c1 = Some stx"
    using send_submits [of stx c] by simp_all
  show ?thesis
  proof (cases r1)
    case (Inl er)
    with assms s c1 show ?thesis by (auto simp: submit_and_wait_def split: if_splits)
  next
    case (Inr u)
    with assms s obtain r2 c2 w2 where w: "waitForReceipt e client start (SignedHash stx) c1 w = Some (r2, c2, w2)" "c' = c2"
      by (auto simp: submit_and_wait_def split: option.splits sum.splits if_splits)
    with wait_submits_nothing [OF w(1)] c1 show ?thesis by simp
  qed
qed

lemma broadcast_submits:
  assumes "broadcast e client cfg d start c w = Some (r, c', w')"
  shows "attempts c' = attempts c \<and> last_sent c' = last_sent c \<and> r \<notin> {Inr (), Inl ErrMatchAlreadySubmitted} \<or>
    attempts c' = attempts c + 1 \<and> (\<exists>stx. last_sent c' = Some stx \<and> submission e cfg d stx)"
proof -
  let ?I = "\<lambda>x. attempts x = attempts c \<and> last_sent x = last_sent c"
  have kept: "kept_by_reads client ?I"
    by (simp add: kept_by_reads_def nonce_reads tip_reads price_reads estimate_reads)
  show ?thesis
  proof (cases rule: broadcast_cases [where e = e and client = client and cfg = cfg and d = d and start = start and c = c and w = w])
    case (early er c1)
    have "?I c1" by (rule via_reads_keeps [OF early(3) kept]) simp
    moreover have "r = Inl er" "c' = c1" using assms early(1) by simp_all
    ultimately show ?thesis using early(2) by simp
  next
    case (signing nonce c1 tip c2 fee c3 est c4 g stx)
    have "?I c4" by (rule via_reads_keeps [OF signing(8) kept]) simp
    moreover have "attempts c' = attempts c4 + 1 \<and> last_sent c' = Some stx"
      using submit_submits assms signing(7) by simp
    moreover have "submission e cfg d stx"
      unfolding submission_def by (rule exI, intro conjI, rule signing(6)) simp_all
    ultimately show ?thesis by simp
  qed
qed

end

section \<open>The already-submitted error\<close>

lemma isMatchAlreadySubmitted_iff:
  "isMatchAlreadySubmitted e err contractABI \<longleftrightarrow>
     (\<exists>msg s bs errID. err = DataError msg (StringData s) \<and> hex_decode (trim_prefix s ''0x'') = Inr bs \<and> 4 \<le> length bs \<and>
        abi_error_id e contractABI ''MatchAlreadySubmitted'' = Some errID \<and> take 4 bs = take 4 errID)"
  by (auto simp: isMatchAlreadySubmitted_def split: chain_error.split error_data.split sum.split option.split)

section \<open>Rows and the failure count\<close>

text \<open>
  \<open>accepted\<close>: the broadcast that starts in the given state of the node and the world, with the match's
  own calldata, was confirmed, or the contract said that it already holds the match.
\<close>

definition accepted ::
  "('abi, 'z) relayer_env_scheme \<Rightarrow> 'c ChainClient \<Rightarrow> 'abi BroadcasterConfig \<Rightarrow> RelayerMatch \<times> 'c \<times> world \<Rightarrow> bool" where
  "accepted e client cfg v =
     (case v of (m, c, w) \<Rightarrow>
        (case buildCalldata e m of
           Inl _ \<Rightarrow> False
         | Inr d \<Rightarrow>
             (case broadcast e client cfg d (w_tick w) c w of
                None \<Rightarrow> False
              | Some (r, _) \<Rightarrow> r = Inr () \<or> r = Inl ErrMatchAlreadySubmitted)))"

text \<open>The states in which the loop broadcasts its matches, one after the other.\<close>

fun broadcast_trace ::
  "('abi, 'z) relayer_env_scheme \<Rightarrow> 'c ChainClient \<Rightarrow> 'abi BroadcasterConfig \<Rightarrow> 'db option \<Rightarrow> RelayerMatch list \<Rightarrow>
   'c \<Rightarrow> world \<Rightarrow> (RelayerMatch \<times> 'c \<times> world) list" where
  "broadcast_trace e client cfg repo [] c w = []"
| "broadcast_trace e client cfg repo (m # ms) c w =
     (m, c, w) # (case broadcast_one e client cfg repo m c w of
                    None \<Rightarrow> []
                  | Some (_, c1, w1) \<Rightarrow> broadcast_trace e client cfg repo ms c1 w1)"

definition mark_broadcasted :: "uuid \<Rightarrow> match_row list \<Rightarrow> match_row list" where
  "mark_broadcasted i rows = map (\<lambda>r. if row_id r = i then r\<lparr>row_status := BROADCASTED_STATUS\<rparr> else r) rows"

lemma BroadcastMatch_db:
  assumes "BroadcastMatch e (Some db) i w = (r, w')"
  shows "w_db w' = w_db w \<or> w_db w' = (w_db w)\<lparr>matches := mark_broadcasted i (matches (w_db w))\<rparr>"
    and "db_fault e (w_tick w) = Healthy \<Longrightarrow> w_db w' = (w_db w)\<lparr>matches := mark_broadcasted i (matches (w_db w))\<rparr>"
proof -
  have w': "w' = snd (db_exec e (set_status i BROADCASTED_STATUS) w)"
    using assms by (auto simp: BroadcastMatch_def split: prod.splits sum.splits)
  have run: "run_statement (set_status i BROADCASTED_STATUS) t = t\<lparr>matches := mark_broadcasted i (matches t)\<rparr>" for t
    by (simp add: run_statement_def set_status_def mark_broadcasted_def int4_def BROADCASTED_STATUS_def)
  show "w_db w' = w_db w \<or> w_db w' = (w_db w)\<lparr>matches := mark_broadcasted i (matches (w_db w))\<rparr>"
    using db_exec_db [of e "set_status i BROADCASTED_STATUS" w] by (auto simp: w' run)
  show "w_db w' = (w_db w)\<lparr>matches := mark_broadcasted i (matches (w_db w))\<rparr>" if "db_fault e (w_tick w) = Healthy"
    using db_exec_healthy [OF that, of "set_status i BROADCASTED_STATUS"] by (simp add: w' run)
qed

lemma broadcast_one_cases:
  assumes "broadcast_one e client cfg (Some db) m c w = Some (failed, c', w')"
  shows "w_db w' = w_db w \<or> \<not> failed \<and> w_db w' = (w_db w)\<lparr>matches := mark_broadcasted (rm_ID m) (matches (w_db w))\<rparr>"
    and "failed \<longleftrightarrow> \<not> accepted e client cfg (m, c, w)"
    and "\<not> failed \<Longrightarrow> (\<And>n. db_fault e n = Healthy) \<Longrightarrow>
      w_db w' = (w_db w)\<lparr>matches := mark_broadcasted (rm_ID m) (matches (w_db w))\<rparr>"
proof -
  let ?up = "\<lambda>v. w_db v = w_db w \<or> w_db v = (w_db w)\<lparr>matches := mark_broadcasted (rm_ID m) (matches (w_db w))\<rparr>"
  have all: "?up w' \<and> (failed \<longrightarrow> w_db w' = w_db w) \<and> (failed \<longleftrightarrow> \<not> accepted e client cfg (m, c, w)) \<and>
    (\<not> failed \<longrightarrow> (\<forall>n. db_fault e n = Healthy) \<longrightarrow>
      w_db w' = (w_db w)\<lparr>matches := mark_broadcasted (rm_ID m) (matches (w_db w))\<rparr>)"
  proof (cases "buildCalldata e m")
    case (Inl er)
    with assms show ?thesis by (auto simp: broadcast_one_def accepted_def)
  next
    case (Inr d)
    with assms obtain r c1 w1 where b: "broadcast e client cfg d (w_tick w) c w = Some (r, c1, w1)"
      by (auto simp: broadcast_one_def split: option.splits)
    note db = broadcast_db [OF b]
    obtain r2 w2 where u: "BroadcastMatch e (Some db) (rm_ID m) w1 = (r2, w2)"
      by (cases "BroadcastMatch e (Some db) (rm_ID m) w1")
    show ?thesis
    proof (cases "r = Inr () \<or> r = Inl ErrMatchAlreadySubmitted")
      case True
      then have acc: "accepted e client cfg (m, c, w)" using Inr b by (auto simp: accepted_def)
      have "\<not> failed \<and> w_db w' = w_db w2"
        using assms Inr b u True by (cases r2) (auto simp: broadcast_one_def)
      with acc BroadcastMatch_db [OF u] db show ?thesis by auto
    next
      case False
      then obtain err where "r = Inl err" "err \<noteq> ErrMatchAlreadySubmitted" by (cases r) auto
      with assms Inr b db show ?thesis by (auto simp: broadcast_one_def accepted_def)
    qed
  qed
  then show "w_db w' = w_db w \<or> \<not> failed \<and> w_db w' = (w_db w)\<lparr>matches := mark_broadcasted (rm_ID m) (matches (w_db w))\<rparr>"
    "failed \<longleftrightarrow> \<not> accepted e client cfg (m, c, w)"
    "\<not> failed \<Longrightarrow> (\<And>n. db_fault e n = Healthy) \<Longrightarrow>
      w_db w' = (w_db w)\<lparr>matches := mark_broadcasted (rm_ID m) (matches (w_db w))\<rparr>"
    by blast+
qed

lemma broadcast_one_returns:
  assumes "\<And>s. \<exists>N. \<forall>n \<ge> N. bctx_done e s n"
  shows "\<exists>failed c' w'. broadcast_one e client cfg db m c w = Some (failed, c', w')"
proof (cases "buildCalldata e m")
  case (Inl er)
  then have "broadcast_one e client cfg db m c w = Some (True, c,
      log_event (SlogError ''build submitMatch calldata failed'' (rm_CanonicalID m)) w)"
    by (simp add: broadcast_one_def)
  then show ?thesis by blast
next
  case (Inr d)
  obtain N where "\<And>n. N \<le> n \<Longrightarrow> bctx_done e (w_tick w) n" using assms by blast
  then obtain r c1 w1 where "broadcast e client cfg d (w_tick w) c w = Some (r, c1, w1)"
    using broadcast_returns by (metis prod_cases3)
  with Inr show ?thesis
    by (cases r) (auto simp: broadcast_one_def split: prod.split sum.split)
qed

lemma BroadcastMatches_returns:
  assumes "\<And>s. \<exists>N. \<forall>n \<ge> N. bctx_done e s n"
  shows "\<exists>res. BroadcastMatches e client cfg db ms c w = Some res"
proof (induction ms arbitrary: c w)
  case (Cons m ms)
  obtain f c1 w1 where "broadcast_one e client cfg db m c w = Some (f, c1, w1)"
    using broadcast_one_returns [where e = e and client = client and cfg = cfg and db = db and m = m and c = c
        and w = w] assms by metis
  moreover obtain n c2 w2 where "BroadcastMatches e client cfg db ms c1 w1 = Some (n, c2, w2)"
    using Cons.IH [of c1 w1] by (metis prod_cases3)
  ultimately show ?case by simp
qed simp

text \<open>What the loop does to a row, given its trace, and what the count says.\<close>

definition row_broadcasted ::
  "('abi, 'z) relayer_env_scheme \<Rightarrow> 'c ChainClient \<Rightarrow> 'abi BroadcasterConfig \<Rightarrow>
   (RelayerMatch \<times> 'c \<times> world) list \<Rightarrow> match_row \<Rightarrow> match_row \<Rightarrow> bool" where
  "row_broadcasted e client cfg vs r r' \<longleftrightarrow>
     r' = r \<or> (\<exists>v \<in> set vs. rm_ID (fst v) = row_id r \<and> accepted e client cfg v) \<and> r' = r\<lparr>row_status := BROADCASTED_STATUS\<rparr>"

lemma row_broadcasted_self: "list_all2 (row_broadcasted e client cfg vs) rows rows"
  by (simp add: list_all2_same row_broadcasted_def)

lemma BroadcastMatches_step:
  assumes "BroadcastMatches e client cfg db (m # ms) c w = Some (n, c', w')"
  obtains f c1 w1 k where "broadcast_one e client cfg db m c w = Some (f, c1, w1)"
    "BroadcastMatches e client cfg db ms c1 w1 = Some (k, c', w')" "n = (if f then 1 else 0) + k"
    "broadcast_trace e client cfg db (m # ms) c w = (m, c, w) # broadcast_trace e client cfg db ms c1 w1"
  using assms by (auto split: option.splits)

lemma BroadcastMatches_rows:
  assumes "BroadcastMatches e client cfg (Some db) ms c w = Some (n, c', w')"
    and "set (broadcast_trace e client cfg (Some db) ms c w) \<subseteq> set vs"
    and "list_all2 (row_broadcasted e client cfg vs) rows (matches (w_db w))"
  shows "list_all2 (row_broadcasted e client cfg vs) rows (matches (w_db w')) \<and>
    sync_state (w_db w') = sync_state (w_db w) \<and> match_reconciliation (w_db w') = match_reconciliation (w_db w)"
  using assms
proof (induction ms arbitrary: n c w)
  case (Cons m ms)
  from Cons.prems(1) obtain f c1 w1 k where one: "broadcast_one e client cfg (Some db) m c w = Some (f, c1, w1)"
    and rest: "BroadcastMatches e client cfg (Some db) ms c1 w1 = Some (k, c', w')"
    and trace: "broadcast_trace e client cfg (Some db) (m # ms) c w = (m, c, w) # broadcast_trace e client cfg (Some db) ms c1 w1"
    by (rule BroadcastMatches_step)
  note oc = broadcast_one_cases [OF one]
  have step: "row_broadcasted e client cfg vs r0 (if row_id r = rm_ID m then r\<lparr>row_status := BROADCASTED_STATUS\<rparr> else r)"
    if "row_broadcasted e client cfg vs r0 r" "\<not> f" for r0 r
  proof -
    have r: "row_id r = row_id r0" "r\<lparr>row_status := BROADCASTED_STATUS\<rparr> = r0\<lparr>row_status := BROADCASTED_STATUS\<rparr>"
      using that(1) by (auto simp: row_broadcasted_def)
    have v: "(m, c, w) \<in> set vs" "accepted e client cfg (m, c, w)" using Cons.prems(2) trace oc(2) that(2) by simp_all
    show ?thesis
    proof (cases "row_id r = rm_ID m")
      case True
      with v r show ?thesis unfolding row_broadcasted_def by (intro disjI2 conjI bexI [OF _ v(1)]) simp_all
    next
      case False
      with that(1) show ?thesis by simp
    qed
  qed
  have "list_all2 (row_broadcasted e client cfg vs) rows (mark_broadcasted (rm_ID m) (matches (w_db w)))" if "\<not> f"
    unfolding mark_broadcasted_def list_all2_map2
    by (rule list_all2_mono [OF Cons.prems(3)]) (rule step [OF _ that])
  then have now: "list_all2 (row_broadcasted e client cfg vs) rows (matches (w_db w1)) \<and>
      sync_state (w_db w1) = sync_state (w_db w) \<and> match_reconciliation (w_db w1) = match_reconciliation (w_db w)"
    using oc(1) Cons.prems(3) by auto
  have "set (broadcast_trace e client cfg (Some db) ms c1 w1) \<subseteq> set vs" using Cons.prems(2) one by simp
  with now Cons.IH [OF rest] show ?case by simp
qed simp

lemma BroadcastMatches_count:
  "BroadcastMatches e client cfg (Some db) ms c w = Some (n, c', w') \<Longrightarrow>
     n = length (filter (\<lambda>v. \<not> accepted e client cfg v) (broadcast_trace e client cfg (Some db) ms c w)) \<and>
     map fst (broadcast_trace e client cfg (Some db) ms c w) = ms"
proof (induction ms arbitrary: n c w)
  case (Cons m ms)
  from Cons.prems obtain f c1 w1 k where one: "broadcast_one e client cfg (Some db) m c w = Some (f, c1, w1)"
    and rest: "BroadcastMatches e client cfg (Some db) ms c1 w1 = Some (k, c', w')" "n = (if f then 1 else 0) + k"
      "broadcast_trace e client cfg (Some db) (m # ms) c w = (m, c, w) # broadcast_trace e client cfg (Some db) ms c1 w1"
    by (rule BroadcastMatches_step)
  with Cons.IH [OF rest(1)] broadcast_one_cases(2) [OF one] show ?case by simp
qed simp

text \<open>When nothing fails, the loop marks exactly the matches it was given.\<close>

lemma BroadcastMatches_all:
  assumes "\<And>n. db_fault e n = Healthy"
  shows "BroadcastMatches e client cfg (Some db) ms c w = Some (0, c', w') \<Longrightarrow>
    w_db w' = (w_db w)\<lparr>matches := map (\<lambda>r. if row_id r \<in> rm_ID ` set ms then r\<lparr>row_status := BROADCASTED_STATUS\<rparr> else r)
      (matches (w_db w))\<rparr>"
proof (induction ms arbitrary: c w)
  case (Cons m ms)
  from Cons.prems obtain f c1 w1 k where one: "broadcast_one e client cfg (Some db) m c w = Some (f, c1, w1)"
    and rest: "BroadcastMatches e client cfg (Some db) ms c1 w1 = Some (k, c', w')" "0 = (if f then 1 else 0) + k"
    by (rule BroadcastMatches_step)
  then have "\<not> f" "k = 0" by (auto split: if_splits)
  with Cons.IH rest(1) broadcast_one_cases(3) [OF one _ assms] show ?case
    by (auto simp: mark_broadcasted_def)
qed simp

section \<open>Properties\<close>

text \<open>An environment in which nothing fails, a node that accepts, and tables with one signed match.\<close>

definition quiet_relayer :: "unit relayer_env" where
  "quiet_relayer =
     \<lparr>db_fault = (\<lambda>_. Healthy), db_now = (\<lambda>_. epoch), heap_order = (\<lambda>_ rows. rows), ts_value = (\<lambda>t. t),
      uuid_new = (\<lambda>n. word_of_nat n), r_getenv = (\<lambda>_. ''k''), r_to_ecdsa = (\<lambda>bs. Inr \<lparr>key_bytes = bs, key_on_s256 = True\<rparr>),
      is_hex_address = (\<lambda>_. True), hex_to_address = (\<lambda>_. [1]),
      hex_to_hash = (\<lambda>s. case hex_decode s of Inr bs \<Rightarrow> bs | Inl _ \<Rightarrow> []), pubkey_to_address = (\<lambda>_. [2]),
      abi_json = (\<lambda>_. Inr ()), abi_pack = (\<lambda>_ _ _. Inr [1, 2, 3]),
      abi_error_id = (\<lambda>_ _. Some [0xAA, 0xBB, 0xCC, 0xDD, 0xEE]),
      sign_tx = (\<lambda>tx _ _. Inr \<lparr>SignedPayload = tx, SignedHash = [9]\<rparr>), bctx_done = (\<lambda>s n. s + 3 \<le> n)\<rparr>"

definition sample_cfg :: "unit BroadcasterConfig" where
  "sample_cfg =
     \<lparr>BcRPCURL = ''u'', BcContractAddress = [1], BcPrivateKey = \<lparr>key_bytes = [], key_on_s256 = True\<rparr>,
      BcChainID = 1, BcContractABI = ()\<rparr>"

definition accepting_node :: MockChainClient where
  "accepting_node =
     \<lparr>MockNonce = 0, MockTipCap = None, MockFeeCap = None, MockReceipt = Some \<lparr>ReceiptStatus = 1\<rparr>, SendErr = None,
      EstimatedGas = 0, EstimateGasErr = None, TimesCalled = 0, LastSentTx = None\<rparr>"

definition sample_signed :: RelayerMatch where
  "sample_signed =
     \<lparr>rm_ID = 7, rm_CanonicalID = ''ab'', rm_CompetitionID = 1, rm_HomeTeamID = 1, rm_AwayTeamID = 2,
      rm_HomeTeamScore = 2, rm_AwayTeamScore = 1, rm_Start = 19700101, rm_Signature = [0]\<rparr>"

definition idle_world :: world where
  "idle_world = \<lparr>w_db = empty_tables, w_tick = 0, w_log = []\<rparr>"

lemma relayer_returns:
  assumes "\<And>s. \<exists>N. \<forall>n \<ge> N. bctx_done e s n"
  shows "\<exists>code c' w'. relayer_Run e (drv :: 'db sql_driver) client cfg c w = Some (code, c', w')"
proof -
  have "\<exists>n c' w'. BroadcastMatches e client cfg (Some db) ms c w1 = Some (n, c', w')" for db :: 'db and ms w1
    using BroadcastMatches_returns [OF assms, of client cfg "Some db" ms c w1] by auto
  note loop = this
  show ?thesis
  proof (cases "relayer_InitDB drv (r_getenv e)")
    case (Inr dbc)
    obtain r w1 where f: "FindSignedMatches e (Some (fst dbc)) w = (r, w1)" by (cases "FindSignedMatches e (Some (fst dbc)) w")
    then show ?thesis
      using Inr loop [of "fst dbc" "projr r" w1] by (cases r) (auto simp: relayer_Run_def case_prod_beta)
  qed (simp add: relayer_Run_def)
qed

text \<open>
  C24: A run of the relayer always comes to an end, whatever the node answers, provided the deadline
  of every round's context passes for good: waiting for a receipt cannot go on for ever.
\<close>

theorem relayer_terminates:
  assumes "\<And>s. \<exists>N. \<forall>n \<ge> N. bctx_done e s n"
  shows "\<exists>code c' w'. relayer_Run e drv client cfg c w = Some (code, c', w')"
  by (rule relayer_returns [OF assms])

definition unit_driver :: "unit sql_driver" where
  "unit_driver = \<lparr>sql_open = (\<lambda>_. Inr ()), sql_ping = (\<lambda>_ _. Inr ())\<rparr>"

theorem relayer_terminates_witness:
  "\<exists>code c' w'. relayer_Run quiet_relayer unit_driver mock_client sample_cfg (accepting_node\<lparr>MockReceipt := None\<rparr>) idle_world =
     Some (code, c', w')"
  by (rule relayer_terminates) (auto simp: quiet_relayer_def)

text \<open>
  The failure count is exact: it is the number of broadcasts of the run, one per match and in
  the order of the matches, that were neither confirmed nor answered with the already-submitted
  error.
\<close>

theorem failed_count_exact:
  assumes "BroadcastMatches e client cfg (Some db) ms c w = Some (n, c', w')"
  shows "n = length (filter (\<lambda>v. \<not> accepted e client cfg v) (broadcast_trace e client cfg (Some db) ms c w)) \<and>
    map fst (broadcast_trace e client cfg (Some db) ms c w) = ms"
  using BroadcastMatches_count [OF assms] .

theorem failed_count_exact_witness:
  "\<exists>c' w'. BroadcastMatches quiet_relayer mock_client sample_cfg (Some ()) [sample_signed, sample_signed] accepting_node idle_world =
      Some (0, c', w') \<and>
    length (filter (\<lambda>v. \<not> accepted quiet_relayer mock_client sample_cfg v)
      (broadcast_trace quiet_relayer mock_client sample_cfg (Some ()) [sample_signed, sample_signed] accepting_node idle_world)) = 0"
proof -
  let ?run = "BroadcastMatches quiet_relayer mock_client sample_cfg (Some ()) [sample_signed, sample_signed] accepting_node idle_world"
  have "?run \<noteq> None \<and> fst (the ?run) = 0" by code_simp
  then obtain c' w' where run: "?run = Some (0, c', w')" by (metis option.collapse prod.collapse)
  from failed_count_exact [OF this] run show ?thesis by simp
qed

text \<open>
  C39: The gas limit of a transaction is the estimate plus two percent, rounded down, with no
  wrap-around for any estimate below 2^63, and never below the estimate.
\<close>

theorem gas_limit_exact:
  assumes "unat g < 2 ^ 63"
  shows "unat (gas_limit g) = unat g + unat g * 2 div 100 \<and> g \<le> gas_limit g"
  using gas_limit_unat [OF assms] by (simp add: word_le_nat_alt)

theorem gas_limit_exact_witness: "unat (gas_limit 130000) = 132600"
  using gas_limit_exact [of 130000] by simp

text \<open>
  C33: On the repository's own chain client a broadcast submits at most one transaction; if it
  reports acceptance, confirmed or already there, it has submitted exactly one, signed with the
  configured key, addressed to the contract on the configured chain, carrying the calldata and no
  value.
\<close>

theorem broadcast_submits_once:
  assumes "broadcast e mock_client cfg d start c w = Some (r, c', w')"
  shows "TimesCalled c' = TimesCalled c \<and> LastSentTx c' = LastSentTx c \<and> r \<noteq> Inr () \<and> r \<noteq> Inl ErrMatchAlreadySubmitted \<or>
    TimesCalled c' = TimesCalled c + 1 \<and>
      (\<exists>stx tx. LastSentTx c' = Some stx \<and> sign_tx e tx (BcChainID cfg) (BcPrivateKey cfg) = Inr stx \<and>
         TxData tx = d \<and> TxTo tx = BcContractAddress cfg \<and> TxChainID tx = BcChainID cfg \<and> TxValue tx = 0)"
  using mock.broadcast_submits [OF assms] unfolding submission_def by blast

theorem broadcast_submits_once_witness:
  "\<exists>c' w' stx tx. broadcast quiet_relayer mock_client sample_cfg [5] 0 accepting_node idle_world = Some (Inr (), c', w') \<and>
     TimesCalled c' = 1 \<and> LastSentTx c' = Some stx \<and> sign_tx quiet_relayer tx 1 (BcPrivateKey sample_cfg) = Inr stx \<and>
     TxData tx = [5] \<and> TxTo tx = [1]"
proof -
  let ?run = "broadcast quiet_relayer mock_client sample_cfg [5] 0 accepting_node idle_world"
  have "?run \<noteq> None \<and> fst (the ?run) = Inr ()" by code_simp
  then obtain c' w' where run: "?run = Some (Inr (), c', w')" by (metis option.collapse prod.collapse)
  from broadcast_submits_once [OF this] run show ?thesis
    by (auto simp: sample_cfg_def accepting_node_def)
qed

text \<open>
  An error with hex data, with or without the 0x prefix, is taken for the already-submitted
  error exactly when the data has at least four bytes and its first four are the selector of that
  error.
\<close>

theorem already_submitted_iff:
  "isMatchAlreadySubmitted e (DataError msg (StringData (p @ hex_encode bs))) contractABI \<longleftrightarrow>
     (\<exists>errID. abi_error_id e contractABI ''MatchAlreadySubmitted'' = Some errID \<and> 4 \<le> length bs \<and> take 4 bs = take 4 errID)"
  if "p = [] \<or> p = ''0x''"
proof -
  have "trim_prefix (p @ hex_encode bs) ''0x'' = hex_encode bs"
    using that trim_prefix_append [of "''0x''" "hex_encode bs"] by auto
  then show ?thesis by (auto simp: isMatchAlreadySubmitted_iff hex_decode_encode)
qed

theorem already_submitted_iff_witness:
  "isMatchAlreadySubmitted quiet_relayer (DataError ''revert'' (StringData (''0x'' @ hex_encode [0xAA, 0xBB, 0xCC, 0xDD, 1, 2]))) ()"
  using already_submitted_iff [of "''0x''" quiet_relayer "''revert''" "[0xAA, 0xBB, 0xCC, 0xDD, 1, 2]" "()"]
  by (simp add: quiet_relayer_def)

end
