(* ===== verification/Pipeline.thy ===== *)
theory Pipeline
  imports Provider_Main Signer Relayer
begin

text \<open>
  The three programs on one database: what every row keeps to whichever of them runs next, whatever
  fails, and what that means for the arguments the contract receives.
\<close>

section \<open>The invariant of the tables\<close>

text \<open>
  A row carries the identity of its own competition, teams and day, which are known to the provider;
  only final results are stored; a signed or broadcasted row has a signature; scores are not negative.
\<close>

definition row_sound :: "(byte list \<Rightarrow> byte list) \<Rightarrow> match_row \<Rightarrow> bool" where
  "row_sound k r \<longleftrightarrow>
     generateMatchID k (word_of_int (row_competition_id r)) (word_of_int (row_home_team_id r))
       (word_of_int (row_away_team_id r)) (row_start r) = Inr (row_canonical_id r) \<and>
     known_competition (word_of_int (row_competition_id r)) \<and>
     known_team (word_of_int (row_home_team_id r)) \<and> known_team (word_of_int (row_away_team_id r)) \<and>
     row_status r \<in> {Finished, Signed, BROADCASTED_STATUS} \<and>
     (row_status r \<noteq> Finished \<longrightarrow> row_signature r \<noteq> None) \<and>
     0 \<le> row_home_team_score r \<and> 0 \<le> row_away_team_score r"

definition row_ok :: "(byte list \<Rightarrow> byte list) \<Rightarrow> match_row \<Rightarrow> bool" where
  "row_ok k r \<longleftrightarrow> row_sound k r \<and> row_fits r"

lemmas row_ok_defs = row_ok_def row_sound_def row_fits_def

definition db_inv :: "(byte list \<Rightarrow> byte list) \<Rightarrow> tables \<Rightarrow> bool" where
  "db_inv k t \<longleftrightarrow> wf_tables t \<and> (\<forall>r \<in> set (matches t). row_ok k r) \<and> tries_bounded t"

text \<open>
  The driver stores the calendar fields a time shows in its own location (a \<open>TIMESTAMP\<close> column has
  no zone), so the day of a stored time is the day of the original.
\<close>

definition ts_faithful :: "'z db_env_scheme \<Rightarrow> bool" where
  "ts_faithful e \<longleftrightarrow> (\<forall>t. date_of (ts_value e t) = date_of t)"

lemma generateMatchID_date:
  "date_of t = date_of u \<Longrightarrow> generateMatchID k c h a t = generateMatchID k c h a u"
  by (simp add: generateMatchID_def format_compact_def year_of_def month_of_def day_of_def)

lemma match_to_row_ok:
  assumes "ts_faithful e" and "delivered k p m" and "known_competition (CompetitionID m)" and "Status m = Finished"
  shows "row_sound k (match_to_row e m)"
proof -
  have "generateMatchID k (CompetitionID m) (HomeTeamID m) (AwayTeamID m) (ts_value e (Start m)) = Inr (CanonicalID m)"
    using assms(1,2) generateMatchID_date [of "ts_value e (Start m)" "Start m"]
    by (simp add: ts_faithful_def wf_match_def delivered_def)
  with assms(2-4) show ?thesis by (simp add: row_sound_def match_to_row_def delivered_def)
qed

lemma row_ok_defaults [simp]: "row_ok k (column_defaults now r) = row_ok k r"
  by (simp add: row_ok_defs)

lemma overwrite_match_ok:
  "row_ok k new \<Longrightarrow> row_status new = Finished \<Longrightarrow> row_ok k old \<Longrightarrow> row_ok k (overwrite_match now new old)"
  by (simp add: row_ok_defs overwrite_match_def)

lemma upsert_match_inv:
  assumes "upsert_match now r t = Inr (n, t')" and "row_sound k r" and "row_status r = Finished"
    and "\<forall>x \<in> set (matches t). row_ok k x"
  shows "\<forall>x \<in> set (matches t'). row_ok k x"
proof -
  have new: "row_ok k r" using assms(1,2) by (auto simp: row_ok_def upsert_match_def split: if_splits)
  show ?thesis
  proof (cases "list_ex (\<lambda>x. match_key x = match_key r) (matches t)")
    case True
    with assms(1) have "matches t' = map (\<lambda>x. if match_key x = match_key r then overwrite_match now r x else x) (matches t)"
      by (auto simp: upsert_match_def split: if_splits)
    with new assms(3,4) show ?thesis by (auto intro: overwrite_match_ok)
  next
    case False
    with assms(1) have "matches t' = matches t @ [column_defaults now r]"
      by (auto simp: upsert_match_def split: if_splits)
    with new assms(4) show ?thesis by simp
qed
qed

section \<open>The provider keeps it\<close>

lemma tries_bounded_same:
  "match_reconciliation t' = match_reconciliation t \<Longrightarrow> tries_bounded t \<Longrightarrow> tries_bounded t'"
  by (simp add: tries_bounded_def)

lemma Save_inv:
  assumes "ts_faithful e" and "delivered k p m" and "known_competition (CompetitionID m)" and "Status m = Finished"
    and "db_inv k (w_db w)"
  shows "db_inv k (w_db (snd (Save e m w)))"
proof -
  have ok: "row_sound k (match_to_row e m)" "row_status (match_to_row e m) = Finished"
    using match_to_row_ok [OF assms(1-4)] assms(4) by (simp_all add: match_to_row_def)
  have "\<forall>r \<in> set (matches (w_db (snd (Save e m w)))). row_ok k r"
    using db_exec_db [of e "upsert_match (db_now e (w_tick w)) (match_to_row e m)" w] assms(5)
      upsert_match_inv [OF _ ok]
    by (auto simp: Save_def run_statement_def db_inv_def split: sum.splits)
  moreover have "tries_bounded (w_db (snd (Save e m w)))"
    by (rule tries_bounded_same [OF Save_other(1)]) (use assms(5) in \<open>simp add: db_inv_def\<close>)
  ultimately show ?thesis using assms(5) by (simp add: db_inv_def Save_wf)
qed

lemma SaveToReconciliationQueue_inv:
  assumes "db_inv k (w_db w)"
  shows "db_inv k (w_db (snd (SaveToReconciliationQueue e pmid p w)))"
proof -
  have "tries_bounded (w_db (snd (SaveToReconciliationQueue e pmid p w)))"
    using db_exec_db [of e "enqueue_recon (uuid_new e (w_tick w)) pmid p" w] assms
    by (auto simp: SaveToReconciliationQueue_def run_statement_def enqueue_recon_def db_inv_def tries_bounded_def
        RECONCILE_MAX_TRIES_def split: sum.splits if_splits)
  with assms show ?thesis
    by (simp add: db_inv_def SaveToReconciliationQueue_wf SaveToReconciliationQueue_other)
qed

lemma UpdateLastSyncedDate_inv:
  assumes "db_inv k (w_db w)"
  shows "db_inv k (w_db (snd (UpdateLastSyncedDate e c p d w)))"
  using assms tries_bounded_same [OF UpdateLastSyncedDate_other(2) [of e c p d w]]
  by (simp add: db_inv_def UpdateLastSyncedDate_wf UpdateLastSyncedDate_other(1))

lemma Sync_inv:
  assumes "ts_faithful e" and "Sync e provider competition clock w = (r, w')" and "db_inv (keccak e) (w_db w)"
  shows "db_inv (keccak e) (w_db w')"
  by (rule Sync_invariant [where I = "db_inv (keccak e)", OF assms(2,3)])
    (use Save_inv [OF assms(1)] SaveToReconciliationQueue_inv UpdateLastSyncedDate_inv in blast)+

lemma reconcile_entry_inv:
  assumes "ts_faithful e" and "Tries en < RECONCILE_MAX_TRIES" and "snapshot [en] (w_db w)"
    and "db_inv (keccak e) (w_db w)"
  shows "db_inv (keccak e) (w_db (reconcile_entry e en w))"
proof -
  have "\<forall>r \<in> set (matches (w_db (reconcile_entry e en w))). row_ok (keccak e) r"
  proof (cases rule: reconcile_entry_db [where e = e and en = en and w = w])
    case (moved src m now w1)
    have "delivered (keccak e) (GetProviderEntity src) m \<and> known_competition (CompetitionID m)"
      using data_source.by_id_delivered [OF getProvider_source [OF moved(1)], of "EntryProviderMatchID en" w m] moved(2)
      by simp
    then have ok: "row_sound (keccak e) (match_to_row e m)" "row_status (match_to_row e m) = Finished"
      using match_to_row_ok [OF assms(1) _ _ moved(3)] moved(3) by (auto simp: match_to_row_def)
    with moved(4) assms(4) show ?thesis
      unfolding saved_and_removed_def db_inv_def by (auto dest: upsert_match_inv)
  qed (use assms(4) in \<open>simp_all add: db_inv_def\<close>)
  with assms show ?thesis
    by (simp add: db_inv_def reconcile_entry_wf reconcile_entry_tries)
qed

lemma Reconcile_inv:
  assumes "ts_faithful e" and "Reconcile e w = Some (r, w')" and "db_inv (keccak e) (w_db w)"
  shows "db_inv (keccak e) (w_db w')"
  using assms(2) _ assms(3) reconcile_entry_inv [OF assms(1)]
  by (rule Reconcile_pending_invariant) (use assms(3) in \<open>simp add: db_inv_def\<close>)

section \<open>The signer and the relayer keep it\<close>

lemma list_all2_ball:
  "list_all2 R xs ys \<Longrightarrow> \<forall>x \<in> set xs. P x \<Longrightarrow> (\<And>x y. x \<in> set xs \<Longrightarrow> R x y \<Longrightarrow> P x \<Longrightarrow> Q y) \<Longrightarrow> \<forall>y \<in> set ys. Q y"
  by (induction rule: list_all2_induct) auto

lemma sign_row_ok: "row_ok k r \<Longrightarrow> row_ok k (sign_row e key c r)"
  by (auto simp: sign_row_def row_ok_defs int4_def Signed_def split: option.split sum.split)

lemma signer_Run_inv:
  assumes "faithful_order e" and "signer_Run e (Some db) (no_globals, w) = (code, g', w')" and "db_inv k (w_db w)"
  shows "db_inv k (w_db w')"
  using assms(2)
proof (cases rule: signer_Run_cases)
  case idle
  with assms(3) show ?thesis by simp
next
  case (loop ms w1 key c)
  have wf: "wf_tables (w_db w)" using assms(3) by (simp add: db_inv_def)
  note rows = signer_Run_rows [OF assms(2,1) wf loop(2,3)]
  have "\<forall>r \<in> set (matches (w_db w')). row_ok k r"
    by (rule list_all2_ball [where P = "row_ok k" and Q = "row_ok k", OF rows(1)]) (use assms(3) in \<open>auto simp: db_inv_def intro: sign_row_ok\<close>)
  moreover have "tries_bounded (w_db w')"
    by (rule tries_bounded_same [OF rows(3)]) (use assms(3) in \<open>simp add: db_inv_def\<close>)
  ultimately show ?thesis using signer_Run_wf [OF assms(2,1) wf] by (simp add: db_inv_def)
qed

text \<open>The rows the relayer can mark: those with a signature and the status \<open>Signed\<close>.\<close>

lemma FindSignedMatches_ok:
  assumes "FindSignedMatches e (Some db) w = (Inr ms, w1)" and "faithful_order e"
  shows "w_db w1 = w_db w"
    and "m \<in> set ms \<Longrightarrow> \<exists>r \<in> set (matches (w_db w)). scan_signed r = Some m \<and> row_status r = SIGNED_STATUS"
proof -
  define rows where "rows = heap_order e (w_tick w) (filter (\<lambda>r. row_status r = SIGNED_STATUS) (matches (w_db w)))"
  from assms(1) have ms: "ms = List.map_filter scan_signed rows" and db: "w_db w1 = w_db w"
    by (auto simp: FindSignedMatches_def db_query_def rows_def split: if_splits)
  show "w_db w1 = w_db w" by (fact db)
  have "mset rows = mset (filter (\<lambda>r. row_status r = SIGNED_STATUS) (matches (w_db w)))"
    using assms(2) by (simp add: faithful_order_def rows_def)
  from arg_cong [OF this, of set_mset] have set_rows: "set rows = {r \<in> set (matches (w_db w)). row_status r = SIGNED_STATUS}"
    by simp
  have "m \<in> set (List.map_filter scan_signed xs) \<Longrightarrow> \<exists>r \<in> set xs. scan_signed r = Some m" for xs
    by (induction xs) (auto simp: List.map_filter_simps split: option.splits)
  then show "m \<in> set ms \<Longrightarrow> \<exists>r \<in> set (matches (w_db w)). scan_signed r = Some m \<and> row_status r = SIGNED_STATUS"
    using set_rows unfolding ms by blast
qed

lemma scan_signed_id: "scan_signed r = Some m \<Longrightarrow> rm_ID m = row_id r \<and> row_signature r \<noteq> None"
  by (auto simp: scan_signed_def split: option.splits sum.splits)

text \<open>
  The broadcasts of a relayer run, and the run as a relation on rows: a row is left alone, or it was
  signed, one of the broadcasts was of its own match and was accepted, and only its status changes.
\<close>

definition relayer_trace ::
  "('abi, 'z) relayer_env_scheme \<Rightarrow> 'db sql_driver \<Rightarrow> 'c ChainClient \<Rightarrow> 'abi BroadcasterConfig \<Rightarrow> 'c \<Rightarrow> world \<Rightarrow>
   (RelayerMatch \<times> 'c \<times> world) list" where
  "relayer_trace e drv client cfg c w =
     (case relayer_InitDB drv (r_getenv e) of
        Inl _ \<Rightarrow> []
      | Inr (db, _) \<Rightarrow>
          (case FindSignedMatches e (Some db) w of
             (Inl _, _) \<Rightarrow> []
           | (Inr ms, w1) \<Rightarrow> broadcast_trace e client cfg (Some db) ms c w1))"

definition relay_row ::
  "('abi, 'z) relayer_env_scheme \<Rightarrow> 'c ChainClient \<Rightarrow> 'abi BroadcasterConfig \<Rightarrow>
   (RelayerMatch \<times> 'c \<times> world) list \<Rightarrow> match_row \<Rightarrow> match_row \<Rightarrow> bool" where
  "relay_row e client cfg vs r r' \<longleftrightarrow>
     r' = r \<or>
     row_status r = Signed \<and> r' = r\<lparr>row_status := BROADCASTED_STATUS\<rparr> \<and>
       (\<exists>v \<in> set vs. scan_signed r = Some (fst v) \<and> accepted e client cfg v)"

text \<open>The runs that get to the loop, and the others, which leave everything alone.\<close>

lemma relayer_Run_cases:
  assumes "relayer_Run e (drv :: 'db sql_driver) client cfg c w = Some (code, c', w')"
  obtains (idle) "w_db w' = w_db w" "code \<in> {RELAYER_DB_INIT_ERROR, FIND_MATCHES_ERROR}" "relayer_trace e drv client cfg c w = []"
  | (loop) db :: 'db and ms w1 n where "FindSignedMatches e (Some db) w = (Inr ms, w1)" "w_db w1 = w_db w"
      "BroadcastMatches e client cfg (Some db) ms c w1 = Some (n, c', w')"
      "code = (if 0 < n then BROADCAST_FAILURE else RELAYER_SUCCESS)"
      "relayer_trace e drv client cfg c w = broadcast_trace e client cfg (Some db) ms c w1"
proof (cases "relayer_InitDB drv (r_getenv e)")
  case (Inl er)
  with assms idle show ?thesis by (simp add: relayer_Run_def relayer_trace_def)
next
  case (Inr dbc)
  obtain db sc where dbc: "dbc = (db, sc)" by (cases dbc)
  obtain r w1 where f: "FindSignedMatches e (Some db) w = (r, w1)" by (cases "FindSignedMatches e (Some db) w")
  have w1: "w_db w1 = w_db w" using f by (auto simp: FindSignedMatches_def db_query_def split: if_splits)
  show ?thesis
  proof (cases r)
    case (Inl er)
    with assms Inr dbc f w1 idle show ?thesis by (simp add: relayer_Run_def relayer_trace_def)
  next
    case r: (Inr ms)
    from assms Inr dbc f r obtain n where "BroadcastMatches e client cfg (Some db) ms c w1 = Some (n, c', w')"
      "code = (if 0 < n then BROADCAST_FAILURE else RELAYER_SUCCESS)"
      by (auto simp: relayer_Run_def split: option.splits)
    with loop [OF f [unfolded r] w1] Inr dbc f r show ?thesis by (simp add: relayer_trace_def)
  qed
qed

lemma relayer_Run_rows:
  assumes "relayer_Run e drv client cfg c w = Some (code, c', w')" and "faithful_order e" and "wf_tables (w_db w)"
  shows "list_all2 (relay_row e client cfg (relayer_trace e drv client cfg c w)) (matches (w_db w)) (matches (w_db w'))"
    and "sync_state (w_db w') = sync_state (w_db w)"
    and "match_reconciliation (w_db w') = match_reconciliation (w_db w)"
proof -
  let ?vs = "relayer_trace e drv client cfg c w"
  have "list_all2 (relay_row e client cfg ?vs) (matches (w_db w)) (matches (w_db w')) \<and>
    sync_state (w_db w') = sync_state (w_db w) \<and> match_reconciliation (w_db w') = match_reconciliation (w_db w)"
    using assms(1)
  proof (cases rule: relayer_Run_cases)
    case idle
    then show ?thesis by (simp add: list_all2_same relay_row_def)
  next
    case (loop db ms w1 n)
    have "list_all2 (row_broadcasted e client cfg ?vs) (matches (w_db w)) (matches (w_db w1))"
      unfolding loop(2) by (rule row_broadcasted_self)
    note rows = BroadcastMatches_rows [OF loop(3) _ this]
    have step: "relay_row e client cfg ?vs x y"
      if x: "x \<in> set (matches (w_db w))" and xy: "row_broadcasted e client cfg ?vs x y" for x y
    proof (cases "y = x")
      case False
      with xy obtain v where v: "v \<in> set ?vs" "rm_ID (fst v) = row_id x" "accepted e client cfg v"
        "y = x\<lparr>row_status := BROADCASTED_STATUS\<rparr>" by (auto simp: row_broadcasted_def)
      have "map fst ?vs = ms" unfolding loop(5) using BroadcastMatches_count [OF loop(3)] by simp
      with v(1) have "fst v \<in> set ms" by auto
      from FindSignedMatches_ok(2) [OF loop(1) assms(2) this] obtain z where z: "z \<in> set (matches (w_db w))"
        "scan_signed z = Some (fst v)" "row_status z = SIGNED_STATUS" by blast
      have "row_id z = row_id x" using scan_signed_id [OF z(2)] v(2) by simp
      moreover have "inj_on row_id (set (matches (w_db w)))" using assms(3) by (simp add: wf_tables_def distinct_map)
      ultimately have "z = x" using z(1) x by (simp add: inj_on_def)
      with z v show ?thesis by (auto simp: relay_row_def SIGNED_STATUS_def Signed_def)
    qed (simp add: relay_row_def)
    have "list_all2 (relay_row e client cfg ?vs) (matches (w_db w)) (matches (w_db w'))"
      using rows step loop(5) by (auto simp: list_all2_conv_all_nth)
    with rows loop(2,5) show ?thesis by simp
  qed
  then show "list_all2 (relay_row e client cfg ?vs) (matches (w_db w)) (matches (w_db w'))"
    "sync_state (w_db w') = sync_state (w_db w)" "match_reconciliation (w_db w') = match_reconciliation (w_db w)"
    by simp_all
qed

lemma relay_row_keys: "relay_row e client cfg vs r r' \<Longrightarrow> row_id r' = row_id r \<and> match_key r' = match_key r"
  by (auto simp: relay_row_def)

lemma relay_row_ok: "relay_row e client cfg vs r r' \<Longrightarrow> row_ok k r \<Longrightarrow> row_ok k r'"
  unfolding relay_row_def
  by (elim disjE conjE exE bexE) (simp_all add: row_ok_defs int4_def BROADCASTED_STATUS_def scan_signed_id)

lemma relayer_Run_inv:
  assumes "faithful_order e" and "relayer_Run e drv client cfg c w = Some (code, c', w')" and "db_inv k (w_db w)"
  shows "db_inv k (w_db w')"
proof -
  have wf: "wf_tables (w_db w)" using assms(3) by (simp add: db_inv_def)
  note rows = relayer_Run_rows [OF assms(2,1) wf]
  have "\<forall>r \<in> set (matches (w_db w')). row_ok k r"
    by (rule list_all2_ball [where P = "row_ok k" and Q = "row_ok k", OF rows(1)]) (use assms(3) in \<open>auto simp: db_inv_def intro: relay_row_ok\<close>)
  moreover have "map row_id (matches (w_db w')) = map row_id (matches (w_db w))"
    by (rule list_all2_map_eq [OF rows(1)]) (simp add: relay_row_keys)
  moreover have "map match_key (matches (w_db w')) = map match_key (matches (w_db w))"
    by (rule list_all2_map_eq [OF rows(1)]) (simp add: relay_row_keys)
  moreover have "tries_bounded (w_db w')"
    by (rule tries_bounded_same [OF rows(3)]) (use assms(3) in \<open>simp add: db_inv_def\<close>)
  ultimately show ?thesis using wf rows(2,3) by (simp add: db_inv_def wf_tables_def)
qed

section \<open>Runs in any order\<close>

text \<open>
  One run of one of the programs, from the tables it finds to the tables it leaves. The hash, the
  chain client and the relayer's configuration are the same for all runs; everything else may differ
  from run to run.
\<close>

inductive system_step ::
  "(byte list \<Rightarrow> byte list) \<Rightarrow> 'c ChainClient \<Rightarrow> 'abi BroadcasterConfig \<Rightarrow> tables \<Rightarrow> tables \<Rightarrow> bool"
  for k client cfg where
  sync_run: "keccak e = k \<Longrightarrow> ts_faithful (e :: provider_env) \<Longrightarrow> Sync e provider competition clock w = (r, w') \<Longrightarrow>
    system_step k client cfg (w_db w) (w_db w')"
| reconcile_run: "keccak e = k \<Longrightarrow> ts_faithful (e :: provider_env) \<Longrightarrow> Reconcile e w = Some (r, w') \<Longrightarrow>
    system_step k client cfg (w_db w) (w_db w')"
| sign_run: "faithful_order (s :: signer_env) \<Longrightarrow> signer_Run s (Some ()) (no_globals, w) = (code, g, w') \<Longrightarrow>
    system_step k client cfg (w_db w) (w_db w')"
| relay_run: "faithful_order (rel :: 'abi relayer_env) \<Longrightarrow>
    relayer_Run rel (drv :: unit sql_driver) client cfg c w = Some (code, c', w') \<Longrightarrow>
    system_step k client cfg (w_db w) (w_db w')"

inductive_cases system_stepE: "system_step k client cfg t t'"

lemma system_step_inv:
  assumes "system_step k client cfg t t'" and "db_inv k t"
  shows "db_inv k t'"
  using assms
proof (cases rule: system_step.cases)
  case (sync_run e provider competition clock w r w')
  with assms(2) Sync_inv [of e provider competition clock w r w'] show ?thesis by simp
next
  case (reconcile_run e w r w')
  with assms(2) Reconcile_inv [of e w r w'] show ?thesis by simp
next
  case (sign_run s w code g w')
  with assms(2) signer_Run_inv [of s "()" w code g w' k] show ?thesis by simp
next
  case (relay_run rel drv c w code c' w')
  with assms(2) relayer_Run_inv [of rel drv client cfg c w code c' w' k] show ?thesis by simp
qed

definition reachable :: "(byte list \<Rightarrow> byte list) \<Rightarrow> 'c ChainClient \<Rightarrow> 'abi BroadcasterConfig \<Rightarrow> tables \<Rightarrow> bool" where
  "reachable k client cfg t \<longleftrightarrow> (system_step k client cfg)\<^sup>*\<^sup>* empty_tables t"

lemma reachable_inv: "reachable k client cfg t \<Longrightarrow> db_inv k t"
  unfolding reachable_def
proof (induction rule: rtranclp_induct)
  case base
  show ?case by (simp add: db_inv_def wf_empty_tables tries_bounded_def) (simp add: empty_tables_def)
next
  case (step t t')
  from step(2,3) show ?case by (rule system_step_inv)
qed

section \<open>What the contract receives\<close>

text \<open>
  \<open>common.HexToHash\<close> of 64 hex digits is the 32 bytes they write.
\<close>

definition hash_codec :: "('abi, 'z) relayer_env_scheme \<Rightarrow> bool" where
  "hash_codec e \<longleftrightarrow> (\<forall>bs. length bs = 32 \<longrightarrow> hex_to_hash e (hex_encode bs) = bs)"

text \<open>
  For a stored row, the match id of the calldata is the hash of the other identifying arguments of
  the same call, packed the way the contract packs them.
\<close>

lemma submit_args_identity:
  assumes "row_ok k r" and "scan_signed r = Some m" and "hash_codec e" and "\<And>bs. length (k bs) = 32"
    and "year_of (row_start r) \<le> 9999"
  shows "submit_args e m =
    [AbiBytes32 (k (packed_match (rm_CompetitionID m) (rm_HomeTeamID m) (rm_AwayTeamID m) (rm_Start m))),
     AbiUint32 (rm_CompetitionID m), AbiUint32 (rm_HomeTeamID m), AbiUint32 (rm_AwayTeamID m),
     AbiUint8 (ucast (rm_HomeTeamScore m)), AbiUint8 (ucast (rm_AwayTeamScore m)),
     AbiUint32 (rm_Start m), AbiBytes (rm_Signature m)]"
proof -
  have id: "generateMatchID k (rm_CompetitionID m) (rm_HomeTeamID m) (rm_AwayTeamID m) (row_start r) = Inr (rm_CanonicalID m)"
    and start: "rm_Start m = word_of_int (date_number (row_start r))"
    using assms(1,2) by (auto simp: row_ok_def row_sound_def scan_signed_def date_number_def compact_value_def
        split: option.splits sum.splits)
  have "0 \<le> year_of (row_start r)"
  proof (rule ccontr)
    assume "\<not> 0 \<le> year_of (row_start r)"
    then have "year_of (row_start r) < 0" by simp
    from generateMatchID_negative_year [OF this, of k "rm_CompetitionID m" "rm_HomeTeamID m" "rm_AwayTeamID m"] id
    show False by simp
  qed
  from generateMatchID_ok [OF this assms(5), of k "rm_CompetitionID m" "rm_HomeTeamID m" "rm_AwayTeamID m"] id start
  have "rm_CanonicalID m = hex_encode (k (packed_match (rm_CompetitionID m) (rm_HomeTeamID m) (rm_AwayTeamID m) (rm_Start m)))"
    by simp
  then show ?thesis using assms(3,4) by (simp add: submit_args_def hash_codec_def)
qed

section \<open>Properties\<close>

text \<open>
  C4: Whatever runs of the provider, the signer and the relayer have worked on the initially empty
  tables, in any order and with any failures, the constraints of the schema hold, every row of
  \<open>matches\<close> carries the identity of its own competition, teams and day, numbers the provider
  knows, has a final status, has a signature once it is past Finished and scores that are not negative, and no queue
  entry has more than five tries.
\<close>

theorem system_invariant:
  assumes "reachable k client cfg t"
  shows "wf_tables t \<and> (\<forall>r \<in> set (matches t). row_ok k r) \<and>
    (\<forall>q \<in> set (match_reconciliation t). rr_tries q \<le> 5)"
  using reachable_inv [OF assms] by (simp add: db_inv_def tries_bounded_def RECONCILE_MAX_TRIES_def)

lemma sample_env_faithful: "ts_faithful sample_env"
  by (simp add: ts_faithful_def sample_env_def quiet_env_def)

lemma sample_sync_step:
  "system_step (keccak sample_env) mock_client sample_cfg empty_tables
     (w_db (snd (Sync sample_env ''football_org'' ''la_liga'' (SystemClock sample_env) (start_world empty_tables))))"
proof -
  obtain r w' where run: "Sync sample_env ''football_org'' ''la_liga'' (SystemClock sample_env) (start_world empty_tables) = (r, w')"
    by (cases "Sync sample_env ''football_org'' ''la_liga'' (SystemClock sample_env) (start_world empty_tables)")
  from sync_run [OF refl sample_env_faithful this] show ?thesis unfolding run by (simp add: start_world_def)
qed

theorem system_invariant_witness:
  "wf_tables (w_db (snd (Sync sample_env ''football_org'' ''la_liga'' (SystemClock sample_env) (start_world empty_tables)))) \<and>
   list_all (row_ok (keccak sample_env))
     (matches (w_db (snd (Sync sample_env ''football_org'' ''la_liga'' (SystemClock sample_env) (start_world empty_tables)))))"
proof -
  let ?t = "w_db (snd (Sync sample_env ''football_org'' ''la_liga'' (SystemClock sample_env) (start_world empty_tables)))"
  have "reachable (keccak sample_env) mock_client sample_cfg ?t"
    unfolding reachable_def using sample_sync_step by (rule r_into_rtranclp)
  from system_invariant [OF this] show ?thesis by (simp add: list_all_iff)
qed

lemma ucast_score: "(ucast (word_of_int i :: int32) :: uint8) = word_of_int i"
  by (rule bit_word_eqI) (simp add: bit_simps)

text \<open>
  C8: For every row any sequence of runs can leave, the arguments of \<open>submitMatch\<close> are
  consistent in themselves: the match id is the Keccak hash of the competition, team and date
  arguments of the same call, packed as four big-endian 32-bit words, and the scores are those of
  the row, reduced to eight bits.
\<close>

theorem contract_arguments:
  assumes "reachable k client cfg t" and "r \<in> set (matches t)" and "scan_signed r = Some m"
    and "\<And>bs. length bs = 32 \<Longrightarrow> hex_to_hash e (hex_encode bs) = bs" and "\<And>bs. length (k bs) = 32"
    and "year_of (row_start r) \<le> 9999"
  shows "submit_args e m =
    [AbiBytes32 (k (uint32ToBytes (rm_CompetitionID m) @ uint32ToBytes (rm_HomeTeamID m) @
       uint32ToBytes (rm_AwayTeamID m) @ uint32ToBytes (rm_Start m))),
     AbiUint32 (rm_CompetitionID m), AbiUint32 (rm_HomeTeamID m), AbiUint32 (rm_AwayTeamID m),
     AbiUint8 (word_of_int (row_home_team_score r)), AbiUint8 (word_of_int (row_away_team_score r)),
     AbiUint32 (rm_Start m), AbiBytes (rm_Signature m)]"
proof -
  have ok: "row_ok k r" using reachable_inv [OF assms(1)] assms(2) by (simp add: db_inv_def)
  have codec: "hash_codec e" unfolding hash_codec_def using assms(4) by blast
  have "ucast (rm_HomeTeamScore m) = (word_of_int (row_home_team_score r) :: uint8)"
    "ucast (rm_AwayTeamScore m) = (word_of_int (row_away_team_score r) :: uint8)"
    using assms(3) by (auto simp: scan_signed_def ucast_score split: option.splits sum.splits)
  with submit_args_identity [OF ok assms(3) codec assms(5,6)] show ?thesis by (simp add: packed_match_def)
qed

lemma chain_id_digits:
  assumes "parse_uint 64 s = Inr n" and "parse_int 64 s = Inr i"
  shows "i = int n \<and> n < 2 ^ 63"
proof -
  obtain c cs where s: "s = c # cs" using assms(1) by (cases s) (simp_all add: parse_uint_def)
  have "digit_val c \<noteq> None" using assms(1) by (auto simp: s parse_uint_def split: option.splits)
  then have "c \<noteq> CHR ''+'' \<and> c \<noteq> CHR ''-''" by (auto simp: digit_val_def)
  with assms show ?thesis by (auto simp: s parse_int_def Let_def split: if_splits)
qed

text \<open>
  C34: When the signer and the relayer accept the same CHAIN_ID, the chain id of the signing domain
  and that of the transaction are the same non-negative number.
\<close>

theorem chain_id_agreement:
  assumes "LoadChainId env = Inr c" and "BuildBroadcasterConfig e vars = Inr cfg" and "ChainID vars = env ''CHAIN_ID''"
  shows "DomainChainId (oracle_domain env c) = BcChainID cfg \<and> 0 \<le> BcChainID cfg"
proof -
  obtain n where n: "parse_uint 64 (env ''CHAIN_ID'') = Inr n" "c = word_of_nat n"
    using assms(1) by (auto simp: LoadChainId_def Let_def split: if_splits sum.splits)
  obtain i where i: "parse_int 64 (env ''CHAIN_ID'') = Inr i" "BcChainID cfg = i"
    using assms(2,3) by (auto simp: BuildBroadcasterConfig_def split: sum.splits)
  from chain_id_digits [OF n(1) i(1)] have "i = int n" "n < 2 ^ 63" by simp_all
  then have "sint (word_of_nat n :: 64 word) = int n"
    by (simp add: signed_of_nat signed_take_bit_int_eq_self)
  with n i \<open>i = int n\<close> show ?thesis by (simp add: oracle_domain_def)
qed

theorem chain_id_agreement_witness:
  "DomainChainId (oracle_domain (\<lambda>_. ''11155111'') 11155111) = 11155111"
proof -
  let ?vars = "\<lparr>RPCURL = ''u'', ContractAddress = [1], PrivateKey = \<lparr>key_bytes = [], key_on_s256 = True\<rparr>,
    ChainID = ''11155111''\<rparr>"
  have 1: "LoadChainId (\<lambda>_. ''11155111'') = Inr 11155111" by code_simp
  have "is_ok (BuildBroadcasterConfig quiet_relayer ?vars) \<and>
    BcChainID (projr (BuildBroadcasterConfig quiet_relayer ?vars)) = 11155111" by code_simp
  then obtain cfg where "BuildBroadcasterConfig quiet_relayer ?vars = Inr cfg" "BcChainID cfg = 11155111"
    by (auto simp: is_ok_iff)
  with chain_id_agreement [OF 1, of quiet_relayer ?vars cfg] show ?thesis by simp
qed

text \<open>
  A run of the relayer changes a row in one way only: a signed row becomes broadcasted, only its
  status changes, and one of the broadcasts of the run was of that row's own match and was confirmed
  or answered with the already-submitted error. Nothing else is touched.
\<close>

theorem relayer_rows:
  assumes "relayer_Run e drv client cfg c w = Some (code, c', w')" and "\<And>n rows. mset (heap_order e n rows) = mset rows"
    and "wf_tables (w_db w)"
  shows "list_all2 (\<lambda>r r'. r' = r \<or>
      row_status r = 4 \<and> r' = r\<lparr>row_status := 5\<rparr> \<and>
      (\<exists>v \<in> set (relayer_trace e drv client cfg c w). scan_signed r = Some (fst v) \<and> accepted e client cfg v))
    (matches (w_db w)) (matches (w_db w')) \<and>
    sync_state (w_db w') = sync_state (w_db w) \<and> match_reconciliation (w_db w') = match_reconciliation (w_db w)"
proof -
  have "faithful_order e" unfolding faithful_order_def using assms(2) by blast
  note rows = relayer_Run_rows [OF assms(1) this assms(3)]
  from rows(1) have "list_all2 (\<lambda>r r'. r' = r \<or> row_status r = 4 \<and> r' = r\<lparr>row_status := 5\<rparr> \<and>
      (\<exists>v \<in> set (relayer_trace e drv client cfg c w). scan_signed r = Some (fst v) \<and> accepted e client cfg v))
    (matches (w_db w)) (matches (w_db w'))"
    by (rule list_all2_mono) (auto simp: relay_row_def Signed_def BROADCASTED_STATUS_def)
  with rows show ?thesis by simp
qed

definition signed_row :: match_row where
  "signed_row = finished_row\<lparr>row_status := 4, row_signature := Some ''00''\<rparr>"

definition signed_world :: world where
  "signed_world = start_world (empty_tables\<lparr>matches := [signed_row]\<rparr>)"

lemma FindSignedMatches_all:
  assumes "FindSignedMatches e (Some db) w = (Inr ms, w1)" and "faithful_order e"
    and "r \<in> set (matches (w_db w))" and "row_status r = SIGNED_STATUS" and "scan_signed r = Some m"
  shows "m \<in> set ms"
proof -
  define rows where "rows = heap_order e (w_tick w) (filter (\<lambda>r. row_status r = SIGNED_STATUS) (matches (w_db w)))"
  from assms(1) have ms: "ms = List.map_filter scan_signed rows"
    by (auto simp: FindSignedMatches_def db_query_def rows_def split: if_splits)
  have "mset rows = mset (filter (\<lambda>r. row_status r = SIGNED_STATUS) (matches (w_db w)))"
    using assms(2) by (simp add: faithful_order_def rows_def)
  from arg_cong [OF this, of set_mset] have "r \<in> set rows" using assms(3,4) by auto
  then show ?thesis using assms(5) unfolding ms
    by (induction rows) (auto simp: List.map_filter_simps split: option.split)
qed

lemma relayer_left_signed:
  assumes "relayer_Run e drv client cfg c w = Some (0, c', w')" and "\<And>n. db_fault e n = Healthy"
    and "faithful_order e" and "r \<in> set (matches (w_db w'))" and "row_status r = SIGNED_STATUS"
  shows "scan_signed r = None"
  using assms(1)
proof (cases rule: relayer_Run_cases)
  case idle
  then show ?thesis by (simp add: go_const)
next
  case (loop db ms w1 n)
  then have n: "n = 0" by (simp add: go_const split: if_splits)
  from BroadcastMatches_all [OF assms(2) loop(3) [unfolded n]] loop(2)
  have "matches (w_db w') = map (\<lambda>r. if row_id r \<in> rm_ID ` set ms then r\<lparr>row_status := BROADCASTED_STATUS\<rparr> else r)
      (matches (w_db w))" by simp
  with assms(4,5) have r: "r \<in> set (matches (w_db w))" "row_id r \<notin> rm_ID ` set ms"
    by (auto simp: SIGNED_STATUS_def BROADCASTED_STATUS_def split: if_splits)
  show ?thesis
  proof (rule ccontr)
    assume "scan_signed r \<noteq> None"
    then obtain m where m: "scan_signed r = Some m" by blast
    have "m \<in> set ms"
      by (rule FindSignedMatches_all [OF loop(1) assms(3) r(1) _ m]) (rule assms(5))
    with r(2) scan_signed_id [OF m] show False by (metis imageI)
  qed
qed

text \<open>
  C23: When the relayer exits with success and the database was well, no signed row is left behind,
  except rows whose signature is not hex and that the relayer skips.
\<close>

theorem relayer_complete:
  assumes "relayer_Run e drv client cfg c w = Some (0, c', w')" and "\<And>n. db_fault e n = Healthy"
    and "\<And>n rows. mset (heap_order e n rows) = mset rows" and "r \<in> set (matches (w_db w'))" and "row_status r = 4"
  shows "scan_signed r = None"
proof -
  have "faithful_order e" unfolding faithful_order_def using assms(3) by blast
  from relayer_left_signed [OF assms(1,2) this assms(4)] assms(5) show ?thesis by (simp add: SIGNED_STATUS_def)
qed

definition signed_run :: "(int \<times> MockChainClient \<times> world) option" where
  "signed_run = relayer_Run quiet_relayer unit_driver mock_client sample_cfg accepting_node signed_world"

lemma signed_run_returns:
  obtains c' w' where "relayer_Run quiet_relayer unit_driver mock_client sample_cfg accepting_node signed_world = Some (0, c', w')"
    "map row_status (matches (w_db w')) = [5]"
proof -
  have "signed_run \<noteq> None \<and> fst (the signed_run) = 0 \<and> map row_status (matches (w_db (snd (snd (the signed_run))))) = [5]"
    by code_simp
  then obtain c' w' where "signed_run = Some (0, c', w')" "map row_status (matches (w_db w')) = [5]"
    by (metis option.collapse prod.collapse)
  then show thesis using that by (simp add: signed_run_def)
qed

theorem relayer_rows_witness:
  "list_all2 (\<lambda>r r'. row_status r = 4 \<and> r' = r\<lparr>row_status := 5\<rparr> \<and>
      (\<exists>v \<in> set (relayer_trace quiet_relayer unit_driver mock_client sample_cfg accepting_node signed_world).
         scan_signed r = Some (fst v) \<and> accepted quiet_relayer mock_client sample_cfg v))
    [signed_row] (matches (w_db (snd (snd (the (relayer_Run quiet_relayer unit_driver mock_client sample_cfg
       accepting_node signed_world))))))"
proof -
  obtain c' w' where run: "relayer_Run quiet_relayer unit_driver mock_client sample_cfg accepting_node signed_world = Some (0, c', w')"
    "map row_status (matches (w_db w')) = [5]" by (rule signed_run_returns)
  have wf: "wf_tables (w_db signed_world)" by code_simp
  have "mset (heap_order quiet_relayer n rows) = mset rows" for n rows by (simp add: quiet_relayer_def)
  note rows = relayer_rows [OF run(1) this wf]
  obtain r' where r': "matches (w_db w') = [r']" "row_status r' = 5" using run(2) by auto
  have "matches (w_db signed_world) = [signed_row]" "row_status signed_row = 4"
    by (simp_all add: signed_world_def start_world_def signed_row_def)
  with rows r' show ?thesis unfolding run(1) by auto
qed

theorem relayer_complete_witness:
  "\<exists>w'. relayer_Run quiet_relayer unit_driver mock_client sample_cfg accepting_node signed_world = Some w' \<and>
     list_all (\<lambda>r. row_status r \<noteq> 4 \<or> scan_signed r = None) (matches (w_db (snd (snd w'))))"
proof -
  obtain c' w' where run: "relayer_Run quiet_relayer unit_driver mock_client sample_cfg accepting_node signed_world = Some (0, c', w')"
    by (rule signed_run_returns)
  have "db_fault quiet_relayer n = Healthy" for n by (simp add: quiet_relayer_def)
  moreover have "mset (heap_order quiet_relayer n rows) = mset rows" for n rows by (simp add: quiet_relayer_def)
  ultimately show ?thesis using relayer_complete [OF run] run by (auto simp: list_all_iff)
qed

definition synced_tables :: tables where
  "synced_tables = w_db (snd (Sync sample_env ''football_org'' ''la_liga'' (SystemClock sample_env) (start_world empty_tables)))"

definition deliverable :: "match_row \<Rightarrow> bool" where
  "deliverable r \<longleftrightarrow> scan_signed (sign_row quiet_signer sample_key 11155111 r) \<noteq> None \<and> year_of (row_start r) \<le> 9999"

lemma synced_tables_row:
  obtains r where "matches synced_tables = [r]" "scan_signed (sign_row quiet_signer sample_key 11155111 r) \<noteq> None"
    "year_of (row_start r) \<le> 9999"
proof -
  have "deliverable synced_row" by code_simp
  then show thesis using that sample_sync(2) by (simp add: deliverable_def synced_tables_def)
qed

lemma synced_reachable: "reachable (keccak sample_env) mock_client sample_cfg synced_tables"
  unfolding reachable_def using sample_sync_step by (simp add: synced_tables_def r_into_rtranclp)

lemma synced_signed_run:
  obtains code g w' where "signer_Run quiet_signer (Some ()) (no_globals, start_world synced_tables) = (code, g, w')"
    "w_db w' = synced_tables\<lparr>matches := map (sign_row quiet_signer sample_key 11155111) (matches synced_tables)\<rparr>"
proof -
  have wf: "wf_tables (w_db (start_world synced_tables))"
    using reachable_inv [OF synced_reachable] by (simp add: db_inv_def start_world_def)
  obtain code g w' where run: "signer_Run quiet_signer (Some ()) (no_globals, start_world synced_tables) = (code, g, w')"
    by (metis prod_cases3)
  show thesis
    by (rule that [OF run])
      (use signer_Run_healthy [OF quiet_signer_simps(3,2) wf quiet_signer_loads run] in \<open>simp add: start_world_def\<close>)
qed

lemma synced_signed_reachable:
  "reachable (keccak sample_env) mock_client sample_cfg
     (synced_tables\<lparr>matches := map (sign_row quiet_signer sample_key 11155111) (matches synced_tables)\<rparr>)"
proof -
  obtain code g w' where run: "signer_Run quiet_signer (Some ()) (no_globals, start_world synced_tables) = (code, g, w')"
    and w': "w_db w' = synced_tables\<lparr>matches := map (sign_row quiet_signer sample_key 11155111) (matches synced_tables)\<rparr>"
    by (rule synced_signed_run)
  have "system_step (keccak sample_env) mock_client sample_cfg synced_tables (w_db w')"
    using sign_run [OF quiet_signer_simps(2) run] by (simp add: start_world_def)
  with synced_reachable w' show ?thesis unfolding reachable_def by (metis rtranclp.rtrancl_into_rtrancl)
qed

theorem contract_arguments_witness:
  "\<exists>r m. scan_signed r = Some m \<and> submit_args quiet_relayer m =
    [AbiBytes32 (keccak sample_env (uint32ToBytes (rm_CompetitionID m) @ uint32ToBytes (rm_HomeTeamID m) @
       uint32ToBytes (rm_AwayTeamID m) @ uint32ToBytes (rm_Start m))),
     AbiUint32 (rm_CompetitionID m), AbiUint32 (rm_HomeTeamID m), AbiUint32 (rm_AwayTeamID m),
     AbiUint8 (word_of_int (row_home_team_score r)), AbiUint8 (word_of_int (row_away_team_score r)),
     AbiUint32 (rm_Start m), AbiBytes (rm_Signature m)]"
proof -
  obtain r m where r: "matches synced_tables = [r]" "scan_signed (sign_row quiet_signer sample_key 11155111 r) = Some m"
    "year_of (row_start r) \<le> 9999" by (rule synced_tables_row) blast
  let ?r = "sign_row quiet_signer sample_key 11155111 r"
  have "row_start ?r = row_start r" by (simp add: sign_row_def split: option.split sum.split)
  moreover have "hex_to_hash quiet_relayer (hex_encode bs) = bs" for bs
    by (simp add: quiet_relayer_def hex_decode_encode)
  moreover have "length (keccak sample_env bs) = 32" for bs by (simp add: sample_env_def quiet_env_def)
  ultimately show ?thesis
    using contract_arguments [OF synced_signed_reachable _ r(2), of quiet_relayer] r by fastforce
qed

lemma sign_row_scans:
  assumes "row_status r = 3" and "sign_row e k c r \<noteq> r"
  shows "row_status (sign_row e k c r) = 4 \<and> scan_signed (sign_row e k c r) \<noteq> None"
proof -
  from assms obtain m s where m: "scan_to_sign r = Some m" "fst (SignMatch e m k c no_globals) = Inr s"
    "sign_row e k c r = r\<lparr>row_signature := Some s, row_status := Signed\<rparr>"
    by (auto simp: sign_row_def SignerFinished_def split: option.splits sum.splits)
  then obtain td where "sign_typed e td k = Inr s"
    by (auto simp: SignMatch_def split: prod.splits)
  then obtain sig where "s = hex_encode sig" by (elim sign_typed_ok) blast
  then show ?thesis by (simp add: m(3) Signed_def scan_signed_def hex_decode_encode)
qed

text \<open>
  C9: From a finished result to the chain: if the database is well, the signer can sign the match of
  a finished row, and the relayer run that follows exits with success, then that row ends as
  broadcasted.
\<close>

theorem pipeline_delivers:
  assumes "\<And>n. db_fault s n = Healthy" and "\<And>d k sig. ecdsa_sign s d k = Inr sig \<Longrightarrow> length sig = 65"
    and "\<And>n rows. mset (heap_order s n rows) = mset rows"
    and "LoadPrivateKey (s_to_ecdsa s) (s_getenv s ''SIGNER_PRIVATE_KEY'') = Inr k"
    and "LoadChainId (s_getenv s) = Inr c"
    and "signer_Run s (Some ()) (no_globals, w) = (code, g', w1)" and "wf_tables (w_db w)"
    and "r \<in> set (matches (w_db w))" and "row_status r = 3" and "sign_row s k c r \<noteq> r"
    and "\<And>n. db_fault e n = Healthy" and "\<And>n rows. mset (heap_order e n rows) = mset rows"
    and "w_db w2 = w_db w1" and "relayer_Run e drv client cfg node w2 = Some (0, node', w3)"
  shows "\<exists>r' \<in> set (matches (w_db w3)). row_id r' = row_id r \<and> row_status r' = 5"
proof -
  have sf: "smooth s" "faithful_order s" "faithful_order e"
    unfolding smooth_def faithful_order_def using assms(1-3,12) by blast+
  have w1: "matches (w_db w2) = map (sign_row s k c) (matches (w_db w))" "wf_tables (w_db w2)"
    using signer_Run_healthy [OF sf(1,2) assms(7,4,5,6)] signer_Run_wf [OF assms(6) sf(2) assms(7)] assms(13)
    by simp_all
  let ?r = "sign_row s k c r"
  note sc = sign_row_scans [OF assms(9,10)]
  have "?r \<in> set (matches (w_db w2))" using w1(1) assms(8) by simp
  then obtain i where "i < length (matches (w_db w2))" "matches (w_db w2) ! i = ?r" by (auto simp: in_set_conv_nth)
  with relayer_Run_rows(1) [OF assms(14) sf(3) w1(2)]
  have rel: "relay_row e client cfg (relayer_trace e drv client cfg node w2) ?r (matches (w_db w3) ! i)"
    and r3: "matches (w_db w3) ! i \<in> set (matches (w_db w3))"
    by (auto simp: list_all2_conv_all_nth)
  have "matches (w_db w3) ! i \<noteq> ?r"
    using relayer_left_signed [OF assms(14,11) sf(3) r3] sc by (auto simp: SIGNED_STATUS_def)
  with rel r3 show ?thesis by (intro bexI [OF _ r3]) (auto simp: relay_row_def BROADCASTED_STATUS_def)
qed

theorem pipeline_delivers_witness:
  "\<exists>w1 r'. w1 = snd (snd (signer_Run quiet_signer (Some ()) (no_globals, finished_world))) \<and>
     r' \<in> set (matches (w_db (snd (snd (the (relayer_Run quiet_relayer unit_driver mock_client sample_cfg accepting_node
       (start_world (w_db w1)))))))) \<and> row_id r' = 7 \<and> row_status r' = 5"
proof -
  obtain code g w1 where run: "signer_Run quiet_signer (Some ()) (no_globals, finished_world) = (code, g, w1)"
    by (metis prod_cases3)
  let ?rel = "relayer_Run quiet_relayer unit_driver mock_client sample_cfg accepting_node (start_world (w_db w1))"
  have "w_db w1 = (w_db finished_world)\<lparr>matches := map (sign_row quiet_signer sample_key 11155111) (matches (w_db finished_world))\<rparr>"
    using signer_Run_healthy [OF quiet_signer_simps(3,2) finished_world_wf quiet_signer_loads run] by simp
  moreover have "sign_row quiet_signer sample_key 11155111 finished_row =
      finished_row\<lparr>row_signature := Some (hex_encode (replicate 64 0 @ [27])), row_status := 4\<rparr>" by code_simp
  ultimately have db: "w_db w1 = empty_tables\<lparr>matches :=
      [finished_row\<lparr>row_signature := Some (hex_encode (replicate 64 0 @ [27])), row_status := 4\<rparr>]\<rparr>"
    by (simp add: finished_world_def)
  have "fst (the (relayer_Run quiet_relayer unit_driver mock_client sample_cfg accepting_node (start_world
      (empty_tables\<lparr>matches := [finished_row\<lparr>row_signature := Some (hex_encode (replicate 64 0 @ [27])), row_status := 4\<rparr>]\<rparr>)))) = 0"
    by code_simp
  moreover have "\<exists>code c' w'. ?rel = Some (code, c', w')"
    by (rule relayer_returns) (auto simp: quiet_relayer_def)
  ultimately obtain c' w3 where w3: "?rel = Some (0, c', w3)" by (auto simp: db)
  have "\<exists>r' \<in> set (matches (w_db w3)). row_id r' = row_id finished_row \<and> row_status r' = 5"
  proof (rule pipeline_delivers [OF _ _ _ quiet_signer_loads run finished_world_wf _ _ _ _ _ _ w3])
    show "sign_row quiet_signer sample_key 11155111 finished_row \<noteq> finished_row" by code_simp
  qed (auto simp: quiet_signer_def quiet_relayer_def finished_world_def finished_row_def start_world_def)
  then show ?thesis by (auto simp: run w3 finished_row_def)
qed

end
