(* ===== verification/Registries.thy ===== *)
theory Registries
  imports Entity
begin

text \<open>
  The two registries of the oracle (\<open>src/oracle/src\<close>: \<open>CompetitionRegistry.sol\<close> and
  \<open>TeamRegistry.sol\<close>) and the data the deployment script fills them with
  (\<open>src/oracle/script/data\<close>). A Solidity mapping is a total function that is empty by default, a
  revert is an error value that leaves no new state, and \<open>counter++\<close> reverts at the largest value.
  The caller check of OpenZeppelin's \<open>onlyOwner\<close> is the argument \<open>is_owner\<close>.
\<close>

section \<open>Errors\<close>

datatype registry_error =
    TooManyCompetitions uint8
  | InvalidCompetitionName
  | TooManyTeams nat
  | InvalidTeamName
  | NotOwner
  | CounterOverflow

definition checked_inc :: "uint32 \<Rightarrow> (registry_error, uint32) result" where
  "checked_inc n = (if n = - 1 then Inl CounterOverflow else Inr (n + 1))"

text \<open>The events \<open>CompetitionAdded\<close> and \<open>TeamAdded\<close>: the id and the name it got.\<close>

type_synonym name_event = "uint32 \<times> string"

section \<open>CompetitionRegistry\<close>

record CompetitionRegistry =
  competitionIdCounter :: uint32
  competitions :: "uint32 \<Rightarrow> string"
  competition_events :: "name_event list"

definition MAX_COMPETITIONS_PER_BATCH :: nat where "MAX_COMPETITIONS_PER_BATCH = 200"

definition no_competitions :: CompetitionRegistry where
  "no_competitions = \<lparr>competitionIdCounter = 0, competitions = (\<lambda>_. []), competition_events = []\<rparr>"

fun register_competitions ::
  "string list \<Rightarrow> uint32 \<Rightarrow> (uint32 \<Rightarrow> string) \<Rightarrow> name_event list \<Rightarrow>
   (registry_error, uint32 \<times> (uint32 \<Rightarrow> string) \<times> name_event list) result" where
  "register_competitions [] counter names evs = Inr (counter, names, evs)"
| "register_competitions (n # ns) counter names evs =
     (if n = [] then Inl InvalidCompetitionName
      else (case checked_inc counter of
              Inl err \<Rightarrow> Inl err
            | Inr counter' \<Rightarrow> register_competitions ns counter' (names(counter' := n)) (evs @ [(counter', n)])))"

definition new_CompetitionRegistry :: "string list \<Rightarrow> (registry_error, CompetitionRegistry) result" where
  "new_CompetitionRegistry competitionNames =
     (if MAX_COMPETITIONS_PER_BATCH < length competitionNames
      then Inl (TooManyCompetitions (word_of_nat (length competitionNames)))
      else (case register_competitions competitionNames (competitionIdCounter no_competitions)
                   (competitions no_competitions) (competition_events no_competitions) of
              Inl err \<Rightarrow> Inl err
            | Inr (counter, names, evs) \<Rightarrow>
                Inr \<lparr>competitionIdCounter = counter, competitions = names, competition_events = evs\<rparr>))"

definition addCompetition ::
  "bool \<Rightarrow> string \<Rightarrow> CompetitionRegistry \<Rightarrow> (registry_error, CompetitionRegistry) result" where
  "addCompetition is_owner competitionName reg =
     (if \<not> is_owner then Inl NotOwner
      else if competitionName = [] then Inl InvalidCompetitionName
      else (case checked_inc (competitionIdCounter reg) of
              Inl err \<Rightarrow> Inl err
            | Inr counter \<Rightarrow>
                Inr (reg\<lparr>competitionIdCounter := counter,
                         competitions := (competitions reg)(counter := competitionName),
                         competition_events := competition_events reg @ [(counter, competitionName)]\<rparr>)))"

section \<open>TeamRegistry\<close>

record TeamRegistry =
  teamIdCounter :: uint32
  teams :: "uint32 \<Rightarrow> string"
  team_events :: "name_event list"

definition MAX_TEAMS_PER_BATCH :: nat where "MAX_TEAMS_PER_BATCH = 200"

definition no_teams :: TeamRegistry where
  "no_teams = \<lparr>teamIdCounter = 0, teams = (\<lambda>_. []), team_events = []\<rparr>"

fun register_teams ::
  "string list \<Rightarrow> uint32 \<Rightarrow> (uint32 \<Rightarrow> string) \<Rightarrow> name_event list \<Rightarrow>
   (registry_error, uint32 \<times> (uint32 \<Rightarrow> string) \<times> name_event list) result" where
  "register_teams [] counter names evs = Inr (counter, names, evs)"
| "register_teams (n # ns) counter names evs =
     (if n = [] then Inl InvalidTeamName
      else (case checked_inc counter of
              Inl err \<Rightarrow> Inl err
            | Inr counter' \<Rightarrow> register_teams ns counter' (names(counter' := n)) (evs @ [(counter', n)])))"

definition add_teams :: "string list \<Rightarrow> TeamRegistry \<Rightarrow> (registry_error, TeamRegistry) result" where
  "add_teams teamNames reg =
     (case register_teams teamNames (teamIdCounter reg) (teams reg) (team_events reg) of
        Inl err \<Rightarrow> Inl err
      | Inr (counter, names, evs) \<Rightarrow> Inr (reg\<lparr>teamIdCounter := counter, teams := names, team_events := evs\<rparr>))"

definition new_TeamRegistry :: "string list \<Rightarrow> (registry_error, TeamRegistry) result" where
  "new_TeamRegistry teamNames =
     (if MAX_TEAMS_PER_BATCH < length teamNames then Inl (TooManyTeams (length teamNames))
      else add_teams teamNames no_teams)"

definition addTeams :: "bool \<Rightarrow> string list \<Rightarrow> TeamRegistry \<Rightarrow> (registry_error, TeamRegistry) result" where
  "addTeams is_owner teamNames reg =
     (if \<not> is_owner then Inl NotOwner
      else if MAX_TEAMS_PER_BATCH < length teamNames then Inl (TooManyTeams (length teamNames))
      else add_teams teamNames reg)"

section \<open>The deployed data\<close>

definition deployed_competition_names :: "string list" where
  "deployed_competition_names =
     [''LaLiga'', ''PremierLeague'', ''Championship'', ''Bundesliga'', ''Ligue1'', ''SerieA'']"

definition deployed_team_names :: "string list" where
  "deployed_team_names =
     [''Alaves'', ''Athletic Club'', ''Atletico Madrid'', ''Barcelona'', ''Celta Vigo'',
      ''Elche'', ''Espanyol'', ''Getafe'', ''Girona'', ''Levante'', ''Mallorca'', ''Osasuna'',
      ''Oviedo'', ''Rayo Vallecano'', ''Real Betis'', ''Real Madrid'', ''Real Sociedad'',
      ''Sevilla'', ''Valencia'', ''Villarreal'', ''Aston Villa'', ''Arsenal'', ''Bournemouth'',
      ''Brentford'', ''Brighton'', ''Burnley'', ''Chelsea'', ''Crystal Palace'', ''Everton'',
      ''Fulham'', ''Leeds'', ''Liverpool'', ''Manchester City'', ''Manchester United'',
      ''Newcastle'', ''Notthingam Forest'', ''Sunderland'', ''Tottenham'', ''West Ham'',
      ''Wolves'', ''Birmingham'', ''Blackburn'', ''BristolCity'', ''Charlton'', ''Coventry'',
      ''Derby'', ''Hull'', ''Ipswich'', ''Leicester'', ''Middlesbrough'', ''Millwall'',
      ''Norwich'', ''OxfordUtd'', ''Portsmouth'', ''Preston'', ''QPR'', ''SheffieldUtd'',
      ''SheffieldWed'', ''Southampton'', ''Stoke'', ''Swansea'', ''Watford'', ''WestBrom'',
      ''Wrexham'', ''Augsburg'', ''Bayer Leverkusen'', ''Bayern Munich'', ''Borussia Dortmund'',
      ''Borussia M'' @ [CHR 0xC3] @ [CHR 0xB6] @ ''nchengladbach'', ''Cologne'',
      ''Eintracht Frankfurt'', ''Freiburg'', ''Hamburg'', ''Heidenheim'', ''Hoffenheim'',
      ''Mainz'', ''RB Leipzig'', ''St. Pauli'', ''Union Berlin'', ''VfB Stuttgart'',
      ''Werder Bremen'', ''Wolfsburg'', ''Auxerre'', ''Angers SCO'', ''AS Monaco'', ''Brest'',
      ''FC Lorient'', ''FC Nantes'', ''FC Metz'', ''Havre AC'', ''Lens'', ''Lille'', ''OGC Nice'',
      ''Olympique Lyonnais'', ''Olympique de Marseille'', ''Paris FC'', ''PSG'', ''Rennes'',
      ''Strasbourg'', ''Toulouse FC'', ''Atalanta'', ''Bolonia'', ''Cagliari'', ''Como'',
      ''Fiorentina'', ''Genoa'', ''Hellas Verona'', ''Inter'', ''Juventus'', ''Lazio'', ''Milan'',
      ''Napoli'', ''Parma'', ''Pisa'', ''Roma'', ''Sassuolo'', ''Torino'', ''U.S. Cremonese'',
      ''Udinese'', ''US Lecce'']"

text \<open>The identifiers of the teams in the provider, with their values.\<close>

definition go_teams :: "(Team \<times> string) list" where
  "go_teams =
     [(Alaves, ''Alaves''), (AthleticClub, ''AthleticClub''),
      (AtleticoMadrid, ''AtleticoMadrid''), (Barcelona, ''Barcelona''),
      (CeltaVigo, ''CeltaVigo''), (Elche, ''Elche''), (Espanyol, ''Espanyol''),
      (Getafe, ''Getafe''), (Girona, ''Girona''), (Levante, ''Levante''),
      (Mallorca, ''Mallorca''), (Osasuna, ''Osasuna''), (Oviedo, ''Oviedo''),
      (RayoVallecano, ''RayoVallecano''), (RealBetis, ''RealBetis''),
      (RealMadrid, ''RealMadrid''), (RealSociedad, ''RealSociedad''), (Sevilla, ''Sevilla''),
      (Valencia, ''Valencia''), (Villarreal, ''Villarreal''), (AstonVilla, ''AstonVilla''),
      (Arsenal, ''Arsenal''), (Bournemouth, ''Bournemouth''), (Brentford, ''Brentford''),
      (Brighton, ''Brighton''), (Burnley, ''Burnley''), (Chelsea, ''Chelsea''),
      (CrystalPalace, ''CrystalPalace''), (Everton, ''Everton''), (Fulham, ''Fulham''),
      (Leeds, ''Leeds''), (Liverpool, ''Liverpool''), (ManchesterCity, ''ManchesterCity''),
      (ManchesterUnited, ''ManchesterUnited''), (Newcastle, ''Newcastle''),
      (NotthingamForest, ''NotthingamForest''), (Sunderland, ''Sunderland''),
      (Tottenham, ''Tottenham''), (WestHam, ''WestHam''), (Wolves, ''Wolves''),
      (Birmingham, ''Birmingham''), (Blackburn, ''Blackburn''), (BristolCity, ''BristolCity''),
      (Charlton, ''Charlton''), (Coventry, ''Coventry''), (Derby, ''Derby''), (Hull, ''Hull''),
      (Ipswich, ''Ipswich''), (Leicester, ''Leicester''), (Middlesbrough, ''Middlesbrough''),
      (Millwall, ''Millwall''), (Norwich, ''Norwich''), (OxfordUtd, ''OxfordUtd''),
      (Portsmouth, ''Portsmouth''), (Preston, ''Preston''), (QPR, ''QPR''),
      (SheffieldUtd, ''SheffieldUtd''), (SheffieldWed, ''SheffieldWed''),
      (Southampton, ''Southampton''), (Stoke, ''Stoke''), (Swansea, ''Swansea''),
      (Watford, ''Watford''), (WestBrom, ''WestBrom''), (Wrexham, ''Wrexham'')]"

definition go_competitions :: "(Competition \<times> string) list" where
  "go_competitions = [(LaLiga, ''LaLiga''), (PremierLeague, ''PremierLeague''), (Championship, ''Championship'')]"

section \<open>The ids of a registry\<close>

text \<open>
  Both registries number their names with the same loop. From its two equations alone: a batch that
  succeeds gives its names, all of them proper, the next free ids in order.
\<close>

locale batch_registry =
  fixes register :: "string list \<Rightarrow> uint32 \<Rightarrow> (uint32 \<Rightarrow> string) \<Rightarrow> name_event list \<Rightarrow>
      (registry_error, uint32 \<times> (uint32 \<Rightarrow> string) \<times> name_event list) result"
    and no_name :: registry_error
  assumes register_nil: "register [] c names evs = Inr (c, names, evs)"
    and register_cons: "register (n # ns) c names evs =
      (if n = [] then Inl no_name
       else (case checked_inc c of
               Inl err \<Rightarrow> Inl err
             | Inr c' \<Rightarrow> register ns c' (names(c' := n)) (evs @ [(c', n)])))"
begin

lemma register_ok:
  assumes "register ns c names evs = Inr (c', names', evs')"
  shows "[] \<notin> set ns \<and> unat c' = unat c + length ns \<and>
    (\<forall>i. names' i = (if unat c < unat i \<and> unat i \<le> unat c' then ns ! (unat i - Suc (unat c)) else names i))"
  using assms
proof (induction ns arbitrary: c names evs)
  case Nil
  then show ?case by (auto simp: register_nil)
next
  case (Cons n ns)
  from Cons.prems have n: "n \<noteq> []" "c \<noteq> - 1" and rest: "register ns (c + 1) (names(c + 1 := n)) (evs @ [(c + 1, n)]) = Inr (c', names', evs')"
    by (auto simp: register_cons checked_inc_def split: if_splits)
  have "1 + c \<noteq> 0" using n(2) by (metis add.commute eq_neg_iff_add_eq_0)
  from unatSuc [OF this] have c: "unat (c + 1) = Suc (unat c)" by (simp add: add.commute)
  note IH = Cons.IH [OF rest, unfolded c]
  have set: "[] \<notin> set ns" and len: "unat c' = Suc (unat c) + length ns"
    and at: "names' i = (if Suc (unat c) < unat i \<and> unat i \<le> unat c' then ns ! (unat i - Suc (Suc (unat c)))
      else (names(c + 1 := n)) i)" for i
    using IH by blast+
  show ?case
  proof (intro conjI allI)
    show "[] \<notin> set (n # ns)" using set n(1) by simp
    show "unat c' = unat c + length (n # ns)" using len by simp
    fix i
    show "names' i = (if unat c < unat i \<and> unat i \<le> unat c' then (n # ns) ! (unat i - Suc (unat c)) else names i)"
    proof (cases "i = c + 1")
      case True
      then have "unat i = Suc (unat c)" using c by simp
      with at [of i] len True show ?thesis by simp
    next
      case False
      then have ne: "unat i \<noteq> Suc (unat c)" using c by (simp add: word_unat_eq_iff)
      show ?thesis
      proof (cases "Suc (unat c) < unat i")
        case True
        then have "unat i - Suc (unat c) = Suc (unat i - Suc (Suc (unat c)))" by simp
        with at [of i] True \<open>i \<noteq> c + 1\<close> show ?thesis by simp
      qed (use at [of i] ne \<open>i \<noteq> c + 1\<close> in simp)
    qed
  qed
qed

lemma register_succeeds:
  "[] \<notin> set ns \<Longrightarrow> unat c + length ns < 2 ^ 32 \<Longrightarrow> \<exists>r. register ns c names evs = Inr r"
proof (induction ns arbitrary: c names evs)
  case Nil
  show ?case by (simp add: register_nil)
next
  case (Cons n ns)
  have "unat (- 1 :: uint32) = 2 ^ 32 - 1" by (simp add: unsigned_minus_1_eq_mask mask_eq_exp_minus_1)
  then have c: "c \<noteq> - 1" using Cons.prems(2) by auto
  then have "1 + c \<noteq> 0" by (metis add.commute eq_neg_iff_add_eq_0)
  from unatSuc [OF this] have c1: "unat (c + 1) = Suc (unat c)" by (simp add: add.commute)
  have "\<exists>r. register ns (c + 1) (names(c + 1 := n)) (evs @ [(c + 1, n)]) = Inr r"
    by (rule Cons.IH) (use Cons.prems c1 in simp_all)
  moreover have "n \<noteq> []" using Cons.prems(1) by auto
  ultimately show ?case using c unfolding register_cons checked_inc_def by simp
qed

lemma register_numbered:
  assumes "register ns c names evs = Inr (c', names', evs')" and "\<And>i. names i \<noteq> [] \<longleftrightarrow> 0 < i \<and> i \<le> c"
  shows "names' i \<noteq> [] \<longleftrightarrow> 0 < i \<and> i \<le> c'"
proof (cases "unat c < unat i \<and> unat i \<le> unat c'")
  case True
  note ok = register_ok [OF assms(1)]
  have "unat i - Suc (unat c) < length ns" using True ok by linarith
  with True ok have "names' i \<in> set ns" by simp
  with True ok show ?thesis by (auto simp: word_le_nat_alt word_less_nat_alt)
next
  case False
  with register_ok [OF assms(1)] assms(2) show ?thesis by (auto simp: word_le_nat_alt word_less_nat_alt)
qed

end

interpretation competition_batch: batch_registry register_competitions InvalidCompetitionName
  by unfold_locales simp_all

interpretation team_batch: batch_registry register_teams InvalidTeamName
  by unfold_locales simp_all

text \<open>The state a constructor builds, and what \<open>addTeams\<close> keeps: the ids with a name are those from 1 to the counter.\<close>

definition competitions_numbered :: "CompetitionRegistry \<Rightarrow> bool" where
  "competitions_numbered reg \<longleftrightarrow>
     (\<forall>i. competitions reg i \<noteq> [] \<longleftrightarrow> 0 < i \<and> i \<le> competitionIdCounter reg)"

definition teams_numbered :: "TeamRegistry \<Rightarrow> bool" where
  "teams_numbered reg \<longleftrightarrow> (\<forall>i. teams reg i \<noteq> [] \<longleftrightarrow> 0 < i \<and> i \<le> teamIdCounter reg)"

lemma add_teams_numbered:
  assumes "add_teams ns reg = Inr reg'" and "teams_numbered reg"
  shows "teams_numbered reg'"
proof -
  from assms(1) have "register_teams ns (teamIdCounter reg) (teams reg) (team_events reg) =
      Inr (teamIdCounter reg', teams reg', team_events reg')"
    by (auto simp: add_teams_def split: sum.splits)
  from team_batch.register_numbered [OF this] assms(2) show ?thesis
    by (simp add: teams_numbered_def)
qed

lemma addTeams_numbered: "addTeams own ns reg = Inr reg' \<Longrightarrow> teams_numbered reg \<Longrightarrow> teams_numbered reg'"
  by (simp add: addTeams_def add_teams_numbered split: if_splits)

lemma new_TeamRegistry_numbered:
  assumes "new_TeamRegistry ns = Inr reg"
  shows "teams_numbered reg"
proof -
  have "add_teams ns no_teams = Inr reg" using assms by (simp add: new_TeamRegistry_def split: if_splits)
  moreover have "teams_numbered no_teams" by (simp add: teams_numbered_def no_teams_def word_gt_0)
  ultimately show ?thesis by (rule add_teams_numbered)
qed

lemma new_CompetitionRegistry_numbered:
  assumes "new_CompetitionRegistry ns = Inr reg"
  shows "competitions_numbered reg"
proof -
  from assms have "register_competitions ns 0 (\<lambda>_. []) [] =
      Inr (competitionIdCounter reg, competitions reg, competition_events reg)"
    by (auto simp: new_CompetitionRegistry_def no_competitions_def split: if_splits sum.splits)
  from competition_batch.register_numbered [OF this] show ?thesis
    by (simp add: competitions_numbered_def word_gt_0)
qed

lemma addCompetition_numbered:
  assumes "addCompetition own n reg = Inr reg'" and "competitions_numbered reg"
  shows "competitions_numbered reg'"
proof -
  have n: "n \<noteq> []" and "register_competitions [n] (competitionIdCounter reg) (competitions reg) (competition_events reg) =
      Inr (competitionIdCounter reg', competitions reg', competition_events reg')"
    using assms(1) by (auto simp: addCompetition_def split: if_splits sum.splits)
  from competition_batch.register_numbered [OF this(2)] assms(2) show ?thesis
    by (simp add: competitions_numbered_def)
qed

section \<open>The registries as deployed\<close>

lemma deployed_teams:
  obtains ts where "new_TeamRegistry deployed_team_names = Inr ts" "teamIdCounter ts = 120"
    "\<And>i. 0 < unat i \<Longrightarrow> unat i \<le> 120 \<Longrightarrow> teams ts i = deployed_team_names ! (unat i - 1)"
proof -
  have len: "length deployed_team_names = 120" and "[] \<notin> set deployed_team_names"
    by (simp_all add: deployed_team_names_def)
  then have "\<exists>r. register_teams deployed_team_names 0 (\<lambda>_. []) [] = Inr r"
    by (intro team_batch.register_succeeds) simp_all
  then obtain c names evs where r: "register_teams deployed_team_names 0 (\<lambda>_. []) [] = Inr (c, names, evs)"
    by (metis prod_cases3)
  note ok = team_batch.register_ok [OF r]
  have c: "unat c = 120" using ok len by simp
  then have "c = 120" by (simp add: word_unat_eq_iff)
  with r len have "new_TeamRegistry deployed_team_names = Inr \<lparr>teamIdCounter = 120, teams = names, team_events = evs\<rparr>"
    by (simp add: new_TeamRegistry_def add_teams_def no_teams_def MAX_TEAMS_PER_BATCH_def)
  moreover have "0 < unat i \<Longrightarrow> unat i \<le> 120 \<Longrightarrow> names i = deployed_team_names ! (unat i - 1)" for i
    using ok c by simp
  ultimately show thesis using that by simp
qed

lemma deployed_competitions:
  obtains cs where "new_CompetitionRegistry deployed_competition_names = Inr cs" "competitionIdCounter cs = 6"
    "\<And>i. 0 < unat i \<Longrightarrow> unat i \<le> 6 \<Longrightarrow> competitions cs i = deployed_competition_names ! (unat i - 1)"
proof -
  have len: "length deployed_competition_names = 6" and "[] \<notin> set deployed_competition_names"
    by (simp_all add: deployed_competition_names_def)
  then have "\<exists>r. register_competitions deployed_competition_names 0 (\<lambda>_. []) [] = Inr r"
    by (intro competition_batch.register_succeeds) simp_all
  then obtain c names evs where r: "register_competitions deployed_competition_names 0 (\<lambda>_. []) [] = Inr (c, names, evs)"
    by (metis prod_cases3)
  note ok = competition_batch.register_ok [OF r]
  have c: "unat c = 6" using ok len by simp
  then have "c = 6" by (simp add: word_unat_eq_iff)
  with r len have "new_CompetitionRegistry deployed_competition_names = Inr \<lparr>competitionIdCounter = 6, competitions = names, competition_events = evs\<rparr>"
    by (simp add: new_CompetitionRegistry_def no_competitions_def MAX_COMPETITIONS_PER_BATCH_def)
  moreover have "0 < unat i \<Longrightarrow> unat i \<le> 6 \<Longrightarrow> names i = deployed_competition_names ! (unat i - 1)" for i
    using ok c by simp
  ultimately show thesis using that by simp
qed

lemma deployed_sizes: "length deployed_team_names = 120" "length deployed_competition_names = 6"
  by (simp_all add: deployed_team_names_def deployed_competition_names_def)

text \<open>A table numbered from 1 whose names are, up to \<open>f\<close>, the first ones of a list.\<close>

lemma names_in_order:
  fixes tab :: "(uint32 \<times> string) list"
  assumes "map (unat \<circ> fst) tab = [1..<k]" and "k = Suc n" and "map snd tab = map f (take n names)" and "n \<le> length names"
    and "\<And>i. 0 < unat i \<Longrightarrow> unat i \<le> n \<Longrightarrow> at i = names ! (unat i - 1)"
  shows "list_all (\<lambda>(i, name). f (at i) = name) tab"
proof (clarsimp simp: list_all_iff)
  note nums = assms(1)[unfolded assms(2)]
  fix i name assume "(i, name) \<in> set tab"
  then obtain j where j: "j < length tab" "tab ! j = (i, name)" by (auto simp: in_set_conv_nth)
  have len: "length tab = n" using arg_cong [OF nums, of length] by (simp del: upt_Suc)
  have "unat i = Suc j" using arg_cong [OF nums, of "\<lambda>xs. xs ! j"] j len by (simp del: upt_Suc)
  moreover have "name = f (names ! j)" using arg_cong [OF assms(3), of "\<lambda>xs. xs ! j"] j len assms(4) by simp
  ultimately show "f (at i) = name" using assms(5) [of i] j(1) len by simp
qed

section \<open>Properties\<close>

text \<open>
  Whatever batches the constructors and the owner have added, the ids that have a name are
  exactly those from 1 to the counter, in both registries: a registered id never loses its name and
  an id the contract accepts was assigned.
\<close>

theorem registry_ids:
  "(new_TeamRegistry ns = Inr ts \<longrightarrow> (\<forall>i. teams ts i \<noteq> [] \<longleftrightarrow> 0 < i \<and> i \<le> teamIdCounter ts)) \<and>
   (addTeams own ns ts0 = Inr ts \<and> (\<forall>i. teams ts0 i \<noteq> [] \<longleftrightarrow> 0 < i \<and> i \<le> teamIdCounter ts0) \<longrightarrow>
      (\<forall>i. teams ts i \<noteq> [] \<longleftrightarrow> 0 < i \<and> i \<le> teamIdCounter ts)) \<and>
   (new_CompetitionRegistry ns = Inr cs \<longrightarrow>
      (\<forall>i. competitions cs i \<noteq> [] \<longleftrightarrow> 0 < i \<and> i \<le> competitionIdCounter cs)) \<and>
   (addCompetition own n cs0 = Inr cs \<and>
      (\<forall>i. competitions cs0 i \<noteq> [] \<longleftrightarrow> 0 < i \<and> i \<le> competitionIdCounter cs0) \<longrightarrow>
      (\<forall>i. competitions cs i \<noteq> [] \<longleftrightarrow> 0 < i \<and> i \<le> competitionIdCounter cs))"
  unfolding teams_numbered_def [symmetric] competitions_numbered_def [symmetric]
  using new_TeamRegistry_numbered addTeams_numbered new_CompetitionRegistry_numbered addCompetition_numbered
  by metis

theorem registry_ids_witness:
  "\<exists>ts. new_TeamRegistry [''A'', ''B''] = Inr ts \<and> teams ts 2 \<noteq> [] \<and> teams ts 3 = []"
proof -
  have "is_ok (new_TeamRegistry [''A'', ''B''])" by code_simp
  then obtain ts where ts: "new_TeamRegistry [''A'', ''B''] = Inr ts" by (auto simp: is_ok_iff)
  have "map_sum id teamIdCounter (new_TeamRegistry [''A'', ''B'']) = Inr 2" by code_simp
  then have "teamIdCounter ts = 2" by (simp add: ts)
  with registry_ids [of "[''A'', ''B'']" ts] ts have "\<forall>i. teams ts i \<noteq> [] \<longleftrightarrow> 0 < i \<and> i \<le> 2" by metis
  from spec [OF this, of 2] spec [OF this, of 3] have "teams ts 2 \<noteq> [] \<and> teams ts 3 = []" by simp
  with ts show ?thesis by blast
qed

text \<open>
  The ids of the provider are those of the deployed contracts: the name the deployed registry
  gives to every team and competition number of the provider is, without its spaces, the Go
  identifier of that number, and the numbers are the consecutive ones from 1.
\<close>

theorem deployment_matches_provider:
  "\<exists>cs ts. new_CompetitionRegistry deployed_competition_names = Inr cs \<and>
     new_TeamRegistry deployed_team_names = Inr ts \<and>
     list_all (\<lambda>(i, name). filter (\<lambda>c. c \<noteq> CHR '' '') (teams ts i) = name) go_teams \<and>
     list_all (\<lambda>(i, name). filter (\<lambda>c. c \<noteq> CHR '' '') (competitions cs i) = name) go_competitions \<and>
     map (unat \<circ> fst) go_teams = [1..<65] \<and> map (unat \<circ> fst) go_competitions = [1..<4]"
proof -
  obtain cs where cs: "new_CompetitionRegistry deployed_competition_names = Inr cs"
    "\<And>i. 0 < unat i \<Longrightarrow> unat i \<le> 6 \<Longrightarrow> competitions cs i = deployed_competition_names ! (unat i - 1)"
    by (rule deployed_competitions) blast
  obtain ts where ts: "new_TeamRegistry deployed_team_names = Inr ts"
    "\<And>i. 0 < unat i \<Longrightarrow> unat i \<le> 120 \<Longrightarrow> teams ts i = deployed_team_names ! (unat i - 1)"
    by (rule deployed_teams) blast
  have t: "map (unat \<circ> fst) go_teams = [1..<65]"
    "map snd go_teams = map (filter (\<lambda>c. c \<noteq> CHR '' '')) (take 64 deployed_team_names)" by code_simp+
  have c: "map (unat \<circ> fst) go_competitions = [1..<4]"
    "map snd go_competitions = map (filter (\<lambda>c. c \<noteq> CHR '' '')) (take 3 deployed_competition_names)" by code_simp+
  have "list_all (\<lambda>(i, name). filter (\<lambda>c. c \<noteq> CHR '' '') (teams ts i) = name) go_teams"
    by (rule names_in_order [OF t(1) _ t(2)]) (simp_all add: ts(2) deployed_sizes)
  moreover have "list_all (\<lambda>(i, name). filter (\<lambda>c. c \<noteq> CHR '' '') (competitions cs i) = name) go_competitions"
    by (rule names_in_order [OF c(1) _ c(2)]) (simp_all add: cs(2) deployed_sizes)
  ultimately show ?thesis using cs(1) ts(1) t(1) c(1) by blast
qed

end
