(* ===== verification/Match_Registry.thy ===== *)
theory Match_Registry
  imports Registries
begin

text \<open>
  The contract that stores the results (\<open>src/oracle/src/MatchRegistry.sol\<close>). A call takes the
  registries as they are at the time of the call and returns the new storage or the error it reverts
  with. The hash function, the EIP-712 digest and the recovery of a signer are the environment; the
  caller check of OpenZeppelin's \<open>onlyOwner\<close> is the argument \<open>is_owner\<close>.
\<close>

section \<open>Storage\<close>

type_synonym eth_address = "160 word"

record OracleMatch =
  om_matchId :: "byte list"
  om_homeTeamScore :: uint8
  om_awayTeamScore :: uint8

datatype oracle_event =
    MatchRegistered "byte list" uint8 uint8
  | SignerRotated eth_address

datatype submit_error =
    InvalidTeams uint32 uint32
  | InvalidMatchId "byte list"
  | InvalidCompetitionId uint32
  | InvalidHomeTeamId uint32
  | InvalidAwayTeamId uint32
  | InvalidMatchDate uint32
  | InvalidScores uint8 uint8
  | InvalidSignature "byte list"
  | MatchAlreadySubmitted "byte list"
  | InvalidAuthorizedSigner
  | SignerAlreadyUsed eth_address
  | RecoverReverted string
  | CallerNotOwner

record MatchRegistry =
  authorizedSigner :: eth_address
  submitted :: "byte list \<Rightarrow> OracleMatch"
  signersHistory :: "eth_address \<Rightarrow> bool"
  o_events :: "oracle_event list"

text \<open>
  \<open>hash_typed_data\<close> is \<open>_hashTypedDataV4\<close> for the domain of this contract, \<open>recover_calldata\<close> is
  \<open>ECDSA.recoverCalldata\<close>, which reverts on a malformed signature.
\<close>

record oracle_env =
  o_keccak :: "byte list \<Rightarrow> byte list"
  hash_typed_data :: "byte list \<Rightarrow> byte list"
  recover_calldata :: "byte list \<Rightarrow> byte list \<Rightarrow> (string, eth_address) result"

definition MAX_SCORE :: uint8 where "MAX_SCORE = 80"

definition zero_bytes32 :: "byte list" where "zero_bytes32 = replicate 32 0"

definition no_match :: OracleMatch where
  "no_match = \<lparr>om_matchId = zero_bytes32, om_homeTeamScore = 0, om_awayTeamScore = 0\<rparr>"

section \<open>Encoding\<close>

text \<open>Solidity's \<open>abi.encodePacked\<close> of \<open>uint32\<close> values and \<open>abi.encode\<close> of two words and two bytes.\<close>

definition abi_uint32 :: "uint32 \<Rightarrow> byte list" where
  "abi_uint32 n = map (\<lambda>i. word_of_nat (unat n div 256 ^ i)) [3, 2, 1, 0]"

definition encode_packed :: "uint32 \<Rightarrow> uint32 \<Rightarrow> uint32 \<Rightarrow> uint32 \<Rightarrow> byte list" where
  "encode_packed competitionId homeTeamId awayTeamId matchDate =
     abi_uint32 competitionId @ abi_uint32 homeTeamId @ abi_uint32 awayTeamId @ abi_uint32 matchDate"

definition abi_uint8 :: "uint8 \<Rightarrow> byte list" where
  "abi_uint8 n = replicate 31 0 @ [n]"

definition MATCH_TYPEHASH :: "oracle_env \<Rightarrow> byte list" where
  "MATCH_TYPEHASH o_env = o_keccak o_env (map of_char ''Match(bytes32 matchId,uint8 homeScore,uint8 awayScore)'')"

definition match_struct_hash :: "oracle_env \<Rightarrow> byte list \<Rightarrow> uint8 \<Rightarrow> uint8 \<Rightarrow> byte list" where
  "match_struct_hash o_env matchId homeTeamScore awayTeamScore =
     o_keccak o_env (MATCH_TYPEHASH o_env @ matchId @ abi_uint8 homeTeamScore @ abi_uint8 awayTeamScore)"

section \<open>Operations\<close>

definition new_MatchRegistry :: "eth_address \<Rightarrow> (submit_error, MatchRegistry) result" where
  "new_MatchRegistry signer =
     (if signer = 0 then Inl InvalidAuthorizedSigner
      else Inr \<lparr>authorizedSigner = signer, submitted = (\<lambda>_. no_match), signersHistory = (\<lambda>_. False), o_events = []\<rparr>)"

definition rotateSigner :: "bool \<Rightarrow> eth_address \<Rightarrow> MatchRegistry \<Rightarrow> (submit_error, MatchRegistry) result" where
  "rotateSigner is_owner newSigner reg =
     (if \<not> is_owner then Inl CallerNotOwner
      else if newSigner = 0 then Inl InvalidAuthorizedSigner
      else if signersHistory reg newSigner then Inl (SignerAlreadyUsed newSigner)
      else Inr (reg\<lparr>signersHistory := (signersHistory reg)(newSigner := True), authorizedSigner := newSigner,
                    o_events := o_events reg @ [SignerRotated newSigner]\<rparr>))"

definition validateSignature ::
  "oracle_env \<Rightarrow> byte list \<Rightarrow> uint8 \<Rightarrow> uint8 \<Rightarrow> byte list \<Rightarrow> MatchRegistry \<Rightarrow> (submit_error, unit) result" where
  "validateSignature o_env matchId homeTeamScore awayTeamScore signature reg =
     (let digest = hash_typed_data o_env (match_struct_hash o_env matchId homeTeamScore awayTeamScore)
      in (case recover_calldata o_env digest signature of
            Inl err \<Rightarrow> Inl (RecoverReverted err)
          | Inr signer \<Rightarrow> if signer \<noteq> authorizedSigner reg then Inl (InvalidSignature signature) else Inr ()))"

definition submitMatch ::
  "oracle_env \<Rightarrow> CompetitionRegistry \<Rightarrow> TeamRegistry \<Rightarrow> byte list \<Rightarrow> uint32 \<Rightarrow> uint32 \<Rightarrow> uint32 \<Rightarrow> uint8 \<Rightarrow> uint8 \<Rightarrow>
   uint32 \<Rightarrow> byte list \<Rightarrow> MatchRegistry \<Rightarrow> (submit_error, MatchRegistry) result" where
  "submitMatch o_env cs ts matchId competitionId homeTeamId awayTeamId homeTeamScore awayTeamScore matchDate
     signature reg =
     (if homeTeamId = awayTeamId then Inl (InvalidTeams homeTeamId awayTeamId)
      else if o_keccak o_env (encode_packed competitionId homeTeamId awayTeamId matchDate) \<noteq> matchId
      then Inl (InvalidMatchId matchId)
      else if matchDate < 20100101 \<or> matchDate > 21001231 then Inl (InvalidMatchDate matchDate)
      else if competitions cs competitionId = [] then Inl (InvalidCompetitionId competitionId)
      else if teams ts homeTeamId = [] then Inl (InvalidHomeTeamId homeTeamId)
      else if teams ts awayTeamId = [] then Inl (InvalidAwayTeamId awayTeamId)
      else if homeTeamScore > MAX_SCORE \<or> awayTeamScore > MAX_SCORE
      then Inl (InvalidScores homeTeamScore awayTeamScore)
      else if om_matchId (submitted reg matchId) \<noteq> zero_bytes32 then Inl (MatchAlreadySubmitted matchId)
      else (case validateSignature o_env matchId homeTeamScore awayTeamScore signature reg of
              Inl err \<Rightarrow> Inl err
            | Inr _ \<Rightarrow>
                Inr (reg\<lparr>submitted := (submitted reg)(matchId :=
                           \<lparr>om_matchId = matchId, om_homeTeamScore = homeTeamScore, om_awayTeamScore = awayTeamScore\<rparr>),
                         o_events := o_events reg @ [MatchRegistered matchId homeTeamScore awayTeamScore]\<rparr>)))"

definition getMatch :: "oracle_env \<Rightarrow> uint32 \<Rightarrow> uint32 \<Rightarrow> uint32 \<Rightarrow> uint32 \<Rightarrow> MatchRegistry \<Rightarrow> OracleMatch" where
  "getMatch o_env competitionId homeTeamId awayTeamId matchDate reg =
     submitted reg (o_keccak o_env (encode_packed competitionId homeTeamId awayTeamId matchDate))"

section \<open>The packing agrees with the provider's\<close>

lemma abi_uint32_eq: "abi_uint32 n = uint32ToBytes n"
proof -
  have byte: "(word_of_nat (unat n div 256 ^ i) :: byte) = ucast (drop_bit (8 * i) n)" for i
  proof -
    have "unat n div 256 ^ i = unat (drop_bit (8 * i) n)"
      by (subst unat_drop_bit_eq) (simp add: drop_bit_eq_div power_mult)
    then show ?thesis by (simp only: of_nat_unat)
  qed
  show ?thesis
    using byte [of 0] byte [of 1] byte [of 2] byte [of 3]
    by (simp add: abi_uint32_def uint32ToBytes_def put_uint32_def)
qed

lemma encode_packed_eq: "encode_packed c h a d = packed_match c h a d"
  by (simp add: encode_packed_def packed_match_def abi_uint32_eq)

section \<open>Accepted submissions\<close>

text \<open>Everything a submission has passed, and what it writes.\<close>

lemma submitMatch_ok:
  assumes "submitMatch o_env cs ts mid c h a hs as d sig reg = Inr reg'"
  shows "h \<noteq> a" and "mid = o_keccak o_env (encode_packed c h a d)" and "20100101 \<le> d" and "d \<le> 21001231"
    and "competitions cs c \<noteq> []" and "teams ts h \<noteq> []" and "teams ts a \<noteq> []"
    and "hs \<le> MAX_SCORE" and "as \<le> MAX_SCORE" and "om_matchId (submitted reg mid) = zero_bytes32"
    and "recover_calldata o_env (hash_typed_data o_env (match_struct_hash o_env mid hs as)) sig = Inr (authorizedSigner reg)"
    and "reg' = reg\<lparr>submitted := (submitted reg)(mid :=
        \<lparr>om_matchId = mid, om_homeTeamScore = hs, om_awayTeamScore = as\<rparr>),
        o_events := o_events reg @ [MatchRegistered mid hs as]\<rparr>"
  using assms by (auto simp: submitMatch_def validateSignature_def Let_def not_less split: if_splits sum.splits)

section \<open>Calls in any order\<close>

text \<open>Anybody submits anything, with any registries, and the owner rotates the signer.\<close>

inductive registry_step :: "oracle_env \<Rightarrow> MatchRegistry \<Rightarrow> MatchRegistry \<Rightarrow> bool" for o_env where
  submit_call: "submitMatch o_env cs ts mid c h a hs as d sig reg = Inr reg' \<Longrightarrow> registry_step o_env reg reg'"
| rotate_call: "rotateSigner own s reg = Inr reg' \<Longrightarrow> registry_step o_env reg reg'"

inductive_cases registry_stepE: "registry_step o_env reg reg'"

text \<open>A stored result is filed under its own id, and every id that is used is a hash.\<close>

definition stored_ok :: "oracle_env \<Rightarrow> MatchRegistry \<Rightarrow> bool" where
  "stored_ok o_env reg \<longleftrightarrow>
     (\<forall>i. om_matchId (submitted reg i) \<noteq> zero_bytes32 \<longrightarrow>
        om_matchId (submitted reg i) = i \<and>
        om_homeTeamScore (submitted reg i) \<le> MAX_SCORE \<and> om_awayTeamScore (submitted reg i) \<le> MAX_SCORE \<and>
        (\<exists>c h a d. i = o_keccak o_env (encode_packed c h a d) \<and> h \<noteq> a \<and> 20100101 \<le> d \<and> d \<le> 21001231))"

lemma registry_step_stored_ok:
  assumes "registry_step o_env reg reg'" and "stored_ok o_env reg"
  shows "stored_ok o_env reg'"
  using assms(1)
proof (cases rule: registry_step.cases)
  case (submit_call cs ts mid c h a hs as d sig)
  note ok = submitMatch_ok [OF submit_call]
  show ?thesis
    unfolding stored_ok_def
  proof (intro allI impI)
    fix i assume i: "om_matchId (submitted reg' i) \<noteq> zero_bytes32"
    show "om_matchId (submitted reg' i) = i \<and>
        om_homeTeamScore (submitted reg' i) \<le> MAX_SCORE \<and> om_awayTeamScore (submitted reg' i) \<le> MAX_SCORE \<and>
        (\<exists>c h a d. i = o_keccak o_env (encode_packed c h a d) \<and> h \<noteq> a \<and> 20100101 \<le> d \<and> d \<le> 21001231)"
    proof (cases "i = mid")
      case True
      with ok show ?thesis by auto
    next
      case False
      with i assms(2) show ?thesis unfolding ok(12) stored_ok_def by simp
    qed
  qed
next
  case (rotate_call own s)
  with assms(2) show ?thesis by (auto simp: rotateSigner_def stored_ok_def split: if_splits)
qed

text \<open>A step keeps every stored result and every address of the history.\<close>

lemma registry_step_keeps:
  assumes "registry_step o_env reg reg'"
  shows "om_matchId (submitted reg i) \<noteq> zero_bytes32 \<Longrightarrow> submitted reg' i = submitted reg i"
    and "signersHistory reg s \<Longrightarrow> signersHistory reg' s"
proof -
  have "(om_matchId (submitted reg i) \<noteq> zero_bytes32 \<longrightarrow> submitted reg' i = submitted reg i) \<and>
      (signersHistory reg s \<longrightarrow> signersHistory reg' s)"
    using assms
  proof (cases rule: registry_step.cases)
    case (submit_call cs ts mid c h a hs as d sig)
    from submitMatch_ok(10,12) [OF submit_call] show ?thesis by auto
  next
    case (rotate_call own s)
    then show ?thesis by (auto simp: rotateSigner_def split: if_splits)
  qed
  then show "om_matchId (submitted reg i) \<noteq> zero_bytes32 \<Longrightarrow> submitted reg' i = submitted reg i"
    "signersHistory reg s \<Longrightarrow> signersHistory reg' s" by blast+
qed

lemma registry_steps_keep:
  assumes "(registry_step o_env)\<^sup>*\<^sup>* reg reg'"
  shows "(om_matchId (submitted reg i) \<noteq> zero_bytes32 \<longrightarrow> submitted reg' i = submitted reg i) \<and>
    (signersHistory reg s \<longrightarrow> signersHistory reg' s)"
  using assms
proof (induction rule: rtranclp_induct)
  case base
  show ?case by simp
next
  case (step y z)
  from step(3) registry_step_keeps [OF step(2)] show ?case by metis
qed

text \<open>
  A stored result entered by an accepted call on the way from one state to the other, signed by the
  signer authorized in the state that call met.
\<close>

definition accepted_between :: "oracle_env \<Rightarrow> MatchRegistry \<Rightarrow> MatchRegistry \<Rightarrow> byte list \<Rightarrow> OracleMatch \<Rightarrow> bool" where
  "accepted_between o_env reg0 reg i om \<longleftrightarrow>
     (\<exists>before after cs ts c h a d sig. (registry_step o_env)\<^sup>*\<^sup>* reg0 before \<and>
        submitMatch o_env cs ts i c h a (om_homeTeamScore om) (om_awayTeamScore om) d sig before = Inr after \<and>
        (registry_step o_env)\<^sup>*\<^sup>* after reg \<and>
        recover_calldata o_env (hash_typed_data o_env (match_struct_hash o_env i (om_homeTeamScore om)
          (om_awayTeamScore om))) sig = Inr (authorizedSigner before))"

lemma accepted_between_step:
  "accepted_between o_env reg0 reg i om \<Longrightarrow> registry_step o_env reg reg' \<Longrightarrow> accepted_between o_env reg0 reg' i om"
  unfolding accepted_between_def by (meson rtranclp.rtrancl_into_rtrancl)

lemma registry_step_accepted:
  assumes "registry_step o_env reg reg'" and "(registry_step o_env)\<^sup>*\<^sup>* reg0 reg"
    and "om_matchId (submitted reg i) \<noteq> zero_bytes32 \<longrightarrow> accepted_between o_env reg0 reg i (submitted reg i)"
    and "om_matchId (submitted reg' i) \<noteq> zero_bytes32"
  shows "accepted_between o_env reg0 reg' i (submitted reg' i)"
proof (cases "submitted reg' i = submitted reg i")
  case True
  with assms show ?thesis by (auto intro: accepted_between_step)
next
  case False
  from assms(1) show ?thesis
  proof (cases rule: registry_step.cases)
    case (submit_call cs ts mid c h a hs as d sig)
    note ok = submitMatch_ok(11,12) [OF submit_call]
    have i: "i = mid" using False ok(2) by (auto split: if_splits)
    with ok(2) have "om_homeTeamScore (submitted reg' i) = hs" "om_awayTeamScore (submitted reg' i) = as" by simp_all
    with ok(1) submit_call assms(2) i show ?thesis
      unfolding accepted_between_def by (metis rtranclp.rtrancl_refl)
  next
    case (rotate_call own s)
    with False show ?thesis by (auto simp: rotateSigner_def split: if_splits)
  qed
qed

section \<open>Properties\<close>

text \<open>
  C25: A recorded result is final: after an accepted submission, whatever submissions and rotations
  follow, with whatever registries, the contract still answers with that result, and a submission
  for the same match is never accepted again.
\<close>

theorem submission_final:
  assumes "submitMatch o_env cs ts mid c h a hs as d sig reg = Inr reg1" and "mid \<noteq> replicate 32 0"
    and "(registry_step o_env)\<^sup>*\<^sup>* reg1 reg2"
  shows "getMatch o_env c h a d reg2 = \<lparr>om_matchId = mid, om_homeTeamScore = hs, om_awayTeamScore = as\<rparr> \<and>
    (\<exists>err. submitMatch o_env cs' ts' mid c' h' a' hs' as' d' sig' reg2 = Inl err)"
proof -
  note ok = submitMatch_ok [OF assms(1)]
  have stored: "submitted reg2 mid = \<lparr>om_matchId = mid, om_homeTeamScore = hs, om_awayTeamScore = as\<rparr>"
    using registry_steps_keep [OF assms(3), of mid] ok(12) assms(2) by (simp add: zero_bytes32_def)
  moreover have "submitMatch o_env cs' ts' mid c' h' a' hs' as' d' sig' reg2 \<noteq> Inr reg3" for reg3
    using submitMatch_ok(10) [of o_env cs' ts' mid c' h' a' hs' as' d' sig' reg2 reg3] stored assms(2)
    by (auto simp: zero_bytes32_def)
  ultimately show ?thesis
    using ok(2) by (cases "submitMatch o_env cs' ts' mid c' h' a' hs' as' d' sig' reg2") (auto simp: getMatch_def)
qed

definition sample_oracle :: oracle_env where
  "sample_oracle = \<lparr>o_keccak = (\<lambda>bs. take 32 (bs @ replicate 32 0)), hash_typed_data = (\<lambda>h. h),
     recover_calldata = (\<lambda>_ sig. if length sig = 65 then Inr 7 else Inl ''ECDSAInvalidSignatureLength'')\<rparr>"

definition sample_teams :: TeamRegistry where
  "sample_teams = \<lparr>teamIdCounter = 2, teams = (\<lambda>i. if i = 1 then ''A'' else if i = 2 then ''B'' else []), team_events = []\<rparr>"

definition sample_competitions :: CompetitionRegistry where
  "sample_competitions = \<lparr>competitionIdCounter = 1, competitions = (\<lambda>i. if i = 1 then ''C'' else []), competition_events = []\<rparr>"

definition sample_id :: "byte list" where
  "sample_id = o_keccak sample_oracle (encode_packed 1 1 2 20260201)"

definition sample_submit :: "MatchRegistry \<Rightarrow> (submit_error, MatchRegistry) result" where
  "sample_submit = submitMatch sample_oracle sample_competitions sample_teams sample_id 1 1 2 3 1 20260201 (replicate 65 0)"

definition fresh_registry :: MatchRegistry where
  "fresh_registry = projr (new_MatchRegistry 7)"

lemma sample_submit_ok:
  obtains reg where "sample_submit fresh_registry = Inr reg"
proof -
  have "is_ok (sample_submit fresh_registry)" by code_simp
  then show thesis using that by (auto simp: is_ok_iff)
qed

theorem submission_final_witness:
  "\<exists>reg. submitMatch sample_oracle sample_competitions sample_teams sample_id 1 1 2 3 1 20260201 (replicate 65 0)
      fresh_registry = Inr reg \<and>
     getMatch sample_oracle 1 1 2 20260201 reg = \<lparr>om_matchId = sample_id, om_homeTeamScore = 3, om_awayTeamScore = 1\<rparr> \<and>
     (\<exists>err. submitMatch sample_oracle sample_competitions sample_teams sample_id 1 1 2 5 5 20260201 (replicate 65 0) reg = Inl err)"
proof -
  obtain reg where reg: "submitMatch sample_oracle sample_competitions sample_teams sample_id 1 1 2 3 1 20260201 (replicate 65 0)
      fresh_registry = Inr reg" using sample_submit_ok by (auto simp: sample_submit_def)
  have "sample_id \<noteq> replicate 32 0" by code_simp
  from submission_final [OF reg this rtranclp.rtrancl_refl] reg show ?thesis by blast
qed

text \<open>
  C26: Nothing gets into the contract but checked and signed results: whatever calls have been made
  since the deployment, every stored result is filed under its own identifier, the hash of a
  competition, two different teams and a date between 2010 and 2100, its scores are at most 80, and
  among the calls made there is an accepted submission of these very scores under this identifier
  whose signature recovers to the signer authorized in the state that call met.
\<close>

theorem stored_results_checked:
  assumes "new_MatchRegistry s = Inr reg0" and "(registry_step o_env)\<^sup>*\<^sup>* reg0 reg"
    and "om_matchId (submitted reg i) \<noteq> replicate 32 0"
  shows "om_matchId (submitted reg i) = i \<and>
    om_homeTeamScore (submitted reg i) \<le> 80 \<and> om_awayTeamScore (submitted reg i) \<le> 80 \<and>
    (\<exists>c h a d. i = o_keccak o_env (encode_packed c h a d) \<and> h \<noteq> a \<and> 20100101 \<le> d \<and> d \<le> 21001231) \<and>
    (\<exists>before after cs ts c h a d sig. (registry_step o_env)\<^sup>*\<^sup>* reg0 before \<and>
       submitMatch o_env cs ts i c h a (om_homeTeamScore (submitted reg i)) (om_awayTeamScore (submitted reg i)) d sig
         before = Inr after \<and>
       (registry_step o_env)\<^sup>*\<^sup>* after reg \<and>
       recover_calldata o_env (hash_typed_data o_env (match_struct_hash o_env i
         (om_homeTeamScore (submitted reg i)) (om_awayTeamScore (submitted reg i)))) sig = Inr (authorizedSigner before))"
proof -
  have start: "stored_ok o_env reg0" "submitted reg0 i = no_match"
    using assms(1) by (auto simp: new_MatchRegistry_def stored_ok_def no_match_def split: if_splits)
  have "stored_ok o_env reg \<and>
      (om_matchId (submitted reg i) \<noteq> zero_bytes32 \<longrightarrow> accepted_between o_env reg0 reg i (submitted reg i))"
    using assms(2)
  proof (induction rule: rtranclp_induct)
    case base
    from start show ?case by (simp add: no_match_def)
  next
    case (step y z)
    from registry_step_stored_ok [OF step(2)] step(3) registry_step_accepted [OF step(2,1)] show ?case by blast
  qed
  with assms(3) show ?thesis
    by (simp add: stored_ok_def accepted_between_def zero_bytes32_def MAX_SCORE_def)
qed

theorem stored_results_checked_witness:
  "\<exists>reg. sample_submit fresh_registry = Inr reg \<and> om_homeTeamScore (submitted reg sample_id) \<le> 80 \<and>
     om_matchId (submitted reg sample_id) = sample_id"
proof -
  obtain reg where reg: "sample_submit fresh_registry = Inr reg" by (rule sample_submit_ok)
  have new: "new_MatchRegistry 7 = Inr fresh_registry" by (simp add: fresh_registry_def new_MatchRegistry_def)
  have "registry_step sample_oracle fresh_registry reg"
    using reg unfolding sample_submit_def by (rule submit_call)
  then have steps: "(registry_step sample_oracle)\<^sup>*\<^sup>* fresh_registry reg" by (rule r_into_rtranclp)
  have "sample_id \<noteq> replicate 32 0" by code_simp
  with submitMatch_ok(12) [OF reg [unfolded sample_submit_def]]
  have "om_matchId (submitted reg sample_id) \<noteq> replicate 32 0" by simp
  from stored_results_checked [OF new steps this] reg show ?thesis by blast
qed

text \<open>
  C36: A signer the contract has been rotated to is never accepted by a rotation again; the signer it
  was deployed with is not in the history and can come back.
\<close>

theorem signers_not_reused:
  "(rotateSigner True s reg = Inr reg1 \<and> (registry_step o_env)\<^sup>*\<^sup>* reg1 reg2 \<longrightarrow>
      rotateSigner True s reg2 = Inl (SignerAlreadyUsed s)) \<and>
   (new_MatchRegistry s = Inr reg \<and> rotateSigner True s' reg = Inr reg1 \<and> s' \<noteq> s \<longrightarrow>
      (\<exists>reg2. rotateSigner True s reg1 = Inr reg2 \<and> authorizedSigner reg2 = s))"
proof (intro conjI impI; elim conjE)
  assume rot: "rotateSigner True s reg = Inr reg1" and steps: "(registry_step o_env)\<^sup>*\<^sup>* reg1 reg2"
  have "signersHistory reg1 s \<and> s \<noteq> 0" using rot by (auto simp: rotateSigner_def split: if_splits)
  with registry_steps_keep [OF steps] show "rotateSigner True s reg2 = Inl (SignerAlreadyUsed s)"
    by (simp add: rotateSigner_def)
next
  assume "new_MatchRegistry s = Inr reg" "rotateSigner True s' reg = Inr reg1" "s' \<noteq> s"
  then show "\<exists>reg2. rotateSigner True s reg1 = Inr reg2 \<and> authorizedSigner reg2 = s"
    by (auto simp: new_MatchRegistry_def rotateSigner_def split: if_splits)
qed

theorem signers_not_reused_witness:
  "\<exists>reg1 reg2. rotateSigner True 8 fresh_registry = Inr reg1 \<and> rotateSigner True 7 reg1 = Inr reg2 \<and>
     rotateSigner True 8 reg2 = Inl (SignerAlreadyUsed 8)"
proof -
  have "is_ok (rotateSigner True 8 fresh_registry)" by code_simp
  then obtain reg1 where reg1: "rotateSigner True 8 fresh_registry = Inr reg1" by (auto simp: is_ok_iff)
  have new: "new_MatchRegistry 7 = Inr fresh_registry" by (simp add: fresh_registry_def new_MatchRegistry_def)
  obtain reg2 where reg2: "rotateSigner True 7 reg1 = Inr reg2"
    using signers_not_reused [of 7 fresh_registry reg1 sample_oracle reg1 8] new reg1 by auto
  have "(registry_step sample_oracle)\<^sup>*\<^sup>* reg1 reg2"
    using rotate_call [OF reg2] by (rule r_into_rtranclp)
  with signers_not_reused [of 8 fresh_registry reg1 sample_oracle reg2 8] reg1 reg2 show ?thesis by blast
qed

end
