(* ===== verification/Settlement.thy ===== *)
theory Settlement
  imports Pipeline Match_Registry
begin

text \<open>
  From the tables to the contract: what \<open>submitMatch\<close> of \<open>MatchRegistry.sol\<close> answers to the calldata
  the relayer builds for a row the signer has signed.
\<close>

section \<open>The call\<close>

text \<open>The ABI passes the arguments by position.\<close>

definition call_submitMatch ::
  "oracle_env \<Rightarrow> CompetitionRegistry \<Rightarrow> TeamRegistry \<Rightarrow> abi_value list \<Rightarrow> MatchRegistry \<Rightarrow>
   (submit_error, MatchRegistry) result option" where
  "call_submitMatch o_env cs ts args reg =
     (case args of
        [AbiBytes32 matchId, AbiUint32 c, AbiUint32 h, AbiUint32 a, AbiUint8 hs, AbiUint8 as, AbiUint32 d, AbiBytes sig] \<Rightarrow>
          Some (submitMatch o_env cs ts matchId c h a hs as d sig reg)
      | _ \<Rightarrow> None)"

section \<open>What the two hashing libraries and the curve guarantee\<close>

text \<open>
  EIP-712 as both sides implement it. go-ethereum's \<open>HashStruct\<close> of a match with a 32-byte id is the
  contract's struct hash and is refused for a score that does not fit \<open>uint8\<close>; with the hash of the
  domain it gives the contract's digest.
\<close>

definition eip712_agree :: "'z signer_env_scheme \<Rightarrow> go_uint \<Rightarrow> oracle_env \<Rightarrow> bool" where
  "eip712_agree s chainId o_env \<longleftrightarrow>
     (\<forall>m i h ds. let td = match_message oracle_types (oracle_domain (s_getenv s) chainId) m in
        sm_CanonicalID m = hex_encode i \<longrightarrow> length i = 32 \<longrightarrow>
        hash_struct s td (PrimaryType td) (TypedMsg td) = Inr h \<longrightarrow>
        hash_struct s td ''EIP712Domain'' (domain_map s (TypedDomain td)) = Inr ds \<longrightarrow>
          sm_HomeTeamScore m \<le> 255 \<and> sm_AwayTeamScore m \<le> 255 \<and>
          h = match_struct_hash o_env i (ucast (sm_HomeTeamScore m)) (ucast (sm_AwayTeamScore m)) \<and>
          s_keccak s ([0x19, 0x01] @ ds @ h) = hash_typed_data o_env h)"

text \<open>
  A signature of the curve has 65 bytes, and the contract recovers the key's address from it once its
  last byte is 27 or 28.
\<close>

definition recovers :: "'z signer_env_scheme \<Rightarrow> ecdsa_key \<Rightarrow> oracle_env \<Rightarrow> eth_address \<Rightarrow> bool" where
  "recovers s key o_env signer \<longleftrightarrow>
     (\<forall>d sig. ecdsa_sign s d key = Inr sig \<longrightarrow>
        length sig = 65 \<and> (sig ! 64 \<le> 1 \<longrightarrow> recover_calldata o_env d (sig[64 := sig ! 64 + 27]) = Inr signer))"

section \<open>The signature of a signed row\<close>

lemma sign_row_signed:
  assumes "row_status r = 3" and "sign_row s key c r \<noteq> r"
  obtains m sig where "scan_to_sign r = Some m"
    "sign_typed s (match_message oracle_types (oracle_domain (s_getenv s) c) m) key = Inr (hex_encode sig)"
    "sign_row s key c r = r\<lparr>row_signature := Some (hex_encode sig), row_status := Signed\<rparr>"
proof -
  from assms obtain m x where m: "scan_to_sign r = Some m" "fst (SignMatch s m key c no_globals) = Inr x"
    "sign_row s key c r = r\<lparr>row_signature := Some x, row_status := Signed\<rparr>"
    by (auto simp: sign_row_def SignerFinished_def split: option.splits sum.splits)
  then have x: "sign_typed s (match_message oracle_types (oracle_domain (s_getenv s) c) m) key = Inr x"
    by (simp add: SignMatch_def getTypes_def getDomain_def no_globals_def Let_def)
  then obtain sig where "x = hex_encode sig" by (elim sign_typed_ok) blast
  with m x show thesis by (intro that) auto
qed

lemma signature_recovered:
  assumes "sign_typed s (match_message oracle_types (oracle_domain (s_getenv s) c) m) key = Inr (hex_encode sig)"
    and "eip712_agree s c o_env" and "recovers s key o_env signer"
    and "sm_CanonicalID m = hex_encode i" and "length i = 32"
  shows "sm_HomeTeamScore m \<le> 255 \<and> sm_AwayTeamScore m \<le> 255 \<and>
    recover_calldata o_env (hash_typed_data o_env
      (match_struct_hash o_env i (ucast (sm_HomeTeamScore m)) (ucast (sm_AwayTeamScore m)))) sig = Inr signer"
proof -
  let ?td = "match_message oracle_types (oracle_domain (s_getenv s) c) m"
  from assms(1) obtain h ds raw where 1: "hash_struct s ?td (PrimaryType ?td) (TypedMsg ?td) = Inr h"
    "hash_struct s ?td ''EIP712Domain'' (domain_map s (TypedDomain ?td)) = Inr ds"
    "ecdsa_sign s (s_keccak s ([0x19, 0x01] @ ds @ h)) key = Inr raw" "raw ! 64 \<le> 1"
    "hex_encode sig = hex_encode (raw[64 := raw ! 64 + 27])"
    by (auto simp: sign_typed_def not_less split: sum.splits if_splits)
  have sig: "sig = raw[64 := raw ! 64 + 27]" using arg_cong [OF 1(5), of hex_decode] by (simp add: hex_decode_encode)
  have "sm_HomeTeamScore m \<le> 255 \<and> sm_AwayTeamScore m \<le> 255 \<and>
      h = match_struct_hash o_env i (ucast (sm_HomeTeamScore m)) (ucast (sm_AwayTeamScore m)) \<and>
      s_keccak s ([0x19, 0x01] @ ds @ h) = hash_typed_data o_env h"
    using assms(2,4,5) 1(1,2) unfolding eip712_agree_def Let_def by blast
  moreover have "recover_calldata o_env (s_keccak s ([0x19, 0x01] @ ds @ h)) sig = Inr signer"
    using assms(3) 1(3,4) unfolding recovers_def sig by blast
  ultimately show ?thesis by metis
qed

section \<open>The checks of the contract on a stored row\<close>

lemma known_team_registered:
  assumes "new_TeamRegistry deployed_team_names = Inr ts" and "known_team t"
  shows "teams ts t \<noteq> []"
proof -
  obtain ts' where "new_TeamRegistry deployed_team_names = Inr ts'" "teamIdCounter ts' = 120" by (rule deployed_teams)
  then have "teamIdCounter ts = 120" using assms(1) by simp
  moreover have "0 < t" "t \<le> 120"
    using assms(2) by (auto simp: known_team_def Wrexham_def word_le_nat_alt)
  ultimately show ?thesis using new_TeamRegistry_numbered [OF assms(1)] by (simp add: teams_numbered_def)
qed

lemma known_competition_registered:
  assumes "new_CompetitionRegistry deployed_competition_names = Inr cs" and "known_competition c"
  shows "competitions cs c \<noteq> []"
proof -
  obtain cs' where "new_CompetitionRegistry deployed_competition_names = Inr cs'" "competitionIdCounter cs' = 6"
    by (rule deployed_competitions)
  then have "competitionIdCounter cs = 6" using assms(1) by simp
  moreover have "0 < c \<and> c \<le> 6"
    using assms(2) by (auto simp: known_competition_def LaLiga_def PremierLeague_def Championship_def)
  ultimately show ?thesis using new_CompetitionRegistry_numbered [OF assms(1)] by (simp add: competitions_numbered_def)
qed

lemma score_of_int64:
  assumes "(word_of_int i :: 64 word) \<le> 255" and "0 \<le> i" and "i < 2 ^ 31"
  shows "i \<le> 255"
proof -
  have "uint (word_of_int i :: 64 word) = i" using assms(2,3) by (simp add: uint_word_of_int_eq take_bit_int_eq_self)
  with assms(1) show ?thesis by (simp add: word_le_def)
qed

lemma ucast_score64: "(ucast (word_of_int i :: 64 word) :: uint8) = word_of_int i"
  by (rule bit_word_eqI) (simp add: bit_simps)

lemma score_limit:
  assumes "0 \<le> i" and "i \<le> 255"
  shows "(word_of_int i :: uint8) > MAX_SCORE \<longleftrightarrow> 80 < i"
proof -
  have "uint (word_of_int i :: uint8) = i" using assms by (simp add: uint_word_of_int_eq take_bit_int_eq_self)
  then show ?thesis by (simp add: MAX_SCORE_def word_less_def)
qed

lemma date_limits:
  assumes "0 \<le> year_of t" and "year_of t \<le> 9999"
  shows "((word_of_int (date_number t) :: uint32) < 20100101 \<or> (word_of_int (date_number t) :: uint32) > 21001231) \<longleftrightarrow>
    (date_number t < 20100101 \<or> date_number t > 21001231)"
proof -
  have "uint (word_of_int (date_number t) :: uint32) = date_number t"
    using date_number_fits [OF assms] date_number_pos [OF assms(1)]
    by (simp add: uint_word_of_int_eq take_bit_int_eq_self)
  then show ?thesis by (simp add: word_less_def)
qed

lemma row_canonical:
  assumes "row_ok k r" and "year_of (row_start r) \<le> 9999"
  shows "0 \<le> year_of (row_start r)"
    and "row_canonical_id r = hex_encode (k (packed_match (word_of_int (row_competition_id r))
      (word_of_int (row_home_team_id r)) (word_of_int (row_away_team_id r)) (word_of_int (date_number (row_start r)))))"
proof -
  have id: "generateMatchID k (word_of_int (row_competition_id r)) (word_of_int (row_home_team_id r))
      (word_of_int (row_away_team_id r)) (row_start r) = Inr (row_canonical_id r)"
    using assms(1) by (simp add: row_ok_def row_sound_def)
  then show year: "0 \<le> year_of (row_start r)" by (rule generateMatchID_year)
  from id generateMatchID_ok [OF year assms(2)] show "row_canonical_id r = hex_encode (k (packed_match
      (word_of_int (row_competition_id r)) (word_of_int (row_home_team_id r)) (word_of_int (row_away_team_id r))
      (word_of_int (date_number (row_start r)))))" by simp
qed

text \<open>The row as the relayer reads it once it is signed.\<close>

lemma signed_row_scan:
  assumes "sign_row s key c r = r\<lparr>row_signature := Some (hex_encode sig), row_status := Signed\<rparr>"
  obtains m where "scan_signed (sign_row s key c r) = Some m" "rm_Signature m = sig"
    "rm_CompetitionID m = word_of_int (row_competition_id r)" "rm_HomeTeamID m = word_of_int (row_home_team_id r)"
    "rm_AwayTeamID m = word_of_int (row_away_team_id r)" "rm_Start m = word_of_int (date_number (row_start r))"
    "ucast (rm_HomeTeamScore m) = (word_of_int (row_home_team_score r) :: uint8)"
    "ucast (rm_AwayTeamScore m) = (word_of_int (row_away_team_score r) :: uint8)"
  using that unfolding assms
  by (simp add: scan_signed_def hex_decode_encode ucast_score date_number_def compact_value_def)

text \<open>The scores of a row that has been signed fit eight bits, and the contract accepts the signature.\<close>

lemma signed_row_valid:
  assumes "row_ok k r" and "scan_to_sign r = Some sm"
    and "sign_typed s (match_message oracle_types (oracle_domain (s_getenv s) c) sm) key = Inr (hex_encode sig)"
    and "eip712_agree s c o_env" and "recovers s key o_env (authorizedSigner reg)"
    and "row_canonical_id r = hex_encode i" and "length i = 32"
  shows "row_home_team_score r \<le> 255" and "row_away_team_score r \<le> 255"
    and "validateSignature o_env i (word_of_int (row_home_team_score r)) (word_of_int (row_away_team_score r)) sig reg = Inr ()"
proof -
  have sm: "sm_CanonicalID sm = hex_encode i" "sm_HomeTeamScore sm = word_of_int (row_home_team_score r)"
    "sm_AwayTeamScore sm = word_of_int (row_away_team_score r)"
    using assms(2,6) by (auto simp: scan_to_sign_def split: if_splits)
  have fits: "0 \<le> row_home_team_score r" "row_home_team_score r < 2 ^ 31"
    "0 \<le> row_away_team_score r" "row_away_team_score r < 2 ^ 31"
    using assms(1) by (simp_all add: row_ok_defs int4_def)
  note ok = signature_recovered [OF assms(3,4,5) sm(1) assms(7), unfolded sm(2,3) ucast_score64]
  show "row_home_team_score r \<le> 255" "row_away_team_score r \<le> 255"
    using ok fits score_of_int64 by blast+
  show "validateSignature o_env i (word_of_int (row_home_team_score r)) (word_of_int (row_away_team_score r)) sig reg = Inr ()"
    using ok by (simp add: validateSignature_def Let_def)
qed

section \<open>Properties\<close>

text \<open>
  C10: What the contract answers about a finished row of any reachable database, once the signer has
  signed it and the relayer has built its calldata: with the registries as deployed, the authorized
  signer's key and EIP-712 implemented alike on both sides, the identifier, the registered ids and
  the signature are always accepted, so the result is recorded, with the scores of the row, unless
  a team plays itself, the date is not between 2010 and 2100, a score is over 80, or the match has
  been submitted before.
\<close>

theorem contract_answer:
  assumes "reachable k client cfg t" and "r \<in> set (matches t)" and "row_status r = 3" and "sign_row s key c r \<noteq> r"
    and "year_of (row_start r) \<le> 9999"
    and "\<And>bs. length bs = 32 \<Longrightarrow> hex_to_hash e (hex_encode bs) = bs"
    and "\<And>bs. length (k bs) = 32" and "o_keccak o_env = k"
    and "eip712_agree s c o_env" and "recovers s key o_env (authorizedSigner reg)"
    and "new_CompetitionRegistry deployed_competition_names = Inr cs" and "new_TeamRegistry deployed_team_names = Inr ts"
  shows "\<exists>m mid. scan_signed (sign_row s key c r) = Some m \<and>
    call_submitMatch o_env cs ts (submit_args e m) reg = Some
      (let hs = word_of_int (row_home_team_score r); as = word_of_int (row_away_team_score r) in
       if rm_HomeTeamID m = rm_AwayTeamID m then Inl (InvalidTeams (rm_HomeTeamID m) (rm_AwayTeamID m))
       else if date_number (row_start r) < 20100101 \<or> date_number (row_start r) > 21001231
       then Inl (InvalidMatchDate (rm_Start m))
       else if 80 < row_home_team_score r \<or> 80 < row_away_team_score r then Inl (InvalidScores hs as)
       else if om_matchId (submitted reg mid) \<noteq> zero_bytes32 then Inl (MatchAlreadySubmitted mid)
       else Inr (reg\<lparr>submitted := (submitted reg)(mid := \<lparr>om_matchId = mid, om_homeTeamScore = hs, om_awayTeamScore = as\<rparr>),
                     o_events := o_events reg @ [MatchRegistered mid hs as]\<rparr>))"
    (is "\<exists>m mid. _ m \<and> _ m = Some (?answer m mid)")
proof -
  have ok: "row_ok k r" using reachable_inv [OF assms(1)] assms(2) by (simp add: db_inv_def)
  obtain sm sig where sm: "scan_to_sign r = Some sm"
    "sign_typed s (match_message oracle_types (oracle_domain (s_getenv s) c) sm) key = Inr (hex_encode sig)"
    "sign_row s key c r = r\<lparr>row_signature := Some (hex_encode sig), row_status := Signed\<rparr>"
    using assms(3,4) by (rule sign_row_signed)
  obtain m where m: "scan_signed (sign_row s key c r) = Some m" "rm_Signature m = sig"
    "rm_CompetitionID m = word_of_int (row_competition_id r)" "rm_HomeTeamID m = word_of_int (row_home_team_id r)"
    "rm_AwayTeamID m = word_of_int (row_away_team_id r)" "rm_Start m = word_of_int (date_number (row_start r))"
    "ucast (rm_HomeTeamScore m) = (word_of_int (row_home_team_score r) :: uint8)"
    "ucast (rm_AwayTeamScore m) = (word_of_int (row_away_team_score r) :: uint8)"
    using sm(3) by (rule signed_row_scan)
  define mid where "mid = k (packed_match (rm_CompetitionID m) (rm_HomeTeamID m) (rm_AwayTeamID m) (rm_Start m))"
  note canon = row_canonical [OF ok assms(5), folded m(3-6), folded mid_def]
  have len: "length mid = 32" by (simp add: mid_def assms(7))
  note valid = signed_row_valid [OF ok sm(1,2) assms(9,10) canon(2) len]
  have start: "row_start (sign_row s key c r) = row_start r" by (simp add: sm(3))
  have args: "submit_args e m = [AbiBytes32 mid, AbiUint32 (rm_CompetitionID m), AbiUint32 (rm_HomeTeamID m),
      AbiUint32 (rm_AwayTeamID m), AbiUint8 (word_of_int (row_home_team_score r)),
      AbiUint8 (word_of_int (row_away_team_score r)), AbiUint32 (rm_Start m), AbiBytes sig]"
    using submit_args_identity [OF sign_row_ok [OF ok] m(1), of e] assms(5-7) start m(2,7,8)
    by (simp add: hash_codec_def mid_def)
  have ids: "competitions cs (rm_CompetitionID m) \<noteq> []" "teams ts (rm_HomeTeamID m) \<noteq> []"
    "teams ts (rm_AwayTeamID m) \<noteq> []"
    using ok known_team_registered [OF assms(12)] known_competition_registered [OF assms(11)] m(3-5)
    by (simp_all add: row_ok_def row_sound_def)
  have limits: "(word_of_int (row_home_team_score r) :: uint8) > MAX_SCORE \<longleftrightarrow> 80 < row_home_team_score r"
    "(word_of_int (row_away_team_score r) :: uint8) > MAX_SCORE \<longleftrightarrow> 80 < row_away_team_score r"
    using ok valid(1,2) by (intro score_limit; simp add: row_ok_def row_sound_def)+
  have dates: "rm_Start m < 20100101 \<or> 21001231 < rm_Start m \<longleftrightarrow>
      date_number (row_start r) < 20100101 \<or> date_number (row_start r) > 21001231"
    using date_limits [OF canon(1) assms(5)] m(6) by simp
  have "o_keccak o_env (encode_packed (rm_CompetitionID m) (rm_HomeTeamID m) (rm_AwayTeamID m) (rm_Start m)) = mid"
    by (simp add: encode_packed_eq mid_def assms(8))
  with ids dates limits valid(3) have "submitMatch o_env cs ts mid (rm_CompetitionID m) (rm_HomeTeamID m) (rm_AwayTeamID m)
      (word_of_int (row_home_team_score r)) (word_of_int (row_away_team_score r)) (rm_Start m) sig reg = ?answer m mid"
    by (simp only: submitMatch_def Let_def simp_thms not_True_eq_False not_False_eq_True if_True if_False sum.case refl)
  with m(1) args show ?thesis by (auto simp: call_submitMatch_def)
qed

text \<open>An instance of both libraries: the struct hash is computed from the message.\<close>

definition settle_oracle :: oracle_env where
  "settle_oracle = \<lparr>o_keccak = keccak sample_env,
     hash_typed_data = (\<lambda>h. s_keccak quiet_signer ([0x19, 0x01] @ [1] @ h)),
     recover_calldata = (\<lambda>_ sig. if length sig = 65 then Inr 7 else Inl ''ECDSAInvalidSignatureLength'')\<rparr>"

definition settle_hash_struct :: "typed_data \<Rightarrow> string \<Rightarrow> typed_message \<Rightarrow> (string, byte list) result" where
  "settle_hash_struct td name msg =
     (if name = ''EIP712Domain'' then Inr [1]
      else (case map snd msg of
              [TypedString i, TypedInt h, TypedInt a] \<Rightarrow>
                (case hex_decode (drop 2 i) of
                   Inl _ \<Rightarrow> Inl ''invalid hex''
                 | Inr bs \<Rightarrow>
                     if 0 \<le> h \<and> h \<le> 255 \<and> 0 \<le> a \<and> a \<le> 255
                     then Inr (match_struct_hash settle_oracle bs (word_of_int h) (word_of_int a))
                     else Inl ''integer larger than uint8'')
            | _ \<Rightarrow> Inl ''type mismatch''))"

definition settle_signer :: signer_env where
  "settle_signer = quiet_signer\<lparr>hash_struct := settle_hash_struct\<rparr>"

lemma small_score:
  fixes w :: go_uint
  assumes "0 \<le> sint w" and "sint w \<le> 255"
  shows "w \<le> 255" and "(scast w :: uint8) = ucast w"
proof -
  have w: "w = word_of_int (sint w)" by simp
  have "uint w = sint w"
    by (subst w) (use assms in \<open>simp only: uint_word_of_int_eq\<close>, simp add: take_bit_int_eq_self)
  then show "(scast w :: uint8) = ucast w" by (simp only: scast_eq ucast_eq)
  from \<open>uint w = sint w\<close> show "w \<le> 255" using assms(2) by (simp add: word_le_def)
qed

lemma settle_agree: "eip712_agree settle_signer c settle_oracle"
  unfolding eip712_agree_def Let_def
  by (auto simp: settle_signer_def settle_hash_struct_def settle_oracle_def match_message_def Let_def
      ORACLE_MATCH_STRUCT_NAME_def hex_encode_no_prefix hex_decode_encode small_score quiet_signer_def split: if_splits)

lemma settle_recovers: "recovers settle_signer sample_key settle_oracle 7"
  by (auto simp: recovers_def settle_signer_def settle_oracle_def quiet_signer_def)

definition settleable :: "match_row \<Rightarrow> bool" where
  "settleable r \<longleftrightarrow>
     row_status r = 3 \<and> row_status (sign_row settle_signer sample_key 11155111 r) = 4 \<and> year_of (row_start r) \<le> 9999 \<and>
     (word_of_int (row_home_team_id r) :: int32) \<noteq> word_of_int (row_away_team_id r) \<and>
     20100101 \<le> date_number (row_start r) \<and> date_number (row_start r) \<le> 21001231 \<and>
     row_home_team_score r \<le> 80 \<and> row_away_team_score r \<le> 80"

lemma synced_settleable:
  obtains r where "matches synced_tables = [r]" "settleable r"
proof -
  have "settleable synced_row" by code_simp
  then show thesis using that sample_sync(2) by (simp add: synced_tables_def)
qed

theorem contract_answer_witness:
  "\<exists>cs ts r m reg. new_CompetitionRegistry deployed_competition_names = Inr cs \<and>
     new_TeamRegistry deployed_team_names = Inr ts \<and> matches synced_tables = [r] \<and>
     scan_signed (sign_row settle_signer sample_key 11155111 r) = Some m \<and>
     call_submitMatch settle_oracle cs ts (submit_args quiet_relayer m) fresh_registry = Some (Inr reg)"
proof -
  obtain cs where cs: "new_CompetitionRegistry deployed_competition_names = Inr cs" by (rule deployed_competitions)
  obtain ts where ts: "new_TeamRegistry deployed_team_names = Inr ts" by (rule deployed_teams)
  obtain r where r: "matches synced_tables = [r]" "settleable r" by (rule synced_settleable)
  have st: "row_status r = 3" "sign_row settle_signer sample_key 11155111 r \<noteq> r" "year_of (row_start r) \<le> 9999"
    using r(2) by (auto simp: settleable_def)
  have reach: "reachable (keccak sample_env) mock_client sample_cfg synced_tables"
    unfolding reachable_def synced_tables_def using sample_sync_step by (rule r_into_rtranclp)
  have fresh: "authorizedSigner fresh_registry = 7" "om_matchId (submitted fresh_registry i) = zero_bytes32" for i
    by (simp_all add: fresh_registry_def new_MatchRegistry_def no_match_def)
  obtain m sig where m: "scan_signed (sign_row settle_signer sample_key 11155111 r) = Some m"
    "rm_HomeTeamID m = word_of_int (row_home_team_id r)" "rm_AwayTeamID m = word_of_int (row_away_team_id r)"
    by (rule sign_row_signed [OF st(1,2)]) (rule signed_row_scan, assumption, blast)
  have "\<exists>mid. call_submitMatch settle_oracle cs ts (submit_args quiet_relayer m) fresh_registry =
      Some (Inr (fresh_registry\<lparr>submitted := (submitted fresh_registry)(mid := \<lparr>om_matchId = mid,
        om_homeTeamScore = word_of_int (row_home_team_score r), om_awayTeamScore = word_of_int (row_away_team_score r)\<rparr>),
        o_events := o_events fresh_registry @
          [MatchRegistered mid (word_of_int (row_home_team_score r)) (word_of_int (row_away_team_score r))]\<rparr>))"
    using contract_answer [OF reach _ st, of quiet_relayer settle_oracle fresh_registry cs ts] r m cs ts settle_agree
      settle_recovers fresh
    by (auto simp: settleable_def Let_def quiet_relayer_def hex_decode_encode settle_oracle_def sample_env_def quiet_env_def)
  with cs ts r(1) m(1) show ?thesis by blast
qed

end
