(* ===== verification/Interleaving.thy ===== *)
theory Interleaving
  imports Settlement
begin

text \<open>
  The programs at the same time. The database executes one statement after the other, but between two
  statements of one program the others may run theirs: here any number of runs of the provider, the
  signer and the relayer interleave at the statements. What a run has read and not yet written is
  part of the state.
\<close>

section \<open>Statements as steps\<close>

text \<open>
  The tables, the matches some signer has read and may still sign, and those some relayer has read and
  may still mark.
\<close>

record shared =
  sh_db :: tables
  sh_to_sign :: "SignerMatch set"
  sh_to_send :: "RelayerMatch set"

definition idle :: "tables \<Rightarrow> shared" where
  "idle t = \<lparr>sh_db = t, sh_to_sign = {}, sh_to_send = {}\<rparr>"

definition exec_on :: "statement \<Rightarrow> shared \<Rightarrow> shared" where
  "exec_on stmt \<sigma> = \<sigma>\<lparr>sh_db := run_statement stmt (sh_db \<sigma>)\<rparr>"

definition finished_scans :: "tables \<Rightarrow> SignerMatch set" where
  "finished_scans t = {m. \<exists>r \<in> set (matches t). row_status r = SignerFinished \<and> scan_to_sign r = Some m}"

definition signed_scans :: "tables \<Rightarrow> RelayerMatch set" where
  "signed_scans t = {m. \<exists>r \<in> set (matches t). row_status r = SIGNED_STATUS \<and> scan_signed r = Some m}"

text \<open>
  A transaction of the reconciliation commits in one step; every other step is one statement. A
  statement that fails, or is lost, changes nothing.
\<close>

inductive statement_step :: "(byte list \<Rightarrow> byte list) \<Rightarrow> shared \<Rightarrow> shared \<Rightarrow> bool" for k where
  save_stmt: "ts_faithful (e :: provider_env) \<Longrightarrow> delivered k p m \<Longrightarrow> known_competition (CompetitionID m) \<Longrightarrow>
    Status m = Finished \<Longrightarrow> statement_step k \<sigma> (exec_on (upsert_match now (match_to_row e m)) \<sigma>)"
| commit_tx: "ts_faithful (e :: provider_env) \<Longrightarrow> delivered k p m \<Longrightarrow> known_competition (CompetitionID m) \<Longrightarrow>
    Status m = Finished \<Longrightarrow> saved_and_removed e now m i (sh_db \<sigma>) t \<Longrightarrow> statement_step k \<sigma> (\<sigma>\<lparr>sh_db := t\<rparr>)"
| queue_stmt: "statement_step k \<sigma> (exec_on (enqueue_recon i pmid p) \<sigma>)"
| tries_stmt: "statement_step k \<sigma> (\<sigma>\<lparr>sh_db := (sh_db \<sigma>)\<lparr>match_reconciliation :=
    bump_queue now i (match_reconciliation (sh_db \<sigma>))\<rparr>\<rparr>)"
| date_stmt: "statement_step k \<sigma> (exec_on (upsert_sync now r) \<sigma>)"
| read_finished: "statement_step k \<sigma> (\<sigma>\<lparr>sh_to_sign := sh_to_sign \<sigma> \<union> finished_scans (sh_db \<sigma>)\<rparr>)"
| sign_stmt: "m \<in> sh_to_sign \<sigma> \<Longrightarrow>
    fst (SignMatch (s :: signer_env) m key c no_globals) = Inr x \<Longrightarrow>
    statement_step k \<sigma> (exec_on (store_signature (sm_ID m) x Signed) \<sigma>)"
| read_signed: "statement_step k \<sigma> (\<sigma>\<lparr>sh_to_send := sh_to_send \<sigma> \<union> signed_scans (sh_db \<sigma>)\<rparr>)"
| mark_stmt: "m \<in> sh_to_send \<sigma> \<Longrightarrow> statement_step k \<sigma> (exec_on (set_status (rm_ID m) BROADCASTED_STATUS) \<sigma>)"

inductive_cases statement_stepE: "statement_step k \<sigma> \<sigma>'"

abbreviation interleaved :: "(byte list \<Rightarrow> byte list) \<Rightarrow> shared \<Rightarrow> shared \<Rightarrow> bool" where
  "interleaved k \<equiv> (statement_step k)\<^sup>*\<^sup>*"

lemma exec_on_simps [simp]:
  "sh_db (exec_on stmt \<sigma>) = run_statement stmt (sh_db \<sigma>)"
  "sh_to_sign (exec_on stmt \<sigma>) = sh_to_sign \<sigma>" "sh_to_send (exec_on stmt \<sigma>) = sh_to_send \<sigma>"
  by (simp_all add: exec_on_def)

lemma idle_simps [simp]: "sh_db (idle t) = t" "sh_to_sign (idle t) = {}" "sh_to_send (idle t) = {}"
  by (simp_all add: idle_def)

section \<open>A run alone is such a sequence\<close>

text \<open>A database call either does nothing or executes its statement.\<close>

lemma db_exec_step:
  assumes "interleaved k \<sigma> (\<tau>\<lparr>sh_db := w_db w\<rparr>)"
    and "statement_step k (\<tau>\<lparr>sh_db := w_db w\<rparr>) (exec_on stmt (\<tau>\<lparr>sh_db := w_db w\<rparr>))"
  shows "interleaved k \<sigma> (\<tau>\<lparr>sh_db := w_db (snd (db_exec e stmt w))\<rparr>)"
proof -
  have "exec_on stmt (\<tau>\<lparr>sh_db := w_db w\<rparr>) = \<tau>\<lparr>sh_db := run_statement stmt (w_db w)\<rparr>" by (simp add: exec_on_def)
  with assms rtranclp.rtrancl_into_rtrancl [OF assms] db_exec_db [of e stmt w] show ?thesis by auto
qed

lemma sync_interleaves:
  assumes "ts_faithful (e :: provider_env)" and "keccak e = k" and "Sync e provider competition clock w = (r, w')"
  shows "interleaved k (idle (w_db w)) (idle (w_db w'))"
proof -
  let ?I = "\<lambda>t. interleaved k (idle (w_db w)) ((idle (w_db w))\<lparr>sh_db := t\<rparr>)"
  have "?I (w_db w')"
  proof (rule Sync_invariant [where I = ?I, OF assms(3)])
    show "?I (w_db w)" by (simp add: idle_def)
    show "?I (w_db (snd (Save e m v)))"
      if "delivered (keccak e) p m" "known_competition (CompetitionID m)" "Status m = Finished" "?I (w_db v)" for m p v
      using that assms(1,2) by (auto simp: Save_def intro: db_exec_step save_stmt)
    show "?I (w_db (snd (SaveToReconciliationQueue e pmid p v)))" if "?I (w_db v)" for pmid p v
      using that by (auto simp: SaveToReconciliationQueue_def intro: db_exec_step queue_stmt)
    show "?I (w_db (snd (UpdateLastSyncedDate e c p d v)))" if "?I (w_db v)" for c p d v
      using that by (auto simp: UpdateLastSyncedDate_def intro: db_exec_step date_stmt)
  qed
  then show ?thesis by (simp add: idle_def)
qed

lemma reconcile_interleaves:
  assumes "ts_faithful (e :: provider_env)" and "keccak e = k" and "Reconcile e w = Some (r, w')" and "wf_tables (w_db w)"
  shows "interleaved k (idle (w_db w)) (idle (w_db w'))"
proof -
  let ?P = "\<lambda>t. interleaved k (idle (w_db w)) (idle t)"
  have "?P (w_db w')"
  proof (rule Reconcile_pending_invariant [where P = ?P, OF assms(3)])
    show "wf_tables (w_db w)" "?P (w_db w)" using assms(4) by simp_all
    fix en and v :: world
    assume P: "?P (w_db v)"
    have "statement_step k (idle (w_db v)) (idle (w_db (reconcile_entry e en v))) \<or> w_db (reconcile_entry e en v) = w_db v"
    proof (cases rule: reconcile_entry_db [where e = e and en = en and w = v])
      case (bumped now)
      then show ?thesis using tries_stmt [of k "idle (w_db v)" now "EntryID en"] by (simp add: idle_def)
    next
      case (moved src m now v1)
      have "delivered (keccak e) (GetProviderEntity src) m \<and> known_competition (CompetitionID m)"
        using data_source.by_id_delivered [OF getProvider_source [OF moved(1)], of "EntryProviderMatchID en" v m] moved(2)
        by simp
      then have "statement_step k (idle (w_db v)) ((idle (w_db v))\<lparr>sh_db := w_db (reconcile_entry e en v)\<rparr>)"
        using moved(3,4) assms(1,2) by (intro commit_tx [where e = e]) auto
      then show ?thesis by (simp add: idle_def)
    qed simp
    then show "?P (w_db (reconcile_entry e en v))" using P by (metis rtranclp.rtrancl_into_rtrancl)
  qed
  then show ?thesis by simp
qed

text \<open>The loops of the signer and the relayer, from the matches they have read.\<close>

lemma sign_one_interleaves:
  assumes "globals_for e c g" and "sign_one (e :: signer_env) key c m (g, w) = (g', w')" and "m \<in> sh_to_sign \<tau>"
    and "interleaved k \<sigma> (\<tau>\<lparr>sh_db := w_db w\<rparr>)"
  shows "globals_for e c g' \<and> interleaved k \<sigma> (\<tau>\<lparr>sh_db := w_db w'\<rparr>)"
proof -
  obtain r g1 where sm: "SignMatch e m key c g = (r, g1)" by (cases "SignMatch e m key c g")
  have r: "fst (SignMatch e m key c no_globals) = r" and g1: "globals_for e c g1"
    using SignMatch_globals [OF assms(1), of m key] sm by simp_all
  show ?thesis
  proof (cases r)
    case (Inl err)
    with assms(2,4) sm g1 show ?thesis by (auto simp: sign_one_def)
  next
    case (Inr x)
    have "statement_step k (\<tau>\<lparr>sh_db := w_db w\<rparr>) (exec_on (store_signature (sm_ID m) x Signed) (\<tau>\<lparr>sh_db := w_db w\<rparr>))"
      by (rule sign_stmt [where s = e and key = key and c = c]) (use assms(3) r Inr in simp_all)
    from db_exec_step [OF assms(4) this, of e] have "interleaved k \<sigma> (\<tau>\<lparr>sh_db := w_db (snd (StoreSignature e m x w))\<rparr>)"
      by (cases "db_exec e (store_signature (sm_ID m) x Signed) w") (auto simp: StoreSignature_def split: sum.split)
    moreover have "w_db w' = w_db (snd (StoreSignature e m x w))" "g' = g1"
      using assms(2) sm Inr by (auto simp: sign_one_def split: prod.splits sum.splits)
    ultimately show ?thesis using g1 by simp
  qed
qed

lemma sign_all_interleaves:
  assumes "globals_for e c g" and "sign_all (e :: signer_env) key c ms (g, w) = (g', w')" and "set ms \<subseteq> sh_to_sign \<tau>"
    and "interleaved k \<sigma> (\<tau>\<lparr>sh_db := w_db w\<rparr>)"
  shows "interleaved k \<sigma> (\<tau>\<lparr>sh_db := w_db w'\<rparr>)"
  using assms
proof (induction ms arbitrary: g w)
  case (Cons m ms)
  obtain g1 w1 where one: "sign_one e key c m (g, w) = (g1, w1)" by (cases "sign_one e key c m (g, w)")
  from sign_one_interleaves [OF Cons.prems(1) one _ Cons.prems(4)] Cons.prems(3)
  have "globals_for e c g1" "interleaved k \<sigma> (\<tau>\<lparr>sh_db := w_db w1\<rparr>)" by auto
  moreover have "sign_all e key c ms (g1, w1) = (g', w')" using Cons.prems(2) one by simp
  ultimately show ?case using Cons.IH Cons.prems(3) by auto
qed simp

lemma FindMatchesToSign_scans:
  assumes "FindMatchesToSign e w = (Inr ms, w1)" and "faithful_order e"
  shows "w_db w1 = w_db w \<and> set ms \<subseteq> finished_scans (w_db w)"
proof -
  define rows where "rows = heap_order e (w_tick w) (filter (\<lambda>r. row_status r = SignerFinished) (matches (w_db w)))"
  from assms(1) have ms: "ms = List.map_filter scan_to_sign rows" and db: "w_db w1 = w_db w"
    by (auto simp: FindMatchesToSign_def db_query_def rows_def split: if_splits)
  have "mset rows = mset (filter (\<lambda>r. row_status r = SignerFinished) (matches (w_db w)))"
    using assms(2) by (simp add: faithful_order_def rows_def)
  from arg_cong [OF this, of set_mset] have "set rows = {r \<in> set (matches (w_db w)). row_status r = SignerFinished}"
    by simp
  with db show ?thesis unfolding ms finished_scans_def by (auto simp: scan_set)
qed

lemma signer_interleaves:
  assumes "faithful_order (e :: signer_env)" and "signer_Run e (Some db) (no_globals, w) = (code, g, w')"
  shows "\<exists>S. interleaved k (idle (w_db w)) ((idle (w_db w'))\<lparr>sh_to_sign := S\<rparr>)"
  using assms(2)
proof (cases rule: signer_Run_cases)
  case idle
  then have "interleaved k (idle (w_db w)) ((idle (w_db w'))\<lparr>sh_to_sign := {}\<rparr>)" by (simp add: idle_def)
  then show ?thesis ..
next
  case (loop ms w1 key c)
  note read = FindMatchesToSign_scans [OF loop(1) assms(1)]
  let ?\<tau> = "(idle (w_db w))\<lparr>sh_to_sign := finished_scans (w_db w)\<rparr>"
  have "statement_step k (idle (w_db w)) ?\<tau>"
    using read_finished [of k "idle (w_db w)"] by simp
  then have "interleaved k (idle (w_db w)) (?\<tau>\<lparr>sh_db := w_db w1\<rparr>)"
    using read by (simp add: idle_def r_into_rtranclp)
  from sign_all_interleaves [OF globals_for_none loop(4) _ this] read
  have "interleaved k (idle (w_db w)) (?\<tau>\<lparr>sh_db := w_db w'\<rparr>)" by simp
  then show ?thesis by (auto simp: idle_def)
qed

lemma broadcasts_interleave:
  assumes "BroadcastMatches e client cfg (Some db) ms c w = Some (n, c', w')" and "set ms \<subseteq> sh_to_send \<tau>"
    and "interleaved k \<sigma> (\<tau>\<lparr>sh_db := w_db w\<rparr>)"
  shows "interleaved k \<sigma> (\<tau>\<lparr>sh_db := w_db w'\<rparr>)"
  using assms
proof (induction ms arbitrary: n c w)
  case (Cons m ms)
  from Cons.prems(1) obtain f c1 w1 j where one: "broadcast_one e client cfg (Some db) m c w = Some (f, c1, w1)"
    and rest: "BroadcastMatches e client cfg (Some db) ms c1 w1 = Some (j, c', w')"
    by (rule BroadcastMatches_step)
  have run: "exec_on (set_status (rm_ID m) BROADCASTED_STATUS) (\<tau>\<lparr>sh_db := t\<rparr>) =
      \<tau>\<lparr>sh_db := t\<lparr>matches := mark_broadcasted (rm_ID m) (matches t)\<rparr>\<rparr>" for t
    by (simp add: exec_on_def run_statement_def set_status_def mark_broadcasted_def int4_def BROADCASTED_STATUS_def)
  have step: "statement_step k (\<tau>\<lparr>sh_db := w_db w\<rparr>) (exec_on (set_status (rm_ID m) BROADCASTED_STATUS) (\<tau>\<lparr>sh_db := w_db w\<rparr>))"
    by (rule mark_stmt) (use Cons.prems(2) in simp)
  have "interleaved k \<sigma> (\<tau>\<lparr>sh_db := w_db w1\<rparr>)"
    using broadcast_one_cases(1) [OF one] Cons.prems(3) rtranclp.rtrancl_into_rtrancl [OF Cons.prems(3) step, unfolded run]
    by auto
  then show ?case using Cons.IH [OF rest] Cons.prems(2) by simp
qed simp

lemma relayer_interleaves:
  assumes "faithful_order rel" and "relayer_Run rel (drv :: 'db sql_driver) client cfg c w = Some (code, c', w')"
  shows "\<exists>R. interleaved k (idle (w_db w)) ((idle (w_db w'))\<lparr>sh_to_send := R\<rparr>)"
  using assms(2)
proof (cases rule: relayer_Run_cases)
  case idle
  then have "interleaved k (idle (w_db w)) ((idle (w_db w'))\<lparr>sh_to_send := {}\<rparr>)" by (simp add: idle_def)
  then show ?thesis ..
next
  case (loop db ms w1 n)
  have ms: "set ms \<subseteq> signed_scans (w_db w)"
    using FindSignedMatches_ok(2) [OF loop(1) assms(1)] by (auto simp: signed_scans_def)
  let ?\<tau> = "(idle (w_db w))\<lparr>sh_to_send := signed_scans (w_db w)\<rparr>"
  have "statement_step k (idle (w_db w)) ?\<tau>"
    using read_signed [of k "idle (w_db w)"] by simp
  then have "interleaved k (idle (w_db w)) (?\<tau>\<lparr>sh_db := w_db w1\<rparr>)"
    using loop(2) by (simp add: idle_def r_into_rtranclp)
  from broadcasts_interleave [OF loop(3) _ this] ms
  have "interleaved k (idle (w_db w)) (?\<tau>\<lparr>sh_db := w_db w'\<rparr>)" by simp
  then show ?thesis by (auto simp: idle_def)
qed

section \<open>What every interleaving keeps\<close>

text \<open>A row that has a signature never loses it, whatever statement runs.\<close>

definition has_signature :: "tables \<Rightarrow> uuid \<Rightarrow> bool" where
  "has_signature t i \<longleftrightarrow> (\<exists>r \<in> set (matches t). row_id r = i \<and> row_signature r \<noteq> None)"

lemma has_signature_map:
  assumes "has_signature t i" and "matches t' = map f (matches t)"
    and "\<And>r. row_id (f r) = row_id r" and "\<And>r. row_signature r \<noteq> None \<Longrightarrow> row_signature (f r) \<noteq> None"
  shows "has_signature t' i"
  using assms unfolding has_signature_def by auto

lemma upsert_has_signature:
  assumes "upsert_match now x t = Inr (n, t')" and "has_signature t i"
  shows "has_signature t' i"
proof (cases "list_ex (\<lambda>y. match_key y = match_key x) (matches t)")
  case True
  with assms(1) have "matches t' = map (\<lambda>y. if match_key y = match_key x then overwrite_match now x y else y) (matches t)"
    by (auto simp: upsert_match_def split: if_splits)
  from assms(2) this show ?thesis
    by (rule has_signature_map) (simp_all add: overwrite_match_def)
next
  case False
  with assms(1) have "matches t' = matches t @ [column_defaults now x]" by (auto simp: upsert_match_def split: if_splits)
  with assms(2) show ?thesis by (auto simp: has_signature_def)
qed

lemma run_statement_cases: "(\<And>n t'. stmt t = Inr (n, t') \<Longrightarrow> P t') \<Longrightarrow> P t \<Longrightarrow> P (run_statement stmt t)"
  by (auto simp: run_statement_def split: sum.split)

definition shared_inv :: "(byte list \<Rightarrow> byte list) \<Rightarrow> shared \<Rightarrow> bool" where
  "shared_inv k \<sigma> \<longleftrightarrow>
     wf_tables (sh_db \<sigma>) \<and> (\<forall>r \<in> set (matches (sh_db \<sigma>)). row_ok k r) \<and>
     (\<forall>m \<in> sh_to_send \<sigma>. has_signature (sh_db \<sigma>) (rm_ID m))"

text \<open>A step that leaves the matches alone, and a step that rewrites the rows with one id.\<close>

lemma shared_inv_same_matches:
  assumes "shared_inv k \<sigma>" and "matches t = matches (sh_db \<sigma>)" and "wf_tables t"
  shows "shared_inv k (\<sigma>\<lparr>sh_db := t\<rparr>)"
  using assms by (simp add: shared_inv_def has_signature_def)

lemma shared_inv_update:
  assumes "shared_inv k \<sigma>" and "matches t = map f (matches (sh_db \<sigma>))" and "wf_tables t"
    and "\<And>r. row_id (f r) = row_id r" and "\<And>r. row_signature r \<noteq> None \<Longrightarrow> row_signature (f r) \<noteq> None"
    and "\<And>r. r \<in> set (matches (sh_db \<sigma>)) \<Longrightarrow> row_ok k r \<Longrightarrow> row_ok k (f r)"
  shows "shared_inv k (\<sigma>\<lparr>sh_db := t\<rparr>)"
proof -
  have "\<forall>r \<in> set (matches t). row_ok k r" using assms(1,2,6) by (auto simp: shared_inv_def)
  moreover have "has_signature t (rm_ID m)" if "m \<in> sh_to_send \<sigma>" for m
    using assms(1) that has_signature_map [OF _ assms(2,4,5)] by (simp add: shared_inv_def)
  ultimately show ?thesis using assms(3) by (simp add: shared_inv_def)
qed

lemma shared_inv_upsert:
  assumes "shared_inv k \<sigma>" and "ts_faithful e" and "delivered k p m" and "known_competition (CompetitionID m)"
    and "Status m = Finished" and "upsert_match now (match_to_row e m) (sh_db \<sigma>) = Inr (n, t)"
  shows "shared_inv k (\<sigma>\<lparr>sh_db := t\<rparr>)"
proof -
  have "row_sound k (match_to_row e m)" "row_status (match_to_row e m) = Finished"
    using match_to_row_ok [OF assms(2-5)] assms(5) by (simp_all add: match_to_row_def)
  with upsert_match_inv [OF assms(6)] assms(1) have "\<forall>r \<in> set (matches t). row_ok k r"
    by (simp add: shared_inv_def)
  moreover have "wf_tables t"
    using upsert_match.stmt_wf [OF _ assms(6)] assms(1) by (simp add: shared_inv_def)
  ultimately show ?thesis using upsert_has_signature [OF assms(6)] assms(1) by (simp add: shared_inv_def)
qed

lemma shared_inv_commit:
  assumes "shared_inv k \<sigma>" and "ts_faithful e" and "delivered k p m" and "known_competition (CompetitionID m)"
    and "Status m = Finished" and "saved_and_removed e now m i (sh_db \<sigma>) t"
  shows "shared_inv k (\<sigma>\<lparr>sh_db := t\<rparr>)"
proof -
  from assms(6) obtain n t1 where t1: "upsert_match now (match_to_row e m) (sh_db \<sigma>) = Inr (n, t1)"
    "t = t1\<lparr>match_reconciliation := drop_queue i (match_reconciliation (sh_db \<sigma>))\<rparr>"
    by (auto simp: saved_and_removed_def)
  have inv1: "shared_inv k (\<sigma>\<lparr>sh_db := t1\<rparr>)" using shared_inv_upsert [OF assms(1-5) t1(1)] .
  have "wf_tables t"
    using inv1 upsert_match_other [OF t1(1)] unfolding t1(2)
    by (auto simp: shared_inv_def wf_tables_def drop_queue_def intro: distinct_map_filter)
  with shared_inv_same_matches [OF inv1, of t] t1(2) show ?thesis by simp
qed

lemma shared_inv_sign:
  assumes "shared_inv k \<sigma>"
  shows "shared_inv k (exec_on (store_signature i x Signed) \<sigma>)"
proof (cases "varchar255 x")
  case True
  then have rows: "matches (run_statement (store_signature i x Signed) (sh_db \<sigma>)) =
      map (\<lambda>r. if row_id r = i then r\<lparr>row_signature := Some x, row_status := Signed\<rparr> else r) (matches (sh_db \<sigma>))"
    by (simp add: run_statement_def store_signature_def int4_def Signed_def)
  have "wf_tables (run_statement (store_signature i x Signed) (sh_db \<sigma>))"
    using assms store_signature.run_wf by (simp add: shared_inv_def)
  from shared_inv_update [OF assms rows this] show ?thesis
    unfolding exec_on_def by (simp add: row_ok_defs int4_def Signed_def)
next
  case False
  with assms show ?thesis unfolding exec_on_def by (simp add: run_statement_def store_signature_def)
qed

lemma shared_inv_mark:
  assumes "shared_inv k \<sigma>" and "m \<in> sh_to_send \<sigma>"
  shows "shared_inv k (exec_on (set_status (rm_ID m) BROADCASTED_STATUS) \<sigma>)"
proof -
  have wf: "wf_tables (run_statement (set_status (rm_ID m) BROADCASTED_STATUS) (sh_db \<sigma>))"
    using assms(1) set_status.run_wf by (simp add: shared_inv_def)
  have rows: "matches (run_statement (set_status (rm_ID m) BROADCASTED_STATUS) (sh_db \<sigma>)) =
      map (\<lambda>r. if row_id r = rm_ID m then r\<lparr>row_status := BROADCASTED_STATUS\<rparr> else r) (matches (sh_db \<sigma>))"
    by (simp add: run_statement_def set_status_def int4_def BROADCASTED_STATUS_def)
  have "row_ok k (r\<lparr>row_status := BROADCASTED_STATUS\<rparr>)"
    if "r \<in> set (matches (sh_db \<sigma>))" "row_ok k r" "row_id r = rm_ID m" for r
  proof -
    obtain z where z: "z \<in> set (matches (sh_db \<sigma>))" "row_id z = rm_ID m" "row_signature z \<noteq> None"
      using assms by (auto simp: shared_inv_def has_signature_def)
    have "inj_on row_id (set (matches (sh_db \<sigma>)))" using assms(1) by (simp add: shared_inv_def wf_tables_def distinct_map)
    then have "z = r" using z that by (simp add: inj_on_def)
    with z(3) that(2) show ?thesis by (simp add: row_ok_defs int4_def BROADCASTED_STATUS_def)
  qed
  with shared_inv_update [OF assms(1) rows wf] show ?thesis unfolding exec_on_def by simp
qed

lemma statement_step_inv:
  assumes "statement_step k \<sigma> \<sigma>'" and "shared_inv k \<sigma>"
  shows "shared_inv k \<sigma>'"
  using assms(1)
proof (cases rule: statement_step.cases)
  case (save_stmt e p m now)
  show ?thesis
    unfolding save_stmt(1) exec_on_def
    by (rule run_statement_cases) (use save_stmt assms(2) shared_inv_upsert in auto)
next
  case (commit_tx e p m now i t)
  then show ?thesis using shared_inv_commit [OF assms(2)] by blast
next
  case (queue_stmt i pmid p)
  have "wf_tables (run_statement (enqueue_recon i pmid p) (sh_db \<sigma>))"
    using assms(2) enqueue_recon.run_wf by (simp add: shared_inv_def)
  then show ?thesis
    unfolding queue_stmt exec_on_def
    by (intro shared_inv_same_matches [OF assms(2)])
      (auto simp: run_statement_def enqueue_recon_def split: sum.splits if_splits)
next
  case (tries_stmt now i)
  have "map rr_id (bump_queue now i q) = map rr_id q" "map recon_key (bump_queue now i q) = map recon_key q" for q
    by (auto simp: bump_queue_def increment_row_def recon_key_def)
  with assms(2) show ?thesis
    unfolding tries_stmt by (intro shared_inv_same_matches) (simp_all add: shared_inv_def wf_tables_def)
next
  case (date_stmt now r)
  have "wf_tables (run_statement (upsert_sync now r) (sh_db \<sigma>))"
    using assms(2) upsert_sync.run_wf by (simp add: shared_inv_def)
  then show ?thesis
    unfolding date_stmt exec_on_def
    by (intro shared_inv_same_matches [OF assms(2)])
      (auto simp: run_statement_def upsert_sync_def split: sum.splits if_splits)
next
  case read_finished
  with assms(2) show ?thesis by (simp add: shared_inv_def)
next
  case (sign_stmt m s key c x)
  from shared_inv_sign [OF assms(2)] show ?thesis unfolding sign_stmt(1) .
next
  case read_signed
  have "has_signature (sh_db \<sigma>) (rm_ID m)" if "m \<in> signed_scans (sh_db \<sigma>)" for m
    using that scan_signed_id by (fastforce simp: signed_scans_def has_signature_def)
  with assms(2) show ?thesis unfolding read_signed by (auto simp: shared_inv_def)
next
  case (mark_stmt m)
  from shared_inv_mark [OF assms(2) mark_stmt(2)] show ?thesis unfolding mark_stmt(1) .
qed

lemma interleaved_inv: "interleaved k \<sigma> \<sigma>' \<Longrightarrow> shared_inv k \<sigma> \<Longrightarrow> shared_inv k \<sigma>'"
  by (induction rule: rtranclp_induct) (auto intro: statement_step_inv)

section \<open>What no statement touches\<close>

text \<open>
  A row with the columns blanked that the services may write after it is inserted: its status, the
  scores, the signature and the time of the last change.
\<close>

definition row_identity :: "match_row \<Rightarrow> match_row" where
  "row_identity r = r\<lparr>row_status := 0, row_home_team_score := 0, row_away_team_score := 0, row_signature := None,
     row_updated_at := None\<rparr>"

lemma row_identity_simps [simp]:
  "row_identity (overwrite_match now x r) = row_identity r" "row_identity (r\<lparr>row_status := st\<rparr>) = row_identity r"
  "row_identity (r\<lparr>row_signature := sg\<rparr>) = row_identity r"
  by (simp_all add: row_identity_def overwrite_match_def)

lemma row_identity_eqD:
  assumes "row_identity r = row_identity r'"
  shows "row_id r = row_id r'" "row_canonical_id r = row_canonical_id r'" "match_key r = match_key r'"
  using arg_cong [OF assms, of row_id] arg_cong [OF assms, of row_canonical_id] arg_cong [OF assms, of match_key]
  by (simp_all add: row_identity_def match_key_def)

text \<open>Rows that are added have the defaults of the schema.\<close>

definition grown :: "tables \<Rightarrow> tables \<Rightarrow> bool" where
  "grown t t' \<longleftrightarrow> (\<exists>new. map row_identity (matches t') = map row_identity (matches t) @ new \<and>
     (\<forall>r \<in> set new. row_transaction_hash r = None))"

lemma grown_same: "map row_identity (matches t') = map row_identity (matches t) \<Longrightarrow> grown t t'"
  by (simp add: grown_def)

lemma grown_map: "matches t' = map f (matches t) \<Longrightarrow> (\<And>r. row_identity (f r) = row_identity r) \<Longrightarrow> grown t t'"
  by (rule grown_same) simp

lemma grown_trans: "grown t u \<Longrightarrow> grown u v \<Longrightarrow> grown t v"
  unfolding grown_def by (metis Un_iff append_assoc set_append)

lemma upsert_grown:
  assumes "upsert_match now x t = Inr (n, t')"
  shows "grown t t'"
proof (cases "list_ex (\<lambda>y. match_key y = match_key x) (matches t)")
  case True
  with assms have "matches t' = map (\<lambda>y. if match_key y = match_key x then overwrite_match now x y else y) (matches t)"
    by (auto simp: upsert_match_def split: if_splits)
  then show ?thesis by (rule grown_map) simp
next
  case False
  with assms have "matches t' = matches t @ [column_defaults now x]" by (auto simp: upsert_match_def split: if_splits)
  then show ?thesis by (simp add: grown_def row_identity_def column_defaults_def)
qed

lemma statement_step_grown:
  assumes "statement_step k \<sigma> \<sigma>'"
  shows "grown (sh_db \<sigma>) (sh_db \<sigma>')"
  using assms
proof (cases rule: statement_step.cases)
  case (save_stmt e p m now)
  show ?thesis
    unfolding save_stmt(1) exec_on_simps
    by (rule run_statement_cases) (auto intro: upsert_grown grown_same)
next
  case (commit_tx e p m now i t)
  then obtain n t1 where "upsert_match now (match_to_row e m) (sh_db \<sigma>) = Inr (n, t1)" "matches t = matches t1"
    by (auto simp: saved_and_removed_def)
  with upsert_grown commit_tx(1) show ?thesis by (fastforce simp: grown_def)
next
  case (sign_stmt m s key c x)
  show ?thesis
    unfolding sign_stmt(1) exec_on_simps
    by (rule run_statement_cases) (auto simp: store_signature_def intro: grown_map grown_same split: if_splits)
next
  case (mark_stmt m)
  show ?thesis
    unfolding mark_stmt(1) exec_on_simps
    by (rule run_statement_cases) (auto simp: set_status_def intro: grown_map grown_same split: if_splits)
qed (auto simp: run_statement_def enqueue_recon_def upsert_sync_def intro!: grown_same split: sum.splits if_splits)

lemma interleaved_grown: "interleaved k \<sigma> \<sigma>' \<Longrightarrow> grown (sh_db \<sigma>) (sh_db \<sigma>')"
  by (induction rule: rtranclp_induct) (auto intro: grown_same grown_trans statement_step_grown)

lemma grown_row:
  assumes "grown t t'" and "r \<in> set (matches t)"
  obtains r' where "r' \<in> set (matches t')" "row_identity r' = row_identity r"
proof -
  obtain new where new: "map row_identity (matches t') = map row_identity (matches t) @ new"
    using assms(1) unfolding grown_def by blast
  have "row_identity r \<in> set (map row_identity (matches t'))" unfolding new using assms(2) by simp
  with that show thesis by auto
qed

section \<open>Signatures in serial runs\<close>

text \<open>
  A deployment has one signer configuration: the environment variables (with the key, the chain id and
  the contract in them) and the hashing and signing libraries are the same in every run, while the
  database and its faults may be anything.
\<close>

definition same_signer :: "signer_env \<Rightarrow> signer_env \<Rightarrow> bool" where
  "same_signer dep s \<longleftrightarrow>
     s_getenv s = s_getenv dep \<and> s_keccak s = s_keccak dep \<and> s_to_ecdsa s = s_to_ecdsa dep \<and>
     hash_struct s = hash_struct dep \<and> domain_map s = domain_map dep \<and> ecdsa_sign s = ecdsa_sign dep"

lemma same_signer_SignMatch:
  assumes "same_signer dep s"
  shows "SignMatch s m key c g = SignMatch dep m key c g"
proof -
  have same: "s_getenv s = s_getenv dep" "s_keccak s = s_keccak dep" "hash_struct s = hash_struct dep"
    "domain_map s = domain_map dep" "ecdsa_sign s = ecdsa_sign dep"
    using assms by (simp_all add: same_signer_def)
  show ?thesis unfolding SignMatch_def sign_typed_def same ..
qed

text \<open>The steps of the system in which every signer run has that configuration.\<close>

inductive deployed_step ::
  "signer_env \<Rightarrow> (byte list \<Rightarrow> byte list) \<Rightarrow> 'c ChainClient \<Rightarrow> 'abi BroadcasterConfig \<Rightarrow> tables \<Rightarrow> tables \<Rightarrow> bool"
  for dep k client cfg where
  dep_sync: "keccak e = k \<Longrightarrow> ts_faithful (e :: provider_env) \<Longrightarrow> Sync e provider competition clock w = (r, w') \<Longrightarrow>
    deployed_step dep k client cfg (w_db w) (w_db w')"
| dep_reconcile: "keccak e = k \<Longrightarrow> ts_faithful (e :: provider_env) \<Longrightarrow> Reconcile e w = Some (r, w') \<Longrightarrow>
    deployed_step dep k client cfg (w_db w) (w_db w')"
| dep_sign: "same_signer dep s \<Longrightarrow> faithful_order s \<Longrightarrow> signer_Run s (Some ()) (no_globals, w) = (code, g, w') \<Longrightarrow>
    deployed_step dep k client cfg (w_db w) (w_db w')"
| dep_relay: "faithful_order (rel :: 'abi relayer_env) \<Longrightarrow>
    relayer_Run rel (drv :: unit sql_driver) client cfg c w = Some (code, c', w') \<Longrightarrow>
    deployed_step dep k client cfg (w_db w) (w_db w')"

inductive_cases deployed_stepE: "deployed_step dep k client cfg t t'"

lemma deployed_step_system: "deployed_step dep k client cfg t t' \<Longrightarrow> system_step k client cfg t t'"
  by (erule deployed_stepE) (auto intro: system_step.intros)

lemma deployed_reachable: "(deployed_step dep k client cfg)\<^sup>*\<^sup>* empty_tables t \<Longrightarrow> reachable k client cfg t"
  unfolding reachable_def by (rule rtranclp_mono [THEN predicate2D, rotated]) (auto intro: deployed_step_system)

text \<open>
  The signature of the row is the one the deployed signer makes, with its own key and chain id, for the
  identity and the scores the row has now.
\<close>

definition signed_by :: "signer_env \<Rightarrow> match_row \<Rightarrow> bool" where
  "signed_by dep r \<longleftrightarrow>
     (\<exists>key c m x. LoadPrivateKey (s_to_ecdsa dep) (s_getenv dep ''SIGNER_PRIVATE_KEY'') = Inr key \<and>
        LoadChainId (s_getenv dep) = Inr c \<and> scan_to_sign r = Some m \<and>
        fst (SignMatch dep m key c no_globals) = Inr x \<and> row_signature r = Some x)"

text \<open>A property of the rows that are past \<open>Finished\<close>; saving a match puts a row back there.\<close>

definition late_rows :: "(match_row \<Rightarrow> bool) \<Rightarrow> tables \<Rightarrow> bool" where
  "late_rows P t \<longleftrightarrow> (\<forall>r \<in> set (matches t). row_status r \<in> {Signed, BROADCASTED_STATUS} \<longrightarrow> P r)"

lemma upsert_late_rows:
  assumes "upsert_match now x t = Inr (n, t')" and "row_status x = Finished" and "late_rows P t"
  shows "late_rows P t'"
proof (cases "list_ex (\<lambda>y. match_key y = match_key x) (matches t)")
  case True
  with assms(1) have "matches t' = map (\<lambda>y. if match_key y = match_key x then overwrite_match now x y else y) (matches t)"
    by (auto simp: upsert_match_def split: if_splits)
  with assms(2,3) show ?thesis
    by (auto simp: late_rows_def overwrite_match_def Finished_def Signed_def BROADCASTED_STATUS_def)
next
  case False
  with assms(1) have "matches t' = matches t @ [column_defaults now x]" by (auto simp: upsert_match_def split: if_splits)
  with assms(2,3) show ?thesis
    by (auto simp: late_rows_def Finished_def Signed_def BROADCASTED_STATUS_def)
qed

lemma late_rows_same: "matches t' = matches t \<Longrightarrow> late_rows P t \<Longrightarrow> late_rows P t'"
  by (simp add: late_rows_def)

lemma Sync_late_rows:
  assumes "Sync e provider competition clock w = (r, w')" and "late_rows P (w_db w)"
  shows "late_rows P (w_db w')"
proof (rule Sync_invariant [where I = "late_rows P", OF assms])
  show "late_rows P (w_db (snd (Save e m v)))" if "Status m = Finished" "late_rows P (w_db v)" for m v
    using that db_exec_db [of e "upsert_match (db_now e (w_tick v)) (match_to_row e m)" v]
      upsert_late_rows [of "db_now e (w_tick v)" "match_to_row e m" "w_db v"]
    by (auto simp: Save_def run_statement_def match_to_row_def split: sum.splits)
  show "late_rows P (w_db (snd (SaveToReconciliationQueue e pmid p v)))" if "late_rows P (w_db v)" for pmid p v
    using that by (rule late_rows_same [rotated]) (simp add: SaveToReconciliationQueue_other)
  show "late_rows P (w_db (snd (UpdateLastSyncedDate e c p d v)))" if "late_rows P (w_db v)" for c p d v
    using that by (rule late_rows_same [rotated]) (simp add: UpdateLastSyncedDate_other)
qed

lemma Reconcile_late_rows:
  assumes "Reconcile e w = Some (r, w')" and "wf_tables (w_db w)" and "late_rows P (w_db w)"
  shows "late_rows P (w_db w')"
proof (rule Reconcile_pending_invariant [where P = "late_rows P", OF assms])
  fix en and v :: world assume "late_rows P (w_db v)"
  then show "late_rows P (w_db (reconcile_entry e en v))"
  proof (cases rule: reconcile_entry_db [where e = e and en = en and w = v])
    case (moved src m now v1)
    then obtain n t1 where "upsert_match now (match_to_row e m) (w_db v) = Inr (n, t1)"
      "matches (w_db (reconcile_entry e en v)) = matches t1" by (auto simp: saved_and_removed_def)
    with moved(3) \<open>late_rows P (w_db v)\<close> show ?thesis
      using upsert_late_rows late_rows_same by (metis match_row.select_convs(7) match_to_row_def)
  qed (auto intro: late_rows_same)
qed

lemma sign_row_signed_by:
  assumes "same_signer dep s" and "LoadPrivateKey (s_to_ecdsa s) (s_getenv s ''SIGNER_PRIVATE_KEY'') = Inr key"
    and "LoadChainId (s_getenv s) = Inr c" and "sign_row s key c r \<noteq> r"
  shows "signed_by dep (sign_row s key c r)"
proof -
  from assms(4) obtain m x where m: "scan_to_sign r = Some m" "fst (SignMatch s m key c no_globals) = Inr x"
    "sign_row s key c r = r\<lparr>row_signature := Some x, row_status := Signed\<rparr>"
    by (auto simp: sign_row_def split: if_splits option.splits sum.splits)
  moreover have "scan_to_sign (r\<lparr>row_signature := Some x, row_status := Signed\<rparr>) = scan_to_sign r"
    by (simp add: scan_to_sign_def)
  ultimately show ?thesis
    using assms(1-3) same_signer_SignMatch [OF assms(1)] by (auto simp: signed_by_def same_signer_def)
qed

text \<open>A relation on rows that keeps the property of a row, or gives it.\<close>

lemma late_rows_rows:
  assumes "list_all2 R (matches t) (matches t')" and "late_rows P t"
    and "\<And>r r'. R r r' \<Longrightarrow> row_status r' \<in> {Signed, BROADCASTED_STATUS} \<Longrightarrow>
      (row_status r \<in> {Signed, BROADCASTED_STATUS} \<Longrightarrow> P r) \<Longrightarrow> r \<in> set (matches t) \<Longrightarrow> P r'"
  shows "late_rows P t'"
  unfolding late_rows_def
proof (intro ballI impI)
  fix r' assume r': "r' \<in> set (matches t')" "row_status r' \<in> {Signed, BROADCASTED_STATUS}"
  then obtain i where i: "i < length (matches t')" "matches t' ! i = r'" by (auto simp: in_set_conv_nth)
  then have r: "matches t ! i \<in> set (matches t)" "R (matches t ! i) r'"
    using list_all2_nthD2 [OF assms(1) i(1)] list_all2_lengthD [OF assms(1)] by simp_all
  from r(2) r'(2) _ r(1) show "P r'" by (rule assms(3)) (use assms(2) r(1) in \<open>auto simp: late_rows_def\<close>)
qed

lemma signed_by_status [simp]: "signed_by dep (y\<lparr>row_status := st\<rparr>) = signed_by dep y"
  by (simp add: signed_by_def scan_to_sign_def)

lemma deployed_step_signed_by:
  assumes "deployed_step dep k client cfg t t'" and "wf_tables t" and "late_rows (signed_by dep) t"
  shows "late_rows (signed_by dep) t'"
  using assms(1)
proof (cases rule: deployed_step.cases)
  case (dep_sync e provider competition clock w r w')
  with assms(3) Sync_late_rows [of e provider competition clock w r w'] show ?thesis by simp
next
  case (dep_reconcile e w r w')
  with assms(2,3) Reconcile_late_rows [of e w r w'] show ?thesis by simp
next
  case (dep_sign s w code g w')
  from dep_sign(5) show ?thesis
  proof (cases rule: signer_Run_cases)
    case idle
    with assms(3) dep_sign(1,2) show ?thesis by simp
  next
    case (loop ms w1 key c)
    have "list_all2 (\<lambda>r r'. r' = r \<or> r' = sign_row s key c r) (matches t) (matches t')"
      using signer_Run_rows(1) [OF dep_sign(5,4) _ loop(2,3)] assms(2) dep_sign(1,2) by simp
    then show ?thesis
      by (rule late_rows_rows [OF _ assms(3)]) (metis sign_row_signed_by [OF dep_sign(3) loop(2,3)])
  qed
next
  case (dep_relay rel drv c w code c' w')
  have "list_all2 (relay_row rel client cfg (relayer_trace rel drv client cfg c w)) (matches t) (matches t')"
    using relayer_Run_rows(1) [OF dep_relay(4,3)] assms(2) dep_relay(1,2) by simp
  then show ?thesis
    by (rule late_rows_rows [OF _ assms(3)]) (auto simp: relay_row_def)
qed

lemma deployed_signed_by:
  assumes "(deployed_step dep k client cfg)\<^sup>*\<^sup>* empty_tables t"
  shows "late_rows (signed_by dep) t"
  using assms
proof (induction rule: rtranclp_induct)
  case base
  show ?case by (simp add: late_rows_def empty_tables_def)
next
  case (step t t')
  have "db_inv k t" using reachable_inv [OF deployed_reachable [OF step(1)]] .
  with step(2,3) show ?case using deployed_step_signed_by by (auto simp: db_inv_def)
qed

section \<open>Writes that overtake each other\<close>

lemma run_mark:
  "matches (run_statement (set_status i BROADCASTED_STATUS) t) =
    map (\<lambda>y. if row_id y = i then y\<lparr>row_status := BROADCASTED_STATUS\<rparr> else y) (matches t)"
  by (simp add: run_statement_def set_status_def int4_def BROADCASTED_STATUS_def)

lemma SignMatch_hex:
  assumes "fst (SignMatch s m key c no_globals) = Inr x"
  obtains sig where "x = hex_encode sig"
proof -
  have "sign_typed s (match_message oracle_types (oracle_domain (s_getenv s) c) m) key = Inr x"
    using assms by (simp add: SignMatch_def getTypes_def getDomain_def no_globals_def Let_def)
  then show thesis by (elim sign_typed_ok) (rule that)
qed

text \<open>What the three calls of a race leave when they succeed.\<close>

lemma StoreSignature_ok:
  assumes "StoreSignature e m x w = (Inr u, w')"
  shows "matches (w_db w') = put_signature (sm_ID m) x (matches (w_db w))"
proof -
  obtain n where n: "fst (db_exec e (store_signature (sm_ID m) x Signed) w) = Inr n"
    and w': "w' = snd (db_exec e (store_signature (sm_ID m) x Signed) w)"
    using assms by (auto simp: StoreSignature_def split: prod.splits sum.splits)
  from db_exec_ok [OF n] obtain t' where "store_signature (sm_ID m) x Signed (w_db w) = Inr (n, t')" "w_db w' = t'"
    unfolding w' by blast
  then have "Inr (n, w_db w') = store_signature (sm_ID m) x Signed (w_db w)" by simp
  then show ?thesis by (simp add: store_signature_def put_signature_def split: if_splits)
qed

lemma BroadcastMatch_ok:
  assumes "BroadcastMatch e (Some db) i w = (Inr u, w')"
  shows "matches (w_db w') = mark_broadcasted i (matches (w_db w))"
proof -
  obtain n where n: "fst (db_exec e (set_status i BROADCASTED_STATUS) w) = Inr n"
    and w': "w' = snd (db_exec e (set_status i BROADCASTED_STATUS) w)"
    using assms by (auto simp: BroadcastMatch_def split: prod.splits sum.splits if_splits)
  from db_exec_ok [OF n] obtain t' where "set_status i BROADCASTED_STATUS (w_db w) = Inr (n, t')" "w_db w' = t'"
    unfolding w' by blast
  then have "Inr (n, w_db w') = set_status i BROADCASTED_STATUS (w_db w)" by simp
  then show ?thesis by (simp add: set_status_def mark_broadcasted_def split: if_splits)
qed

lemma corrected_row:
  assumes "r \<in> set (matches (w_db w))" and "Save e m w = (Inr (), w')" and "key_of m = match_key r"
  obtains now where "overwrite_match now (match_to_row e m) r \<in> set (matches (w_db w'))"
  using Save_rewrites [of e m w r] assms by simp

text \<open>
  Rows that the runs of one program leave as they are: a signer changes rows in status finished, a relayer
  rows in status signed.
\<close>

definition signer_keeps :: "match_row \<Rightarrow> bool" where
  "signer_keeps r \<longleftrightarrow>
     (\<forall>(s :: signer_env) w code g w'. faithful_order s \<longrightarrow> wf_tables (w_db w) \<longrightarrow>
        signer_Run s (Some ()) (no_globals, w) = (code, g, w') \<longrightarrow>
        r \<in> set (matches (w_db w)) \<longrightarrow> r \<in> set (matches (w_db w')))"

definition relayer_keeps :: "'c ChainClient \<Rightarrow> 'abi BroadcasterConfig \<Rightarrow> match_row \<Rightarrow> bool" where
  "relayer_keeps client cfg r \<longleftrightarrow>
     (\<forall>(rel :: 'abi relayer_env) (drv :: unit sql_driver) c w code c' w'. faithful_order rel \<longrightarrow> wf_tables (w_db w) \<longrightarrow>
        relayer_Run rel drv client cfg c w = Some (code, c', w') \<longrightarrow>
        r \<in> set (matches (w_db w)) \<longrightarrow> r \<in> set (matches (w_db w')))"

lemma list_all2_stays: "list_all2 R xs ys \<Longrightarrow> r \<in> set xs \<Longrightarrow> (\<And>r'. R r r' \<Longrightarrow> r' = r) \<Longrightarrow> r \<in> set ys"
  by (induction rule: list_all2_induct) auto

lemma signer_keeps_status: "row_status r \<noteq> SignerFinished \<Longrightarrow> signer_keeps r"
  unfolding signer_keeps_def
proof (intro allI impI)
  fix s :: signer_env and w code g w'
  assume st: "row_status r \<noteq> SignerFinished" and s: "faithful_order s" "wf_tables (w_db w)"
    and run: "signer_Run s (Some ()) (no_globals, w) = (code, g, w')" and r: "r \<in> set (matches (w_db w))"
  from run show "r \<in> set (matches (w_db w'))"
  proof (cases rule: signer_Run_cases)
    case idle
    with r show ?thesis by simp
  next
    case (loop ms w1 key c)
    show ?thesis
      using signer_Run_rows(1) [OF run s loop(2,3)] r by (rule list_all2_stays) (auto simp: sign_row_def st)
  qed
qed

lemma relayer_keeps_status:
  fixes client :: "'c ChainClient" and cfg :: "'abi BroadcasterConfig"
  assumes "row_status r \<noteq> Signed"
  shows "relayer_keeps client cfg r"
  unfolding relayer_keeps_def
proof (intro allI impI)
  fix rel :: "'abi relayer_env" and drv :: "unit sql_driver" and c w code c' w'
  assume rel: "faithful_order rel" "wf_tables (w_db w)" and run: "relayer_Run rel drv client cfg c w = Some (code, c', w')"
    and r: "r \<in> set (matches (w_db w))"
  show "r \<in> set (matches (w_db w'))"
    using relayer_Run_rows(1) [OF run rel] r by (rule list_all2_stays) (auto simp: relay_row_def assms)
qed

section \<open>Properties\<close>

text \<open>
  C5: Serial runs are interleavings: whatever one run of one of the programs does to tables whose
  constraints hold, a sequence of its statements does, each a step of the interleaving system.
\<close>

theorem runs_are_interleavings:
  assumes "system_step k client cfg t t'" and "wf_tables t"
  shows "\<exists>\<sigma>. (statement_step k)\<^sup>*\<^sup>* (idle t) \<sigma> \<and> sh_db \<sigma> = t'"
  using assms(1)
proof (cases rule: system_step.cases)
  case (sync_run e provider competition clock w r w')
  then show ?thesis using sync_interleaves [OF sync_run(4,3,5)] by (intro exI [of _ "idle t'"]) simp
next
  case (reconcile_run e w r w')
  then show ?thesis
    using reconcile_interleaves [OF reconcile_run(4,3,5)] assms(2) by (intro exI [of _ "idle t'"]) simp
next
  case (sign_run s w code g w')
  then obtain S where "interleaved k (idle t) ((idle t')\<lparr>sh_to_sign := S\<rparr>)"
    using signer_interleaves [OF sign_run(3,4)] by blast
  then show ?thesis by (intro exI [of _ "(idle t')\<lparr>sh_to_sign := S\<rparr>"]) simp
next
  case (relay_run rel drv c w code c' w')
  then obtain R where "interleaved k (idle t) ((idle t')\<lparr>sh_to_send := R\<rparr>)"
    using relayer_interleaves [OF relay_run(3,4)] by blast
  then show ?thesis by (intro exI [of _ "(idle t')\<lparr>sh_to_send := R\<rparr>"]) simp
qed

theorem runs_are_interleavings_witness:
  "\<exists>\<sigma>. (statement_step (keccak sample_env))\<^sup>*\<^sup>* (idle empty_tables) \<sigma> \<and> matches (sh_db \<sigma>) = [synced_row]"
  using runs_are_interleavings [OF sample_sync_step wf_empty_tables] sample_sync(2) by metis

text \<open>
  C6: However the statements of any number of runs interleave, and whichever of them fail, the
  constraints of the schema hold and every row keeps the identity of its own competition, teams and
  day, a final status, a signature once it is past Finished, and values that fit their columns.
\<close>

theorem interleaving_invariant:
  assumes "(statement_step k)\<^sup>*\<^sup>* (idle empty_tables) \<sigma>"
  shows "wf_tables (sh_db \<sigma>) \<and> (\<forall>r \<in> set (matches (sh_db \<sigma>)). row_ok k r)"
proof -
  have "shared_inv k (idle empty_tables)"
    by (simp add: shared_inv_def wf_empty_tables) (simp add: empty_tables_def)
  with interleaved_inv [OF assms] show ?thesis by (simp add: shared_inv_def)
qed

theorem interleaving_invariant_witness:
  "\<exists>\<sigma> :: shared. matches (sh_db \<sigma>) = [synced_row] \<and> wf_tables (sh_db \<sigma>) \<and> row_ok (keccak sample_env) synced_row"
proof -
  let ?run = "Sync sample_env ''football_org'' ''la_liga'' (SystemClock sample_env) (start_world empty_tables)"
  have "interleaved (keccak sample_env) (idle (w_db (start_world empty_tables))) (idle (w_db (snd ?run)))"
    by (rule sync_interleaves [OF sample_env_faithful refl, of _ _ _ _ "fst ?run"]) simp
  then have "interleaved (keccak sample_env) (idle empty_tables) (idle (w_db (snd ?run)))"
    by (simp add: start_world_def)
  from interleaving_invariant [OF this] have "wf_tables (w_db (snd ?run))" "row_ok (keccak sample_env) synced_row"
    by (simp_all add: sample_sync(2))
  with sample_sync(2) show ?thesis by (intro exI [of _ "idle (w_db (snd ?run))"]) simp
qed

text \<open>
  C11: As long as the runs follow one another, every signed and every broadcasted row carries the signature
  that the deployed signer, with its key, its chain id and its typed data, makes for the identity and the
  scores the row has now: a correction never leaves an old signature standing.
\<close>

theorem serial_signatures_fit:
  assumes "(deployed_step dep k client cfg)\<^sup>*\<^sup>* empty_tables t" and "r \<in> set (matches t)"
    and "row_status r = 4 \<or> row_status r = 5"
  shows "\<exists>key c m x. LoadPrivateKey (s_to_ecdsa dep) (s_getenv dep ''SIGNER_PRIVATE_KEY'') = Inr key \<and>
    LoadChainId (s_getenv dep) = Inr c \<and> scan_to_sign r = Some m \<and>
    fst (SignMatch dep m key c no_globals) = Inr x \<and> row_signature r = Some x"
  using deployed_signed_by [OF assms(1)] assms(2,3)
  by (auto simp: late_rows_def signed_by_def Signed_def BROADCASTED_STATUS_def)

lemma synced_signed_deployed:
  "(deployed_step quiet_signer (keccak sample_env) mock_client sample_cfg)\<^sup>*\<^sup>* empty_tables
     (synced_tables\<lparr>matches := map (sign_row quiet_signer sample_key 11155111) (matches synced_tables)\<rparr>)"
proof -
  let ?step = "deployed_step quiet_signer (keccak sample_env) mock_client sample_cfg"
  obtain r w' where sync: "Sync sample_env ''football_org'' ''la_liga'' (SystemClock sample_env) (start_world empty_tables) = (r, w')"
    by (cases "Sync sample_env ''football_org'' ''la_liga'' (SystemClock sample_env) (start_world empty_tables)")
  have "?step (w_db (start_world empty_tables)) (w_db w')" by (rule dep_sync [OF refl sample_env_faithful sync])
  moreover have "synced_tables = w_db w'" using sync by (simp add: synced_tables_def)
  ultimately have 1: "?step empty_tables synced_tables" by (simp add: start_world_def)
  obtain code g w2 where run: "signer_Run quiet_signer (Some ()) (no_globals, start_world synced_tables) = (code, g, w2)"
    and w2: "w_db w2 = synced_tables\<lparr>matches := map (sign_row quiet_signer sample_key 11155111) (matches synced_tables)\<rparr>"
    by (rule synced_signed_run)
  have "same_signer quiet_signer quiet_signer" by (simp add: same_signer_def)
  from dep_sign [OF this quiet_signer_simps(2) run] have "?step synced_tables (w_db w2)" by (simp add: start_world_def)
  with 1 w2 show ?thesis by (metis converse_rtranclp_into_rtranclp r_into_rtranclp)
qed

theorem serial_signatures_fit_witness:
  "\<exists>r m key c x. row_status r = 4 \<and> scan_to_sign r = Some m \<and> sm_HomeTeamScore m = 2 \<and>
     LoadChainId (s_getenv quiet_signer) = Inr c \<and>
     fst (SignMatch quiet_signer m key c no_globals) = Inr x \<and> row_signature r = Some x"
proof -
  let ?r = "sign_row quiet_signer sample_key 11155111 synced_row"
  have "matches synced_tables = [synced_row]" by (simp add: synced_tables_def sample_sync)
  then have "?r \<in> set (matches (synced_tables\<lparr>matches := map (sign_row quiet_signer sample_key 11155111) (matches synced_tables)\<rparr>))"
    by simp
  moreover have "row_status ?r = 4 \<and> row_home_team_score ?r = 2" by code_simp
  moreover have "sm_HomeTeamScore m = 2" if "row_home_team_score r = 2" "scan_to_sign r = Some m" for r m
    using that by (auto simp: scan_to_sign_def split: if_splits)
  ultimately show ?thesis using serial_signatures_fit [OF synced_signed_deployed] by blast
qed

text \<open>
  The signature under a row stands for the given scores only: whatever match the contract is asked
  about, it recovers the authorized signer from the signature for no other scores.
\<close>

definition binds_scores :: "oracle_env \<Rightarrow> MatchRegistry \<Rightarrow> string \<Rightarrow> uint8 \<Rightarrow> uint8 \<Rightarrow> bool" where
  "binds_scores o_env reg x hs as \<longleftrightarrow>
     (\<forall>sig i h a. x = hex_encode sig \<longrightarrow>
        recover_calldata o_env (hash_typed_data o_env (match_struct_hash o_env i h a)) sig = Inr (authorizedSigner reg) \<longrightarrow>
        h = hs \<and> a = as)"

text \<open>
  A call is refused, and not as a match the contract knows already unless it has a result under that id:
  the relayer, which marks a row when it is told that the match was submitted already, does not mark it.
\<close>

definition call_refused :: "oracle_env \<Rightarrow> CompetitionRegistry \<Rightarrow> TeamRegistry \<Rightarrow> MatchRegistry \<Rightarrow> byte list \<Rightarrow> abi_value list \<Rightarrow> bool" where
  "call_refused o_env cs ts reg i args \<longleftrightarrow>
     (\<exists>er. call_submitMatch o_env cs ts args reg = Some (Inl er) \<and>
        (om_matchId (submitted reg i) = zero_bytes32 \<longrightarrow> (\<forall>j. er \<noteq> MatchAlreadySubmitted j)))"

lemma submitMatch_invalid:
  assumes "validateSignature o_env i hs as sig reg = Inl er" and "\<And>j. er \<noteq> MatchAlreadySubmitted j"
  shows "\<exists>er. submitMatch o_env cs ts i c h a hs as d sig reg = Inl er \<and>
    (om_matchId (submitted reg i) = zero_bytes32 \<longrightarrow> (\<forall>j. er \<noteq> MatchAlreadySubmitted j))"
  using assms by (simp add: submitMatch_def)

lemma stale_call_refused:
  assumes "binds_scores o_env reg (hex_encode (rm_Signature m)) hs as"
    and "(ucast (rm_HomeTeamScore m), ucast (rm_AwayTeamScore m)) \<noteq> (hs, as)"
  shows "call_refused o_env cs ts reg (hex_to_hash re (trim_prefix (rm_CanonicalID m) ''0x'')) (submit_args re m)"
proof -
  have "recover_calldata o_env (hash_typed_data o_env (match_struct_hash o_env i (ucast (rm_HomeTeamScore m))
      (ucast (rm_AwayTeamScore m)))) (rm_Signature m) \<noteq> Inr (authorizedSigner reg)" for i
    using assms unfolding binds_scores_def by blast
  then have "\<exists>er. validateSignature o_env i (ucast (rm_HomeTeamScore m)) (ucast (rm_AwayTeamScore m)) (rm_Signature m) reg =
      Inl er \<and> (\<forall>j. er \<noteq> MatchAlreadySubmitted j)" for i
    by (auto simp: validateSignature_def Let_def split: sum.split)
  from this [of "hex_to_hash re (trim_prefix (rm_CanonicalID m) ''0x'')"] submitMatch_invalid show ?thesis
    by (fastforce simp: call_refused_def call_submitMatch_def submit_args_def Let_def)
qed

lemma scan_signed_scores:
  assumes "scan_signed r = Some m"
  shows "ucast (rm_HomeTeamScore m) = (word_of_int (row_home_team_score r) :: uint8)"
    and "ucast (rm_AwayTeamScore m) = (word_of_int (row_away_team_score r) :: uint8)"
  using assms by (auto simp: scan_signed_def ucast_score split: option.splits sum.splits)

lemma scan_signed_rewritten:
  assumes "scan_signed r = Some m" and "row_signature r' = row_signature r"
  obtains m' where "scan_signed r' = Some m'" "rm_Signature m' = rm_Signature m"
  using assms by (auto simp: scan_signed_def split: option.splits sum.splits)

text \<open>
  C12: A correction can be overtaken by a signature. The signer reads a finished row; then the provider
  saves the match of that row with other scores; then the signer, whose signature is for the scores it read,
  stores it: if the three calls succeed, with nothing else in between, the row ends as signed, with the new
  scores and the signature of the old ones. It is stuck there: no run of the signer changes it, and the
  contract refuses the call the relayer makes for it, in every state in which the signature stands for the
  old scores only, with an error that does not make the relayer mark it unless the contract has a result of
  the match already.
\<close>

theorem signature_overtakes_correction:
  assumes "r \<in> set (matches (w_db w0))" and "scan_to_sign r = Some m"
    and "FindMatchesToSign (s :: signer_env) w0 = (Inr ms, w1)" and "m \<in> set ms"
    and "fst (SignMatch s m key c no_globals) = Inr x"
    and "w_db w2 = w_db w1" and "Save (e :: provider_env) m' w2 = (Inr (), w3)"
    and "Status m' = 3" and "key_of m' = match_key r"
    and "(ucast (HomeTeamScore m'), ucast (AwayTeamScore m')) \<noteq>
      (word_of_int (row_home_team_score r) :: uint8, word_of_int (row_away_team_score r) :: uint8)"
    and "w_db w4 = w_db w3" and "StoreSignature s m x w4 = (Inr (), w5)"
  shows "\<exists>r' m2. r' \<in> set (matches (w_db w5)) \<and> row_id r' = row_id r \<and> row_status r' = 4 \<and> row_signature r' = Some x \<and>
    row_home_team_score r' = uint (HomeTeamScore m') \<and> row_away_team_score r' = uint (AwayTeamScore m') \<and>
    signer_keeps r' \<and> scan_signed r' = Some m2 \<and>
    (\<forall>o_env cs ts reg. binds_scores o_env reg x (word_of_int (row_home_team_score r)) (word_of_int (row_away_team_score r)) \<longrightarrow>
       call_refused o_env cs ts reg (hex_to_hash re (trim_prefix (row_canonical_id r) ''0x'')) (submit_args re m2))"
proof -
  have "w_db w1 = w_db w0" using assms(3) by (auto simp: FindMatchesToSign_def db_query_def split: if_splits)
  then have "r \<in> set (matches (w_db w2))" using assms(1,6) by simp
  from corrected_row [OF this assms(7,9)] obtain now where
    r2: "overwrite_match now (match_to_row e m') r \<in> set (matches (w_db w4))" using assms(11) by auto
  define r' where "r' = (overwrite_match now (match_to_row e m') r)\<lparr>row_signature := Some x, row_status := Signed\<rparr>"
  have "sm_ID m = row_id r" using assms(2) by (auto simp: scan_to_sign_def split: if_splits)
  then have in5: "r' \<in> set (matches (w_db w5))"
    using r2 unfolding StoreSignature_ok [OF assms(12)] by (force simp: r'_def put_signature_def)
  have r': "row_id r' = row_id r" "row_status r' = 4" "row_signature r' = Some x" "row_canonical_id r' = row_canonical_id r"
    "row_home_team_score r' = uint (HomeTeamScore m')" "row_away_team_score r' = uint (AwayTeamScore m')"
    by (simp_all add: r'_def Signed_def match_to_row_def)
  obtain sig where x: "x = hex_encode sig" using assms(5) by (elim SignMatch_hex)
  obtain m2 where m2: "scan_signed r' = Some m2" "rm_Signature m2 = sig" "rm_CanonicalID m2 = row_canonical_id r"
    using r'(3,4) x by (simp add: scan_signed_def hex_decode_encode)
  have other: "(ucast (rm_HomeTeamScore m2), ucast (rm_AwayTeamScore m2)) \<noteq>
      (word_of_int (row_home_team_score r) :: uint8, word_of_int (row_away_team_score r) :: uint8)"
    using assms(10) unfolding scan_signed_scores [OF m2(1)] r'(5,6) unfolding ucast_eq .
  have "call_refused o_env cs ts reg (hex_to_hash re (trim_prefix (row_canonical_id r) ''0x'')) (submit_args re m2)"
    if "binds_scores o_env reg x (word_of_int (row_home_team_score r)) (word_of_int (row_away_team_score r))" for o_env cs ts reg
    unfolding m2(3) [symmetric]
    by (rule stale_call_refused [OF _ other]) (use that in \<open>simp add: x m2(2)\<close>)
  moreover have "signer_keeps r'" using r'(2) by (intro signer_keeps_status) (simp add: SignerFinished_def)
  ultimately show ?thesis by (intro exI [of _ r'] exI [of _ m2]) (use in5 r' m2(1) in simp)
qed

text \<open>
  C13: A correction can be lost behind a broadcast. The relayer reads a signed row and sends its scores;
  then the provider saves the match of that row with other scores; then the relayer marks the row: if the
  calls succeed, with nothing else in between, the row ends as broadcasted with the new scores, while the
  call that was made for it carried the old ones, and the signature it holds is still the old one. The
  correction is lost: no run of the signer or of the relayer changes the row any more, and if its own
  call were made, the contract would refuse it in every state in which the signature stands for the old
  scores only.
\<close>

theorem mark_overtakes_correction:
  fixes rel :: "'abi relayer_env" and client :: "'c ChainClient" and cfg :: "'abi BroadcasterConfig"
  assumes "r \<in> set (matches (w_db w0))" and "scan_signed r = Some m"
    and "FindSignedMatches rel (Some db) w0 = (Inr ms, w1)" and "m \<in> set ms"
    and "w_db w2 = w_db w1" and "Save (e :: provider_env) m' w2 = (Inr (), w3)"
    and "Status m' = 3" and "key_of m' = match_key r"
    and "(ucast (HomeTeamScore m'), ucast (AwayTeamScore m')) \<noteq>
      (word_of_int (row_home_team_score r) :: uint8, word_of_int (row_away_team_score r) :: uint8)"
    and "w_db w4 = w_db w3" and "BroadcastMatch rel (Some db) (rm_ID m) w4 = (Inr (), w5)"
  shows "submit_args rel m ! 4 = AbiUint8 (word_of_int (row_home_team_score r)) \<and>
    submit_args rel m ! 5 = AbiUint8 (word_of_int (row_away_team_score r)) \<and>
    (\<exists>r' m2. r' \<in> set (matches (w_db w5)) \<and> row_id r' = row_id r \<and> row_status r' = 5 \<and>
      row_signature r' = row_signature r \<and>
      row_home_team_score r' = uint (HomeTeamScore m') \<and> row_away_team_score r' = uint (AwayTeamScore m') \<and>
      signer_keeps r' \<and> relayer_keeps client cfg r' \<and> scan_signed r' = Some m2 \<and>
      (\<forall>o_env cs ts reg. binds_scores o_env reg (hex_encode (rm_Signature m)) (word_of_int (row_home_team_score r))
           (word_of_int (row_away_team_score r)) \<longrightarrow>
         (\<exists>er. call_submitMatch o_env cs ts (submit_args rel m2) reg = Some (Inl er))))"
proof -
  have "w_db w1 = w_db w0" using assms(3) by (auto simp: FindSignedMatches_def db_query_def split: if_splits)
  then have "r \<in> set (matches (w_db w2))" using assms(1,5) by simp
  from corrected_row [OF this assms(6,8)] obtain now where
    r2: "overwrite_match now (match_to_row e m') r \<in> set (matches (w_db w4))" using assms(10) by auto
  define r' where "r' = (overwrite_match now (match_to_row e m') r)\<lparr>row_status := BROADCASTED_STATUS\<rparr>"
  have in5: "r' \<in> set (matches (w_db w5))"
    using r2 scan_signed_id [OF assms(2)] unfolding BroadcastMatch_ok [OF assms(11)]
    by (force simp: r'_def mark_broadcasted_def)
  have r': "row_id r' = row_id r" "row_status r' = 5" "row_signature r' = row_signature r"
    "row_home_team_score r' = uint (HomeTeamScore m')" "row_away_team_score r' = uint (AwayTeamScore m')"
    by (simp_all add: r'_def BROADCASTED_STATUS_def match_to_row_def)
  obtain m2 where m2: "scan_signed r' = Some m2" "rm_Signature m2 = rm_Signature m"
    using scan_signed_rewritten [OF assms(2) r'(3)] .
  have other: "(ucast (rm_HomeTeamScore m2), ucast (rm_AwayTeamScore m2)) \<noteq>
      (word_of_int (row_home_team_score r) :: uint8, word_of_int (row_away_team_score r) :: uint8)"
    using assms(9) unfolding scan_signed_scores [OF m2(1)] r'(4,5) unfolding ucast_eq .
  have "\<exists>er. call_submitMatch o_env cs ts (submit_args rel m2) reg = Some (Inl er)"
    if "binds_scores o_env reg (hex_encode (rm_Signature m)) (word_of_int (row_home_team_score r))
      (word_of_int (row_away_team_score r))" for o_env cs ts reg
    using stale_call_refused [OF that [folded m2(2)] other, of cs ts rel] unfolding call_refused_def by blast
  moreover have "signer_keeps r'" "relayer_keeps client cfg r'"
    using r'(2) by (auto intro!: signer_keeps_status relayer_keeps_status simp: SignerFinished_def Signed_def)
  moreover have "submit_args rel m ! 4 = AbiUint8 (word_of_int (row_home_team_score r))"
    "submit_args rel m ! 5 = AbiUint8 (word_of_int (row_away_team_score r))"
    using scan_signed_scores [OF assms(2)] by (simp_all add: submit_args_def Let_def)
  ultimately show ?thesis by (intro conjI exI [of _ r'] exI [of _ m2]) (use in5 r' m2(1) in simp_all)
qed

text \<open>The same match of the data source with a corrected score, 3 to 1.\<close>

definition corrected_match :: Match where
  "corrected_match = projr (convertToEntityMatch (keccak sample_env) 9 (sample_fo\<lparr>fo_FullTimeHome := Some 3\<rparr>) LaLiga
     FootballOrgTeamMapping)"

lemma corrected_match_facts:
  "delivered (keccak sample_env) FootballOrg corrected_match" "known_competition (CompetitionID corrected_match)"
  "Status corrected_match = 3" "HomeTeamScore corrected_match = 3"
  "match_key (match_to_row sample_env corrected_match) = match_key synced_row"
  "row_fits (match_to_row sample_env corrected_match)"
proof -
  let ?c = "convertToEntityMatch (keccak sample_env) 9 (sample_fo\<lparr>fo_FullTimeHome := Some 3\<rparr>) LaLiga FootballOrgTeamMapping"
  have "(case ?c of Inl _ \<Rightarrow> False | Inr m \<Rightarrow> Status m = 3 \<and> HomeTeamScore m = 3 \<and>
      match_key (match_to_row sample_env m) = match_key synced_row \<and> row_fits (match_to_row sample_env m))" by code_simp
  then obtain m where m: "?c = Inr m" "Status m = 3" "HomeTeamScore m = 3"
    "match_key (match_to_row sample_env m) = match_key synced_row" "row_fits (match_to_row sample_env m)"
    by (auto split: sum.splits)
  have cm: "corrected_match = m" by (simp add: corrected_match_def m(1))
  from convertToEntityMatch_delivered [OF m(1)] m
  show "delivered (keccak sample_env) FootballOrg corrected_match" "known_competition (CompetitionID corrected_match)"
    "Status corrected_match = 3" "HomeTeamScore corrected_match = 3"
    "match_key (match_to_row sample_env corrected_match) = match_key synced_row"
    "row_fits (match_to_row sample_env corrected_match)"
    by (simp_all add: cm known_competition_def)
qed

text \<open>A contract that recovers its signer from the signature of a 2 to 1 only.\<close>

definition binding_oracle :: oracle_env where
  "binding_oracle = \<lparr>o_keccak = (\<lambda>bs. bs), hash_typed_data = (\<lambda>h. drop (length h - 64) h),
     recover_calldata = (\<lambda>d _. if d = abi_uint8 2 @ abi_uint8 1 then Inr 7 else Inl ''ECDSAInvalidSignature'')\<rparr>"

lemma binding_oracle_binds: "binds_scores binding_oracle fresh_registry x 2 1"
  by (simp add: binds_scores_def binding_oracle_def match_struct_hash_def abi_uint8_def)

lemma corrected_save:
  assumes "w_db w = synced_tables\<lparr>matches := [r]\<rparr>" and "match_key r = match_key synced_row"
  obtains w' where "Save sample_env corrected_match w = (Inr (), w')"
proof -
  have "db_fault sample_env (w_tick w) = Healthy" by (simp add: sample_env_def quiet_env_def)
  moreover have "match_key (match_to_row sample_env corrected_match) = match_key r" using corrected_match_facts(5) assms(2) by simp
  ultimately have "fst (Save sample_env corrected_match w) = Inr ()"
    using assms(1) corrected_match_facts(6) by (simp add: Save_def check_err_def db_exec_def upsert_match_def)
  with that show thesis by (metis prod.collapse)
qed

lemma corrected_key: "key_of corrected_match = match_key synced_row"
  using corrected_match_facts(5) by simp

lemma corrected_scores:
  "row_home_team_score r = 2 \<Longrightarrow> (ucast (HomeTeamScore corrected_match), ucast (AwayTeamScore corrected_match)) \<noteq>
     (word_of_int (row_home_team_score r) :: uint8, word_of_int (row_away_team_score r) :: uint8)"
  using corrected_match_facts(4) by simp

theorem signature_overtakes_correction_witness:
  "\<exists>m x w1 w3 w5 r' m2. FindMatchesToSign quiet_signer (start_world synced_tables) = (Inr [m], w1) \<and> sm_HomeTeamScore m = 2 \<and>
     fst (SignMatch quiet_signer m sample_key 11155111 no_globals) = Inr x \<and>
     Save sample_env corrected_match w1 = (Inr (), w3) \<and> StoreSignature quiet_signer m x w3 = (Inr (), w5) \<and>
     r' \<in> set (matches (w_db w5)) \<and> row_home_team_score r' = 3 \<and> row_status r' = 4 \<and> row_signature r' = Some x \<and>
     scan_signed r' = Some m2 \<and>
     (\<exists>i. call_refused binding_oracle sample_competitions sample_teams fresh_registry i (submit_args quiet_relayer m2))"
proof -
  let ?m = "the (scan_to_sign synced_row)" and ?w0 = "start_world synced_tables"
  have "scan_to_sign synced_row \<noteq> None \<and> sm_HomeTeamScore ?m = 2 \<and>
      (case fst (SignMatch quiet_signer ?m sample_key 11155111 no_globals) of
         Inl _ \<Rightarrow> False | Inr x \<Rightarrow> varchar255 x)" by code_simp
  then obtain m x where x: "scan_to_sign synced_row = Some m" "sm_HomeTeamScore m = 2"
    "fst (SignMatch quiet_signer m sample_key 11155111 no_globals) = Inr x" "varchar255 x"
    by (auto split: sum.splits)
  have rows: "matches synced_tables = [synced_row]" by (simp add: synced_tables_def sample_sync)
  have r: "row_status synced_row = 3" "row_home_team_score synced_row = 2" "row_away_team_score synced_row = 1"
    by (simp_all add: synced_row_def)
  have find: "FindMatchesToSign quiet_signer ?w0 = (Inr [m], tick ?w0)"
    using x(1) r(1) rows
    by (simp add: FindMatchesToSign_def db_query_def quiet_signer_def start_world_def SignerFinished_def map_filter_simps)
  have "w_db (tick ?w0) = synced_tables\<lparr>matches := [synced_row]\<rparr>" using rows by (simp add: start_world_def)
  from corrected_save [OF this refl] obtain w3 where save: "Save sample_env corrected_match (tick ?w0) = (Inr (), w3)" .
  have "db_fault quiet_signer (w_tick w3) = Healthy" by (simp add: quiet_signer_def)
  from StoreSignature_healthy [OF this x(4), of m] obtain w5 where
    store: "StoreSignature quiet_signer m x w3 = (Inr (), w5)" by blast
  have "synced_row \<in> set (matches (w_db ?w0))" using rows by (simp add: start_world_def)
  from signature_overtakes_correction [OF this x(1) find _ x(3) refl save corrected_match_facts(3) corrected_key
      corrected_scores [OF r(2)] refl store, of quiet_relayer]
  obtain r' m2 where r': "r' \<in> set (matches (w_db w5))" "row_status r' = 4" "row_signature r' = Some x"
    "row_home_team_score r' = uint (HomeTeamScore corrected_match)" "scan_signed r' = Some m2"
    and refused: "\<And>o_env cs ts reg. binds_scores o_env reg x 2 1 \<Longrightarrow>
      call_refused o_env cs ts reg (hex_to_hash quiet_relayer (trim_prefix (row_canonical_id synced_row) ''0x'')) (submit_args quiet_relayer m2)"
    by (auto simp: r)
  from refused [OF binding_oracle_binds] r' find save store x(2,3) corrected_match_facts(4) show ?thesis by fastforce
qed

theorem mark_overtakes_correction_witness:
  "\<exists>r m w1 w3 w5 r'. r = sign_row quiet_signer sample_key 11155111 synced_row \<and>
     FindSignedMatches quiet_relayer (Some ()) (start_world (synced_tables\<lparr>matches := [r]\<rparr>)) = (Inr [m], w1) \<and>
     submit_args quiet_relayer m ! 4 = AbiUint8 2 \<and>
     Save sample_env corrected_match w1 = (Inr (), w3) \<and>
     BroadcastMatch quiet_relayer (Some ()) (rm_ID m) w3 = (Inr (), w5) \<and>
     r' \<in> set (matches (w_db w5)) \<and> row_home_team_score r' = 3 \<and> row_status r' = 5 \<and>
     row_signature r' = row_signature r \<and> relayer_keeps mock_client sample_cfg r'"
proof -
  let ?r = "sign_row quiet_signer sample_key 11155111 synced_row"
  let ?t = "synced_tables\<lparr>matches := [?r]\<rparr>"
  have key: "match_key ?r = match_key synced_row" by simp
  have "row_status ?r = 4 \<and> row_home_team_score ?r = 2 \<and> scan_signed ?r \<noteq> None" by code_simp
  then obtain m where m: "row_status ?r = 4" "row_home_team_score ?r = 2" "scan_signed ?r = Some m" by blast
  have find: "FindSignedMatches quiet_relayer (Some ()) (start_world ?t) = (Inr [m], tick (start_world ?t))"
    using m by (simp add: FindSignedMatches_def db_query_def quiet_relayer_def start_world_def SIGNED_STATUS_def map_filter_simps)
  have "w_db (tick (start_world ?t)) = ?t" by (simp add: start_world_def)
  from corrected_save [OF this key] obtain w3 where save: "Save sample_env corrected_match (tick (start_world ?t)) = (Inr (), w3)" .
  have r: "?r \<in> set (matches (w_db (start_world ?t)))" "?r \<in> set (matches (w_db (tick (start_world ?t))))"
    by (simp_all add: start_world_def)
  have k: "key_of corrected_match = match_key ?r" using key corrected_key by simp
  from corrected_row [OF r(2) save k] obtain now where
    "overwrite_match now (match_to_row sample_env corrected_match) ?r \<in> set (matches (w_db w3))" .
  then have "filter (\<lambda>y. row_id y = rm_ID m) (matches (w_db w3)) \<noteq> []"
    using scan_signed_id [OF m(3)] by (force simp: filter_empty_conv)
  then obtain w5 where mark: "BroadcastMatch quiet_relayer (Some ()) (rm_ID m) w3 = (Inr (), w5)"
    by (simp add: BroadcastMatch_def db_exec_def quiet_relayer_def set_status_def int4_def BROADCASTED_STATUS_def)
  from mark_overtakes_correction [OF r(1) m(3) find _ refl save corrected_match_facts(3) k corrected_scores [OF m(2)] refl mark,
      of mock_client sample_cfg]
  show ?thesis using find save mark m(2) corrected_match_facts(4) by fastforce
qed

text \<open>
  C7: The table of matches only grows: however the statements of any number of runs interleave and
  whichever of them fail, every row stays in its place with its id, canonical identifier, provider
  key, competition, teams, times and time of creation; only status, scores, signature and the time of the
  last change are ever rewritten. Nor does any service record a transaction: the hash of every added
  row is null and stays so.
\<close>

theorem rows_are_permanent:
  assumes "(statement_step k)\<^sup>*\<^sup>* \<sigma> \<sigma>'"
  shows "\<exists>new. map row_identity (matches (sh_db \<sigma>')) = map row_identity (matches (sh_db \<sigma>)) @ new \<and>
    (\<forall>r \<in> set new. row_transaction_hash r = None)"
  using interleaved_grown [OF assms] by (simp add: grown_def)

theorem rows_are_permanent_witness:
  "\<exists>\<sigma>. (statement_step (keccak sample_env))\<^sup>*\<^sup>* (idle empty_tables) \<sigma> \<and>
     map row_identity (matches (sh_db \<sigma>)) = [row_identity synced_row] \<and> row_transaction_hash synced_row = None"
proof -
  let ?run = "Sync sample_env ''football_org'' ''la_liga'' (SystemClock sample_env) (start_world empty_tables)"
  have "interleaved (keccak sample_env) (idle (w_db (start_world empty_tables))) (idle (w_db (snd ?run)))"
    by (rule sync_interleaves [OF sample_env_faithful refl, of _ _ _ _ "fst ?run"]) simp
  then have run: "interleaved (keccak sample_env) (idle empty_tables) (idle (w_db (snd ?run)))"
    by (simp add: start_world_def)
  have rows: "matches (w_db (snd ?run)) = [synced_row]" by (rule sample_sync(2))
  from rows_are_permanent [OF run] rows have "row_transaction_hash (row_identity synced_row) = None"
    unfolding idle_simps rows by (simp add: empty_tables_def)
  then have "row_transaction_hash synced_row = None" by (simp add: row_identity_def)
  with run rows show ?thesis by (intro exI [of _ "idle (w_db (snd ?run))"]) simp
qed

end
