(* ===== verification/On_Chain.thy ===== *)
theory On_Chain
  imports Interleaving
begin

text \<open>
  The relayer and the contract as one system: what a node must promise so that \<open>Broadcasted\<close> in the
  database means recorded in the contract (locale \<open>oracle_node\<close>), a node that executes the calls it is
  sent on the model of the contract, and runs of the services on the tables and a node.
\<close>

section \<open>What a node promises\<close>

text \<open>One call of a method of the client.\<close>

definition client_call :: "'c ChainClient \<Rightarrow> 'c \<Rightarrow> 'c \<Rightarrow> bool" where
  "client_call client c c' \<longleftrightarrow>
     (\<exists>a. c' = snd (PendingNonceAt client a c)) \<or> c' = snd (SuggestGasTipCap client c) \<or>
     c' = snd (SuggestGasPrice client c) \<or> (\<exists>msg. c' = snd (EstimateGas client msg c)) \<or>
     (\<exists>stx. c' = snd (SendTransaction client stx c)) \<or> (\<exists>h. c' = snd (TransactionReceipt client h c))"

text \<open>
  \<open>registry\<close> is the contract as the node sees it and \<open>sent stx c\<close> says that the node has taken the
  transaction. Between calls the contract only changes by transactions (of anybody), a transaction
  taken is not forgotten, a receipt with success means that it was executed, and an error of
  \<open>SendTransaction\<close> with the selector of \<open>MatchAlreadySubmitted\<close> that the call reverts with it.
  \<open>decode\<close> is the contract's reading of calldata.
\<close>

locale oracle_node = chain_client client attempts last_sent
  for client :: "'c ChainClient" and attempts last_sent +
  fixes registry :: "'c \<Rightarrow> MatchRegistry" and sent :: "signed_tx \<Rightarrow> 'c \<Rightarrow> bool"
    and contract :: address and selector :: "byte list" and decode :: "byte list \<Rightarrow> abi_value list option"
    and o_env :: oracle_env and cs :: CompetitionRegistry and ts :: TeamRegistry
  assumes evolves: "client_call client c c' \<Longrightarrow>
      (registry_step o_env)\<^sup>*\<^sup>* (registry c) (registry c') \<and> (sent stx c \<longrightarrow> sent stx c')"
    and taken: "SendTransaction client stx c = (Inr (), c') \<Longrightarrow> sent stx c'"
    and executed: "sent stx c \<Longrightarrow> TransactionReceipt client (SignedHash stx) c = (Inr rc, c') \<Longrightarrow>
      ReceiptStatus rc = ReceiptStatusSuccessful \<Longrightarrow> TxTo (SignedPayload stx) = contract \<Longrightarrow>
      \<exists>args before after. decode (TxData (SignedPayload stx)) = Some args \<and>
        call_submitMatch o_env cs ts args before = Some (Inr after) \<and> (registry_step o_env)\<^sup>*\<^sup>* after (registry c')"
    and refused: "SendTransaction client stx c = (Inl (DataError msg (StringData s)), c') \<Longrightarrow>
      TxTo (SignedPayload stx) = contract \<Longrightarrow>
      hex_decode (trim_prefix s ''0x'') = Inr bs \<Longrightarrow> 4 \<le> length bs \<Longrightarrow> take 4 bs = selector \<Longrightarrow>
      \<exists>args mid. decode (TxData (SignedPayload stx)) = Some args \<and>
        call_submitMatch o_env cs ts args (registry c') = Some (Inl (MatchAlreadySubmitted mid))"

definition recorded :: "MatchRegistry \<Rightarrow> byte list \<Rightarrow> bool" where
  "recorded reg mid \<longleftrightarrow> om_matchId (submitted reg mid) \<noteq> zero_bytes32"

definition match_hash :: "('abi, 'z) relayer_env_scheme \<Rightarrow> RelayerMatch \<Rightarrow> byte list" where
  "match_hash e m = hex_to_hash e (trim_prefix (rm_CanonicalID m) ''0x'')"

lemma recorded_keeps: "(registry_step o_env)\<^sup>*\<^sup>* reg reg' \<Longrightarrow> recorded reg mid \<Longrightarrow> recorded reg' mid"
  using registry_steps_keep [of o_env reg reg' mid] by (simp add: recorded_def)

text \<open>The receipt a wait ends with is one the node gave, in a state the wait has come to.\<close>

lemma waitForReceipt_answer:
  assumes "waitForReceipt e client start h c w = Some (Inr rc, c', w')" and "I c"
    and "\<And>c. I c \<Longrightarrow> I (snd (TransactionReceipt client h c))"
  shows "\<exists>c1. I c1 \<and> TransactionReceipt client h c1 = (Inr rc, c')"
proof -
  let ?P = "\<lambda>e' client' start' h' c w (res :: (wait_error, receipt) result \<times> _ \<times> world). client' = client \<longrightarrow> h' = h \<longrightarrow> I c \<longrightarrow> fst res = Inr rc \<longrightarrow>
    (\<exists>c1. I c1 \<and> TransactionReceipt client h c1 = (Inr rc, fst (snd res)))"
  have "?P e client start h c w (Inr rc, c', w')"
  proof (rule waitForReceipt.raw_induct [where P = ?P, OF _ assms(1)], intro impI)
    fix loop e' client' start' h' c w res
    assume IH: "\<And>e' client' start' h' c w res. loop e' client' start' h' c w = Some res \<Longrightarrow> ?P e' client' start' h' c w res"
      and eq: "client' = client" "h' = h" and I: "I c" and rc: "fst res = Inr rc"
      and body: "(case TransactionReceipt client' h' c of (r, c1) \<Rightarrow>
        (case r of
           Inl err \<Rightarrow>
             if err \<noteq> NotFound then Some (Inl (ReceiptError err), c1, tick w)
             else if bctx_done e' start' (w_tick (tick w)) then Some (Inl WaitContextDone, c1, tick (tick w))
             else loop e' client' start' h' c1 (log_event (Sleep (second_ns div 2)) (tick (tick w)))
         | Inr rc \<Rightarrow> Some (Inr rc, c1, tick w))) = Some res"
    obtain r1 c1 where r: "TransactionReceipt client h c = (r1, c1)" by (cases "TransactionReceipt client h c")
    have I1: "I c1" using assms(3) [OF I] r by simp
    show "\<exists>c1. I c1 \<and> TransactionReceipt client h c1 = (Inr rc, fst (snd res))"
    proof (cases r1)
      case (Inl er)
      from body r eq rc Inl have "loop e' client start' h c1 (log_event (Sleep (second_ns div 2)) (tick (tick w))) = Some res"
        by (auto split: if_splits)
      from IH [OF this] I1 rc show ?thesis by blast
    next
      case (Inr x)
      with body r eq rc I show ?thesis by auto
    qed
  qed
  with assms(2) show ?thesis by simp
qed

text \<open>
  What go-ethereum guarantees the relayer: signing keeps the transaction, the contract reads calldata
  as it was packed, and the ABI names the selector of the error; and the relayer is configured with
  the address of the contract.
\<close>

definition relays_to ::
  "('abi, 'z) relayer_env_scheme \<Rightarrow> 'abi BroadcasterConfig \<Rightarrow> address \<Rightarrow> byte list \<Rightarrow>
   (byte list \<Rightarrow> abi_value list option) \<Rightarrow> bool" where
  "relays_to e cfg contract selector decode \<longleftrightarrow>
     BcContractAddress cfg = contract \<and>
     (\<exists>errID. abi_error_id e (BcContractABI cfg) ''MatchAlreadySubmitted'' = Some errID \<and> take 4 errID = selector) \<and>
     (\<forall>abi args d. abi_pack e abi ''submitMatch'' args = Inr d \<longrightarrow> decode d = Some args) \<and>
     (\<forall>tx cid k stx. sign_tx e tx cid k = Inr stx \<longrightarrow> SignedPayload stx = tx)"

lemma already_submitted_selector:
  assumes "isMatchAlreadySubmitted e err (BcContractABI cfg)" and "relays_to e cfg contract selector decode"
  obtains msg s bs where "err = DataError msg (StringData s)" "hex_decode (trim_prefix s ''0x'') = Inr bs"
    "4 \<le> length bs" "take 4 bs = selector"
  using assms by (auto simp: isMatchAlreadySubmitted_iff relays_to_def)

lemma relays_to_calldata:
  assumes "relays_to e cfg contract selector decode" and "buildCalldata e m = Inr d"
  shows "decode d = Some (submit_args e m)"
  using assms by (auto simp: relays_to_def buildCalldata_def split: sum.splits)

context oracle_node
begin

lemma call_evolves: "client_call client c c' \<Longrightarrow> (registry_step o_env)\<^sup>*\<^sup>* (registry c) (registry c')"
  using evolves by blast

end

section \<open>A node that executes\<close>

text \<open>
  A node with the contract inside: a transaction to the contract is executed at once on the model of
  \<open>submitMatch\<close>, or refused with the error the call reverts with; every transaction taken has a receipt.
\<close>

record chain_node =
  node_registry :: MatchRegistry
  node_txs :: "signed_tx list"
  node_attempts :: int
  node_last :: "signed_tx option"

definition node_send ::
  "oracle_env \<Rightarrow> CompetitionRegistry \<Rightarrow> TeamRegistry \<Rightarrow> address \<Rightarrow> byte list \<Rightarrow> (byte list \<Rightarrow> abi_value list option) \<Rightarrow>
   signed_tx \<Rightarrow> chain_node \<Rightarrow> (chain_error, unit) result \<times> chain_node" where
  "node_send o_env cs ts contract selector decode stx c =
     (let c1 = c\<lparr>node_attempts := node_attempts c + 1, node_last := Some stx\<rparr>;
          c2 = c1\<lparr>node_txs := stx # node_txs c\<rparr>;
          reverted = (Inl (ChainError ''execution reverted''), c1)
      in if TxTo (SignedPayload stx) \<noteq> contract then (Inr (), c2)
         else (case decode (TxData (SignedPayload stx)) of
                 None \<Rightarrow> reverted
               | Some args \<Rightarrow>
                   (case call_submitMatch o_env cs ts args (node_registry c) of
                      Some (Inr reg) \<Rightarrow> (Inr (), c2\<lparr>node_registry := reg\<rparr>)
                    | Some (Inl (MatchAlreadySubmitted _)) \<Rightarrow>
                        (Inl (DataError ''execution reverted'' (StringData (''0x'' @ hex_encode selector))), c1)
                    | _ \<Rightarrow> reverted)))"

definition node_client ::
  "oracle_env \<Rightarrow> CompetitionRegistry \<Rightarrow> TeamRegistry \<Rightarrow> address \<Rightarrow> byte list \<Rightarrow> (byte list \<Rightarrow> abi_value list option) \<Rightarrow>
   chain_node ChainClient" where
  "node_client o_env cs ts contract selector decode =
     \<lparr>PendingNonceAt = (\<lambda>_ c. (Inr (word_of_int (node_attempts c)), c)),
      SuggestGasTipCap = (\<lambda>c. (Inr 1, c)), SuggestGasPrice = (\<lambda>c. (Inr 2, c)),
      EstimateGas = (\<lambda>_ c. (Inr 100000, c)),
      SendTransaction = node_send o_env cs ts contract selector decode,
      TransactionReceipt = (\<lambda>h c. (if list_ex (\<lambda>stx. SignedHash stx = h) (node_txs c)
        then Inr \<lparr>ReceiptStatus = ReceiptStatusSuccessful\<rparr> else Inl NotFound, c))\<rparr>"

definition node_sent ::
  "oracle_env \<Rightarrow> CompetitionRegistry \<Rightarrow> TeamRegistry \<Rightarrow> address \<Rightarrow> (byte list \<Rightarrow> abi_value list option) \<Rightarrow>
   signed_tx \<Rightarrow> chain_node \<Rightarrow> bool" where
  "node_sent o_env cs ts contract decode stx c \<longleftrightarrow>
     (TxTo (SignedPayload stx) = contract \<longrightarrow>
        (\<exists>args before after. decode (TxData (SignedPayload stx)) = Some args \<and>
           call_submitMatch o_env cs ts args before = Some (Inr after) \<and>
           (registry_step o_env)\<^sup>*\<^sup>* after (node_registry c)))"

lemma call_registry_step: "call_submitMatch o_env cs ts args reg = Some (Inr reg') \<Longrightarrow> registry_step o_env reg reg'"
  by (auto simp: call_submitMatch_def intro: submit_call split: list.splits abi_value.splits)

lemma node_send_cases:
  obtains (other) "TxTo (SignedPayload stx) \<noteq> contract" "fst (node_send o_env cs ts contract selector decode stx c) = Inr ()"
      "node_registry (snd (node_send o_env cs ts contract selector decode stx c)) = node_registry c"
  | (mined) args reg where "decode (TxData (SignedPayload stx)) = Some args"
      "call_submitMatch o_env cs ts args (node_registry c) = Some (Inr reg)"
      "fst (node_send o_env cs ts contract selector decode stx c) = Inr ()"
      "node_registry (snd (node_send o_env cs ts contract selector decode stx c)) = reg"
  | (known) args mid where "decode (TxData (SignedPayload stx)) = Some args"
      "call_submitMatch o_env cs ts args (node_registry c) = Some (Inl (MatchAlreadySubmitted mid))"
      "node_registry (snd (node_send o_env cs ts contract selector decode stx c)) = node_registry c"
      "fst (node_send o_env cs ts contract selector decode stx c) \<noteq> Inr ()"
  | (reverted) "fst (node_send o_env cs ts contract selector decode stx c) = Inl (ChainError ''execution reverted'')"
      "node_registry (snd (node_send o_env cs ts contract selector decode stx c)) = node_registry c"
proof (cases "TxTo (SignedPayload stx) = contract")
  case False
  then show thesis using other by (simp add: node_send_def Let_def)
next
  case True
  note send = node_send_def [of o_env cs ts contract selector decode stx c]
  show thesis
  proof (cases "decode (TxData (SignedPayload stx))")
    case None
    with True show thesis using reverted by (simp add: send Let_def)
  next
    case (Some args)
    show thesis
    proof (cases "call_submitMatch o_env cs ts args (node_registry c)")
      case None
      with True Some show thesis using reverted by (simp add: send Let_def)
    next
      case call: (Some r)
      show thesis
      proof (cases r)
        case (Inr reg)
        with True Some call show thesis by (intro mined) (simp_all add: send Let_def)
      next
        case (Inl er)
        show thesis
        proof (cases "\<exists>mid. er = MatchAlreadySubmitted mid")
          case True
          then obtain mid where "er = MatchAlreadySubmitted mid" ..
          with \<open>TxTo (SignedPayload stx) = contract\<close> Some call Inl show thesis
            by (intro known) (simp_all add: send Let_def)
        next
          case False
          with \<open>TxTo (SignedPayload stx) = contract\<close> Some call Inl show thesis
            by (intro reverted) (simp_all add: send Let_def split: submit_error.split)
        qed
      qed
    qed
  qed
qed

lemma node_sent_step:
  "node_sent o_env cs ts contract decode stx c \<Longrightarrow> (registry_step o_env)\<^sup>*\<^sup>* (node_registry c) (node_registry c') \<Longrightarrow>
     node_sent o_env cs ts contract decode stx c'"
  unfolding node_sent_def by (meson rtranclp_trans)

lemma node_call_evolves:
  assumes "client_call (node_client o_env cs ts contract selector decode) c c'"
  shows "(registry_step o_env)\<^sup>*\<^sup>* (node_registry c) (node_registry c')"
proof -
  have "(registry_step o_env)\<^sup>*\<^sup>* (node_registry c) (node_registry (snd (node_send o_env cs ts contract selector decode stx c)))" for stx
  proof (cases rule: node_send_cases [where o_env = o_env and cs = cs and ts = ts and contract = contract
        and selector = selector and decode = decode and stx = stx and c = c])
    case (mined args reg)
    then show ?thesis using call_registry_step by fastforce
  qed simp_all
  with assms show ?thesis by (auto simp: client_call_def node_client_def)
qed

interpretation node: oracle_node "node_client o_env cs ts contract selector decode" node_attempts node_last
  node_registry "node_sent o_env cs ts contract decode" contract selector decode o_env cs ts
  for o_env cs ts contract selector decode
proof unfold_locales
  let ?client = "node_client o_env cs ts contract selector decode"
  let ?send = "node_send o_env cs ts contract selector decode"
  note cases = node_send_cases [where o_env = o_env and cs = cs and ts = ts and contract = contract
      and selector = selector and decode = decode]
  show "node_attempts (snd (SendTransaction ?client tx c)) = node_attempts c + 1 \<and>
      node_last (snd (SendTransaction ?client tx c)) = Some tx" for tx c
    by (simp add: node_client_def node_send_def Let_def split: option.split sum.split submit_error.split)
  show "(registry_step o_env)\<^sup>*\<^sup>* (node_registry c) (node_registry c') \<and>
      (node_sent o_env cs ts contract decode stx c \<longrightarrow> node_sent o_env cs ts contract decode stx c')"
    if "client_call ?client c c'" for c c' stx
    using node_call_evolves [OF that] node_sent_step by blast
  show "node_sent o_env cs ts contract decode stx c'" if "SendTransaction ?client stx c = (Inr (), c')" for stx c c'
  proof -
    have sent: "fst (?send stx c) = Inr ()" "snd (?send stx c) = c'" using that by (simp_all add: node_client_def)
    show ?thesis
    proof (cases rule: cases [where stx = stx and c = c])
      case (mined args reg)
      then show ?thesis unfolding node_sent_def using sent(2) by blast
    qed (use sent in \<open>auto simp: node_sent_def\<close>)
  qed
  show "\<exists>args before after. decode (TxData (SignedPayload stx)) = Some args \<and>
      call_submitMatch o_env cs ts args before = Some (Inr after) \<and> (registry_step o_env)\<^sup>*\<^sup>* after (node_registry c')"
    if "node_sent o_env cs ts contract decode stx c" "TransactionReceipt ?client (SignedHash stx) c = (Inr rc, c')"
      "TxTo (SignedPayload stx) = contract" for stx c c' rc
  proof -
    have "c' = c" using that(2) by (simp add: node_client_def)
    with that(1,3) show ?thesis unfolding node_sent_def by simp
  qed
  show "\<exists>args mid. decode (TxData (SignedPayload stx)) = Some args \<and>
      call_submitMatch o_env cs ts args (node_registry c') = Some (Inl (MatchAlreadySubmitted mid))"
    if "SendTransaction ?client stx c = (Inl (DataError msg (StringData s)), c')" for stx c msg s c'
  proof -
    have sent: "fst (?send stx c) = Inl (DataError msg (StringData s))" "snd (?send stx c) = c'"
      using that by (simp_all add: node_client_def)
    show ?thesis
    proof (cases rule: cases [where stx = stx and c = c])
      case (known args mid)
      with sent(2) show ?thesis by auto
    qed (use sent in simp_all)
  qed
qed (simp_all add: node_client_def)

section \<open>The identifier of a row\<close>

definition row_hash :: "('abi, 'z) relayer_env_scheme \<Rightarrow> match_row \<Rightarrow> byte list" where
  "row_hash e r = hex_to_hash e (trim_prefix (row_canonical_id r) ''0x'')"

section \<open>The services and the contract together\<close>

text \<open>
  The tables and the node under runs of the four programs, one after the other, and whatever happens on
  the chain in between.
\<close>

inductive joint_step ::
  "(byte list \<Rightarrow> byte list) \<Rightarrow> 'c ChainClient \<Rightarrow> 'abi BroadcasterConfig \<Rightarrow> address \<Rightarrow> byte list \<Rightarrow>
   (byte list \<Rightarrow> abi_value list option) \<Rightarrow> tables \<times> 'c \<Rightarrow> tables \<times> 'c \<Rightarrow> bool"
  for k client cfg contract selector decode where
  joint_sync: "keccak e = k \<Longrightarrow> ts_faithful (e :: provider_env) \<Longrightarrow> Sync e provider competition clock w = (r, w') \<Longrightarrow>
    joint_step k client cfg contract selector decode (w_db w, c) (w_db w', c)"
| joint_reconcile: "keccak e = k \<Longrightarrow> ts_faithful (e :: provider_env) \<Longrightarrow> Reconcile e w = Some (r, w') \<Longrightarrow>
    joint_step k client cfg contract selector decode (w_db w, c) (w_db w', c)"
| joint_sign: "faithful_order (s :: signer_env) \<Longrightarrow> signer_Run s (Some ()) (no_globals, w) = (code, g, w') \<Longrightarrow>
    joint_step k client cfg contract selector decode (w_db w, c) (w_db w', c)"
| joint_relay: "faithful_order (rel :: 'abi relayer_env) \<Longrightarrow> hash_codec rel \<Longrightarrow> relays_to rel cfg contract selector decode \<Longrightarrow>
    relayer_Run rel (drv :: unit sql_driver) client cfg c w = Some (code, c', w') \<Longrightarrow>
    joint_step k client cfg contract selector decode (w_db w, c) (w_db w', c')"
| joint_chain: "client_call client c c' \<Longrightarrow> joint_step k client cfg contract selector decode (t, c) (t, c')"

text \<open>On the tables it is a run of the services, or nothing.\<close>

lemma joint_step_system:
  assumes "joint_step k client cfg contract selector decode (t, c) (t', c')"
  shows "t' = t \<or> system_step k client cfg t t'"
  using assms
  by (cases rule: joint_step.cases) (auto intro: sync_run reconcile_run sign_run relay_run)

lemma joint_db_inv:
  assumes "(joint_step k client cfg contract selector decode)\<^sup>*\<^sup>* (empty_tables, c0) (t, c)"
  shows "db_inv k t"
  using assms
proof (induction "(t, c)" arbitrary: t c rule: rtranclp_induct)
  case base
  show ?case using reachable_inv [of k undefined undefined empty_tables] by (simp add: reachable_def)
next
  case (step y)
  then show ?case using joint_step_system system_step_inv by (metis prod.collapse)
qed

text \<open>The bytes of the identifier of a row, and what it means for a broadcasted row to be recorded.\<close>

definition row_bytes :: "match_row \<Rightarrow> byte list" where
  "row_bytes r = projr (hex_decode (row_canonical_id r))"

definition recorded_row :: "MatchRegistry \<Rightarrow> match_row \<Rightarrow> bool" where
  "recorded_row reg r \<longleftrightarrow> (row_status r = BROADCASTED_STATUS \<longrightarrow> recorded reg (row_bytes r))"

lemma row_bytes_id:
  assumes "row_ok k r"
  obtains c h a d where "known_competition c" "row_canonical_id r = hex_encode (k (packed_match c h a d))"
    "row_bytes r = k (packed_match c h a d)"
proof -
  have known: "known_competition (word_of_int (row_competition_id r))" using assms by (simp add: row_ok_def row_sound_def)
  have "generateMatchID k (word_of_int (row_competition_id r)) (word_of_int (row_home_team_id r))
      (word_of_int (row_away_team_id r)) (row_start r) = Inr (row_canonical_id r)"
    using assms by (simp add: row_ok_def row_sound_def)
  then obtain d where id: "row_canonical_id r = hex_encode (k (packed_match (word_of_int (row_competition_id r))
      (word_of_int (row_home_team_id r)) (word_of_int (row_away_team_id r)) d))"
    by (simp add: generateMatchID_def Let_def split: sum.splits) metis
  show thesis by (rule that [OF known id]) (simp add: row_bytes_def id hex_decode_encode)
qed

lemma row_hash_bytes:
  assumes "row_ok k r" and "\<And>bs. length (k bs) = 32" and "hash_codec e"
  shows "row_hash e r = row_bytes r"
  by (rule row_bytes_id [OF assms(1)])
    (use assms(2,3) in \<open>simp add: row_hash_def hash_codec_def trim_prefix_no hex_encode_no_prefix\<close>)

end
