(* ===== verification/Live_Chain.thy ===== *)
theory Live_Chain
  imports On_Chain
begin

text \<open>
  The services, their database and the Ethereum node all at the same time: the statements of any number
  of runs and the calls of any number of relayers interleave (\<open>live_step\<close>). Serial runs are such
  interleavings, and in every state they reach a broadcasted row is recorded in the contract.
\<close>

section \<open>Statements and calls as steps\<close>

text \<open>
  The tables with what the runs have read, the state of the node, the transactions the node has taken
  with the match each was made for, and the matches whose acceptance some relayer has seen.
\<close>

record 'c live =
  lv_shared :: shared
  lv_node :: 'c
  lv_sent :: "(RelayerMatch \<times> signed_tx) set"
  lv_accepted :: "RelayerMatch set"

definition live_idle :: "tables \<Rightarrow> 'c \<Rightarrow> 'c live" where
  "live_idle t c = \<lparr>lv_shared = idle t, lv_node = c, lv_sent = {}, lv_accepted = {}\<rparr>"

text \<open>More matches that others have read.\<close>

definition widen :: "SignerMatch set \<Rightarrow> RelayerMatch set \<Rightarrow> shared \<Rightarrow> shared" where
  "widen A B \<sigma> = \<sigma>\<lparr>sh_to_sign := A \<union> sh_to_sign \<sigma>, sh_to_send := B \<union> sh_to_send \<sigma>\<rparr>"

text \<open>The transaction \<open>broadcast\<close> signs for a match.\<close>

definition signs_call :: "('abi, 'z) relayer_env_scheme \<Rightarrow> 'abi BroadcasterConfig \<Rightarrow> RelayerMatch \<Rightarrow> signed_tx \<Rightarrow> bool" where
  "signs_call e cfg m stx \<longleftrightarrow>
     (\<exists>tx. buildCalldata e m = Inr (TxData tx) \<and> TxTo tx = BcContractAddress cfg \<and>
        sign_tx e tx (BcChainID cfg) (BcPrivateKey cfg) = Inr stx)"

text \<open>
  A step is a statement of a service other than the relayer's update, any call of the client, or one of
  the four places where a relayer looks at an answer or acts on it: a transaction is taken, it is
  refused as known, its receipt says success, the row is marked. Relayers may have any environment.
\<close>

inductive live_step ::
  "(byte list \<Rightarrow> byte list) \<Rightarrow> 'c ChainClient \<Rightarrow> 'abi BroadcasterConfig \<Rightarrow> address \<Rightarrow> byte list \<Rightarrow>
   (byte list \<Rightarrow> abi_value list option) \<Rightarrow> 'c live \<Rightarrow> 'c live \<Rightarrow> bool"
  for k client cfg contract selector decode where
  live_statement: "statement_step k ((lv_shared S)\<lparr>sh_to_send := {}\<rparr>) \<tau> \<Longrightarrow>
    live_step k client cfg contract selector decode S (S\<lparr>lv_shared := widen {} (sh_to_send (lv_shared S)) \<tau>\<rparr>)"
| live_call: "client_call client (lv_node S) c \<Longrightarrow>
    live_step k client cfg contract selector decode S (S\<lparr>lv_node := c\<rparr>)"
| live_taken: "m \<in> sh_to_send (lv_shared S) \<Longrightarrow> hash_codec (rel :: 'abi relayer_env) \<Longrightarrow>
    relays_to rel cfg contract selector decode \<Longrightarrow> signs_call rel cfg m stx \<Longrightarrow>
    SendTransaction client stx (lv_node S) = (Inr (), c) \<Longrightarrow>
    live_step k client cfg contract selector decode S (S\<lparr>lv_node := c, lv_sent := insert (m, stx) (lv_sent S)\<rparr>)"
| live_refused: "m \<in> sh_to_send (lv_shared S) \<Longrightarrow> hash_codec (rel :: 'abi relayer_env) \<Longrightarrow>
    relays_to rel cfg contract selector decode \<Longrightarrow> signs_call rel cfg m stx \<Longrightarrow>
    SendTransaction client stx (lv_node S) = (Inl err, c) \<Longrightarrow> isMatchAlreadySubmitted rel err (BcContractABI cfg) \<Longrightarrow>
    live_step k client cfg contract selector decode S (S\<lparr>lv_node := c, lv_accepted := insert m (lv_accepted S)\<rparr>)"
| live_receipt: "(m, stx) \<in> lv_sent S \<Longrightarrow> TransactionReceipt client (SignedHash stx) (lv_node S) = (Inr rc, c) \<Longrightarrow>
    ReceiptStatus rc = ReceiptStatusSuccessful \<Longrightarrow>
    live_step k client cfg contract selector decode S (S\<lparr>lv_node := c, lv_accepted := insert m (lv_accepted S)\<rparr>)"
| live_mark: "m \<in> lv_accepted S \<Longrightarrow>
    live_step k client cfg contract selector decode S
      (S\<lparr>lv_shared := exec_on (set_status (rm_ID m) BROADCASTED_STATUS) (lv_shared S)\<rparr>)"

lemma widen_simps [simp]:
  "sh_db (widen A B \<sigma>) = sh_db \<sigma>" "sh_to_sign (widen A B \<sigma>) = A \<union> sh_to_sign \<sigma>"
  "sh_to_send (widen A B \<sigma>) = B \<union> sh_to_send \<sigma>"
  by (simp_all add: widen_def)

lemma widen_exec: "widen A B (exec_on stmt \<sigma>) = exec_on stmt (widen A B \<sigma>)"
  by (simp add: widen_def exec_on_def)

lemma widen_db: "widen A B (\<sigma>\<lparr>sh_db := t\<rparr>) = (widen A B \<sigma>)\<lparr>sh_db := t\<rparr>"
  by (cases \<sigma>) (simp add: widen_def)

lemma widen_to_sign: "widen A B (\<sigma>\<lparr>sh_to_sign := X\<rparr>) = (widen A B \<sigma>)\<lparr>sh_to_sign := A \<union> X\<rparr>"
  by (cases \<sigma>) (simp add: widen_def)

lemma live_idle_simps [simp]:
  "lv_shared (live_idle t c) = idle t" "lv_node (live_idle t c) = c" "lv_sent (live_idle t c) = {}"
  "lv_accepted (live_idle t c) = {}"
  by (simp_all add: live_idle_def)

lemma shared_eqI: "sh_db \<sigma> = sh_db \<tau> \<Longrightarrow> sh_to_sign \<sigma> = sh_to_sign \<tau> \<Longrightarrow> sh_to_send \<sigma> = sh_to_send \<tau> \<Longrightarrow> \<sigma> = (\<tau> :: shared)"
  by simp

text \<open>What others have read does not keep a statement from running.\<close>

lemma statement_step_widen:
  assumes "statement_step k \<sigma> \<sigma>'"
  shows "statement_step k (widen A B \<sigma>) (widen A B \<sigma>')"
  using assms
proof (cases rule: statement_step.cases)
  case (save_stmt e p m now)
  then show ?thesis using statement_step.save_stmt [of e k p m "widen A B \<sigma>"] by (simp add: widen_exec)
next
  case (commit_tx e p m now i t)
  then show ?thesis using statement_step.commit_tx [of e k p m now i "widen A B \<sigma>" t] by (simp add: widen_db)
next
  case (queue_stmt i pmid p)
  then show ?thesis using statement_step.queue_stmt [of k "widen A B \<sigma>"] by (simp add: widen_exec)
next
  case (tries_stmt now i)
  then show ?thesis using statement_step.tries_stmt [of k "widen A B \<sigma>" now i] by (simp add: widen_db)
next
  case (date_stmt now r)
  then show ?thesis using statement_step.date_stmt [of k "widen A B \<sigma>"] by (simp add: widen_exec)
next
  case read_finished
  then show ?thesis using statement_step.read_finished [of k "widen A B \<sigma>"] by (simp add: widen_to_sign Un_assoc)
next
  case (sign_stmt m s key c x)
  then show ?thesis using statement_step.sign_stmt [of m "widen A B \<sigma>" s key c x k] by (simp add: widen_exec)
next
  case read_signed
  then show ?thesis using statement_step.read_signed [of k "widen A B \<sigma>"] by (simp add: widen_def Un_assoc)
next
  case (mark_stmt m)
  then show ?thesis using statement_step.mark_stmt [of m "widen A B \<sigma>" k] by (simp add: widen_exec)
qed

lemma statement_step_reads:
  "statement_step k \<sigma> \<sigma>' \<Longrightarrow> sh_to_send \<sigma> \<subseteq> sh_to_send \<sigma>' \<and> sh_to_send \<sigma>' \<subseteq> sh_to_send \<sigma> \<union> signed_scans (sh_db \<sigma>)"
  by (cases rule: statement_step.cases) auto

lemma interleaved_reads: "interleaved k \<sigma> \<sigma>' \<Longrightarrow> sh_to_send \<sigma> \<subseteq> sh_to_send \<sigma>'"
  by (induction rule: rtranclp_induct) (use statement_step_reads in blast)+

text \<open>A statement of a live step is one of the shared database.\<close>

lemma live_statement_shared:
  assumes "statement_step k ((lv_shared S)\<lparr>sh_to_send := {}\<rparr>) \<tau>"
  shows "statement_step k (lv_shared S) (widen {} (sh_to_send (lv_shared S)) \<tau>)"
proof -
  have "widen {} (sh_to_send (lv_shared S)) ((lv_shared S)\<lparr>sh_to_send := {}\<rparr>) = lv_shared S" by (simp add: widen_def)
  with statement_step_widen [OF assms, of "{}" "sh_to_send (lv_shared S)"] show ?thesis by simp
qed

text \<open>The statements of a run that does not read signed rows, amid any other runs.\<close>

lemma live_of_interleaved:
  assumes "interleaved k \<sigma> \<sigma>'" and "sh_to_send \<sigma>' = {}"
  shows "(live_step k client cfg contract selector decode)\<^sup>*\<^sup>* (S\<lparr>lv_shared := widen A B \<sigma>\<rparr>) (S\<lparr>lv_shared := widen A B \<sigma>'\<rparr>)"
  using assms
proof (induction rule: rtranclp_induct)
  case (step \<sigma>1 \<sigma>2)
  have e1: "sh_to_send \<sigma>1 = {}" using statement_step_reads [OF step(2)] step(4) by auto
  let ?S = "S\<lparr>lv_shared := widen A B \<sigma>1\<rparr>"
  have "(lv_shared ?S)\<lparr>sh_to_send := {}\<rparr> = widen A {} \<sigma>1" using e1 by (simp add: widen_def)
  with statement_step_widen [OF step(2), of A "{}"]
  have "statement_step k ((lv_shared ?S)\<lparr>sh_to_send := {}\<rparr>) (widen A {} \<sigma>2)" by simp
  from live_statement [OF this, of client cfg contract selector decode]
  have "live_step k client cfg contract selector decode ?S (S\<lparr>lv_shared := widen {} (sh_to_send (lv_shared ?S)) (widen A {} \<sigma>2)\<rparr>)"
    by simp
  moreover have "widen {} (sh_to_send (lv_shared ?S)) (widen A {} \<sigma>2) = widen A B \<sigma>2"
    using e1 step(4) by (simp add: widen_def)
  ultimately have "live_step k client cfg contract selector decode ?S (S\<lparr>lv_shared := widen A B \<sigma>2\<rparr>)" by simp
  with step.IH [OF e1] show ?case by (rule rtranclp.rtrancl_into_rtrancl)
qed simp

section \<open>A run of the relayer is such a sequence\<close>

lemma live_then_call:
  assumes "(live_step k client cfg contract selector decode)\<^sup>*\<^sup>* S (T\<lparr>lv_node := x\<rparr>)" and "client_call client x y"
  shows "(live_step k client cfg contract selector decode)\<^sup>*\<^sup>* S (T\<lparr>lv_node := y\<rparr>)"
  using assms(1) live_call [of client "T\<lparr>lv_node := x\<rparr>" y k cfg contract selector decode] assms(2)
  by (simp add: rtranclp.rtrancl_into_rtrancl)

lemma client_receipt: "client_call client x (snd (TransactionReceipt client h x))"
  by (auto simp: client_call_def)

lemma live_reads:
  assumes "via_reads client (lv_node S) c"
  shows "(live_step k client cfg contract selector decode)\<^sup>*\<^sup>* S (S\<lparr>lv_node := c\<rparr>)"
proof (rule via_reads_keeps [OF assms])
  let ?I = "\<lambda>x. (live_step k client cfg contract selector decode)\<^sup>*\<^sup>* S (S\<lparr>lv_node := x\<rparr>)"
  have "?I y" if "?I x" "client_call client x y" for x y
    using that by (rule live_then_call)
  then show "kept_by_reads client ?I" unfolding kept_by_reads_def client_call_def by blast
qed simp

lemma live_wait:
  assumes "waitForReceipt e client start h (lv_node S) w = Some (r, c', w')"
  shows "(live_step k client cfg contract selector decode)\<^sup>*\<^sup>* S (S\<lparr>lv_node := c'\<rparr>)"
  by (rule waitForReceipt_rule [where I = "\<lambda>x _. (live_step k client cfg contract selector decode)\<^sup>*\<^sup>* S (S\<lparr>lv_node := x\<rparr>)",
      OF assms]) (simp_all add: live_then_call [OF _ client_receipt])

text \<open>A wait that ends with success.\<close>

lemma live_confirmed:
  assumes "waitForReceipt e client start (SignedHash stx) (lv_node S) w = Some (Inr rc, c', w')"
    and "ReceiptStatus rc = ReceiptStatusSuccessful" and "(m, stx) \<in> lv_sent S"
  shows "(live_step k client cfg contract selector decode)\<^sup>*\<^sup>* S (S\<lparr>lv_node := c', lv_accepted := insert m (lv_accepted S)\<rparr>)"
proof -
  let ?I = "\<lambda>x. (live_step k client cfg contract selector decode)\<^sup>*\<^sup>* S (S\<lparr>lv_node := x\<rparr>)"
  have "?I (snd (TransactionReceipt client (SignedHash stx) x))" if "?I x" for x
    using that client_receipt by (rule live_then_call)
  from waitForReceipt_answer [OF assms(1), of ?I, OF _ this] obtain c1 where
    c1: "?I c1" "TransactionReceipt client (SignedHash stx) c1 = (Inr rc, c')" by auto
  from live_receipt [of m stx "S\<lparr>lv_node := c1\<rparr>" client rc c' k cfg contract selector decode] c1(2) assms(2,3)
  have "live_step k client cfg contract selector decode (S\<lparr>lv_node := c1\<rparr>)
      (S\<lparr>lv_node := c', lv_accepted := insert m (lv_accepted S)\<rparr>)" by simp
  with c1(1) show ?thesis by (rule rtranclp.rtrancl_into_rtrancl)
qed

text \<open>Where a run of the relayer leads: the node it ends with, nothing new to send, and more accepted.\<close>

definition live_run ::
  "(byte list \<Rightarrow> byte list) \<Rightarrow> 'c ChainClient \<Rightarrow> 'abi BroadcasterConfig \<Rightarrow> address \<Rightarrow> byte list \<Rightarrow>
   (byte list \<Rightarrow> abi_value list option) \<Rightarrow> 'c live \<Rightarrow> 'c \<Rightarrow> tables \<Rightarrow> RelayerMatch set \<Rightarrow> bool" where
  "live_run k client cfg contract selector decode S c t A \<longleftrightarrow>
     (\<exists>S'. (live_step k client cfg contract selector decode)\<^sup>*\<^sup>* S S' \<and> lv_node S' = c \<and> sh_db (lv_shared S') = t \<and>
        sh_to_send (lv_shared S) \<subseteq> sh_to_send (lv_shared S') \<and> A \<subseteq> lv_accepted S')"

lemma live_runI:
  "(live_step k client cfg contract selector decode)\<^sup>*\<^sup>* S S' \<Longrightarrow> lv_shared S' = lv_shared S \<Longrightarrow> A \<subseteq> lv_accepted S' \<Longrightarrow>
     live_run k client cfg contract selector decode S (lv_node S') (sh_db (lv_shared S)) A"
  unfolding live_run_def by (intro exI [of _ S']) simp

lemma live_run_after:
  assumes "(live_step k client cfg contract selector decode)\<^sup>*\<^sup>* S S1" and "sh_to_send (lv_shared S) \<subseteq> sh_to_send (lv_shared S1)"
    and "live_run k client cfg contract selector decode S1 c t A"
  shows "live_run k client cfg contract selector decode S c t A"
proof -
  from assms(3) obtain S' where "(live_step k client cfg contract selector decode)\<^sup>*\<^sup>* S1 S'" "lv_node S' = c"
    "sh_db (lv_shared S') = t" "sh_to_send (lv_shared S1) \<subseteq> sh_to_send (lv_shared S')" "A \<subseteq> lv_accepted S'"
    unfolding live_run_def by blast
  with assms(1,2) show ?thesis unfolding live_run_def by (intro exI [of _ S']) auto
qed

lemma live_run_refl: "lv_node S = c \<Longrightarrow> sh_db (lv_shared S) = t \<Longrightarrow> live_run k client cfg contract selector decode S c t {}"
  unfolding live_run_def by (intro exI [of _ S]) simp

lemma signs_callI:
  "buildCalldata e m = Inr (TxData tx) \<Longrightarrow> TxTo tx = BcContractAddress cfg \<Longrightarrow>
     sign_tx e tx (BcChainID cfg) (BcPrivateKey cfg) = Inr stx \<Longrightarrow> signs_call e cfg m stx"
  unfolding signs_call_def by blast

lemma live_submit:
  assumes "submit_and_wait e client cfg start stx (lv_node S) w = Some (r, c', w')" and "m \<in> sh_to_send (lv_shared S)"
    and "hash_codec (e :: 'abi relayer_env)" and "relays_to e cfg contract selector decode" and "signs_call e cfg m stx"
  shows "live_run k client cfg contract selector decode S c' (sh_db (lv_shared S))
    (if r = Inr () \<or> r = Inl ErrMatchAlreadySubmitted then {m} else {})"
proof -
  obtain r1 c1 where s: "SendTransaction client stx (lv_node S) = (r1, c1)" by (cases "SendTransaction client stx (lv_node S)")
  show ?thesis
  proof (cases r1)
    case (Inl err)
    show ?thesis
    proof (cases "isMatchAlreadySubmitted e err (BcContractABI cfg)")
      case True
      with assms(1) s Inl have c': "c' = c1" by (simp add: submit_and_wait_def)
      let ?S = "S\<lparr>lv_node := c', lv_accepted := insert m (lv_accepted S)\<rparr>"
      have "live_step k client cfg contract selector decode S ?S"
        using live_refused [OF assms(2-5) s [unfolded Inl] True] unfolding c' .
      from live_runI [OF r_into_rtranclp [of "live_step k client cfg contract selector decode", OF this], of "{m}"] show ?thesis
        by (auto simp: live_run_def)
    next
      case False
      with assms(1) s Inl have c': "c' = c1" "r = Inl (SendTxFailed err)" by (auto simp: submit_and_wait_def)
      have "client_call client (lv_node S) c'" using s c'(1) by (auto simp: client_call_def intro: exI [of _ stx])
      from live_runI [OF r_into_rtranclp [of "live_step k client cfg contract selector decode", OF live_call [OF this]], of "{}"] c'(2)
      show ?thesis by simp
    qed
  next
    case (Inr u)
    let ?S = "S\<lparr>lv_node := c1, lv_sent := insert (m, stx) (lv_sent S)\<rparr>"
    have sent: "live_step k client cfg contract selector decode S ?S"
      by (rule live_taken [OF assms(2-5)]) (use s Inr in simp)
    from assms(1) s Inr obtain r2 w2 where w: "waitForReceipt e client start (SignedHash stx) c1 w = Some (r2, c', w2)"
      and r2: "\<And>err. r2 = Inl err \<Longrightarrow> r = Inl (WaitFailed err)"
        "\<And>rc. r2 = Inr rc \<Longrightarrow> r = (if ReceiptStatus rc \<noteq> ReceiptStatusSuccessful then Inl (Reverted (ReceiptStatus rc)) else Inr ())"
      by (auto simp: submit_and_wait_def split: option.splits sum.splits if_splits)
    show ?thesis
    proof (cases "r = Inr ()")
      case True
      then obtain rc where rc: "r2 = Inr rc" "ReceiptStatus rc = ReceiptStatusSuccessful"
        using r2 by (cases r2) (auto split: if_splits)
      from live_confirmed [of e client start stx ?S w rc c' w2 m k cfg contract selector decode] w rc
      have "(live_step k client cfg contract selector decode)\<^sup>*\<^sup>* ?S (?S\<lparr>lv_node := c', lv_accepted := insert m (lv_accepted S)\<rparr>)"
        by simp
      from live_runI [OF converse_rtranclp_into_rtranclp [of "live_step k client cfg contract selector decode", OF sent this], of "{m}"]
      show ?thesis by (auto simp: live_run_def)
    next
      case False
      then have r: "\<not> (r = Inr () \<or> r = Inl ErrMatchAlreadySubmitted)" using r2 by (cases r2) auto
      from live_wait [of e client start "SignedHash stx" ?S w r2 c' w2 k cfg contract selector decode] w
      have "(live_step k client cfg contract selector decode)\<^sup>*\<^sup>* ?S (?S\<lparr>lv_node := c'\<rparr>)" by simp
      from live_runI [OF converse_rtranclp_into_rtranclp [of "live_step k client cfg contract selector decode", OF sent this], of "{}"] r
      show ?thesis by simp
    qed
  qed
qed

lemma live_broadcast:
  assumes "broadcast e client cfg d start (lv_node S) w = Some (r, c', w')" and "buildCalldata e m = Inr d"
    and "m \<in> sh_to_send (lv_shared S)" and "hash_codec (e :: 'abi relayer_env)" and "relays_to e cfg contract selector decode"
  shows "live_run k client cfg contract selector decode S c' (sh_db (lv_shared S))
    (if r = Inr () \<or> r = Inl ErrMatchAlreadySubmitted then {m} else {})"
proof (cases rule: broadcast_cases [where e = e and client = client and cfg = cfg and d = d and start = start
      and c = "lv_node S" and w = w])
  case (early er c1)
  with assms(1) have r: "r = Inl er" "c' = c1" by simp_all
  from live_runI [OF live_reads [OF early(3)], of "{}"] early(2) r show ?thesis by simp
next
  case (signing nonce c1 tip c2 fee c3 est c4 g stx)
  let ?S = "S\<lparr>lv_node := c4\<rparr>"
  have "signs_call e cfg m stx"
    by (rule signs_callI [OF _ _ signing(6)]) (simp_all add: assms(2))
  from live_submit [of e client cfg start stx ?S w r c' w' m contract selector decode k, OF _ _ assms(4,5) this]
  have "live_run k client cfg contract selector decode ?S c' (sh_db (lv_shared S))
      (if r = Inr () \<or> r = Inl ErrMatchAlreadySubmitted then {m} else {})"
    using assms(1,3) signing(7) by simp
  from live_run_after [OF live_reads [OF signing(8)] _ this] show ?thesis by simp
qed

text \<open>One round of the loop, and the loop.\<close>

lemma live_one:
  assumes "broadcast_one e client cfg (Some db) m (lv_node S) w = Some (failed, c', w')" and "sh_db (lv_shared S) = w_db w"
    and "m \<in> sh_to_send (lv_shared S)" and "hash_codec (e :: 'abi relayer_env)" and "relays_to e cfg contract selector decode"
  shows "live_run k client cfg contract selector decode S c' (w_db w') {}"
proof (cases "buildCalldata e m")
  case (Inl er)
  with assms(1) have "c' = lv_node S" "w_db w' = w_db w" by (auto simp: broadcast_one_def)
  with assms(2) show ?thesis by (simp add: live_run_refl)
next
  case (Inr d)
  with assms(1) obtain r c1 w1 where b: "broadcast e client cfg d (w_tick w) (lv_node S) w = Some (r, c1, w1)"
    by (auto simp: broadcast_one_def split: option.splits)
  have c1: "c1 = c'" using assms(1) Inr b by (auto simp: broadcast_one_def split: prod.splits sum.splits if_splits)
  from live_broadcast [OF b Inr assms(3-5), of k] obtain S1 where S1:
    "(live_step k client cfg contract selector decode)\<^sup>*\<^sup>* S S1" "lv_node S1 = c'" "sh_db (lv_shared S1) = w_db w"
    "sh_to_send (lv_shared S) \<subseteq> sh_to_send (lv_shared S1)"
    "r = Inr () \<or> r = Inl ErrMatchAlreadySubmitted \<Longrightarrow> m \<in> lv_accepted S1"
    unfolding live_run_def c1 assms(2) by (auto split: if_splits)
  show ?thesis
  proof (cases "w_db w' = w_db w")
    case True
    with S1 show ?thesis unfolding live_run_def by auto
  next
    case False
    with broadcast_one_cases [OF assms(1)] have acc: "accepted e client cfg (m, lv_node S, w)"
      and db: "w_db w' = (w_db w)\<lparr>matches := mark_broadcasted (rm_ID m) (matches (w_db w))\<rparr>" by auto
    from acc Inr b have "r = Inr () \<or> r = Inl ErrMatchAlreadySubmitted" by (simp add: accepted_def)
    note mark = live_mark [OF S1(5) [OF this], of k client cfg contract selector decode]
    have "sh_db (exec_on (set_status (rm_ID m) BROADCASTED_STATUS) (lv_shared S1)) = w_db w'"
      by (simp add: S1(3) db run_statement_def set_status_def mark_broadcasted_def int4_def BROADCASTED_STATUS_def)
    then have "live_run k client cfg contract selector decode
        (S1\<lparr>lv_shared := exec_on (set_status (rm_ID m) BROADCASTED_STATUS) (lv_shared S1)\<rparr>) c' (w_db w') {}"
      by (intro live_run_refl) (simp_all add: S1(2))
    from live_run_after [OF rtranclp.rtrancl_into_rtrancl [OF S1(1) mark] _ this] S1(4) show ?thesis by simp
  qed
qed

lemma live_loop:
  assumes "hash_codec (e :: 'abi relayer_env)" and "relays_to e cfg contract selector decode"
  shows "BroadcastMatches e client cfg (Some db) ms c w = Some (n, c', w') \<Longrightarrow> lv_node S = c \<Longrightarrow>
    sh_db (lv_shared S) = w_db w \<Longrightarrow> set ms \<subseteq> sh_to_send (lv_shared S) \<Longrightarrow>
    live_run k client cfg contract selector decode S c' (w_db w') {}"
proof (induction ms arbitrary: n c w S)
  case Nil
  then show ?case by (simp add: live_run_refl)
next
  case (Cons m ms)
  from Cons.prems(1) obtain f c1 w1 j where one: "broadcast_one e client cfg (Some db) m c w = Some (f, c1, w1)"
    and rest: "BroadcastMatches e client cfg (Some db) ms c1 w1 = Some (j, c', w')"
    by (rule BroadcastMatches_step)
  from live_one [OF one [folded Cons.prems(2)] Cons.prems(3) _ assms, of k] Cons.prems(4) obtain S1 where S1:
    "(live_step k client cfg contract selector decode)\<^sup>*\<^sup>* S S1" "lv_node S1 = c1" "sh_db (lv_shared S1) = w_db w1"
    "sh_to_send (lv_shared S) \<subseteq> sh_to_send (lv_shared S1)"
    unfolding live_run_def by auto
  from Cons.IH [OF rest S1(2,3)] Cons.prems(4) S1(4)
  have "live_run k client cfg contract selector decode S1 c' (w_db w') {}" by auto
  with S1(1,4) show ?case by (rule live_run_after)
qed

lemma live_relayer:
  assumes "relayer_Run e (drv :: 'db sql_driver) client cfg (lv_node S) w = Some (code, c', w')" and "sh_db (lv_shared S) = w_db w"
    and "faithful_order e" and "hash_codec (e :: 'abi relayer_env)" and "relays_to e cfg contract selector decode"
  shows "live_run k client cfg contract selector decode S c' (w_db w') {}"
  using assms(1)
proof (cases rule: relayer_Run_cases)
  case idle
  have "c' = lv_node S"
    using assms(1) idle(2) by (auto simp: relayer_Run_def go_const split: sum.splits prod.splits option.splits if_splits)
  with idle assms(2) show ?thesis by (simp add: live_run_refl)
next
  case (loop db ms w1 n)
  have ms: "set ms \<subseteq> signed_scans (w_db w)"
    using FindSignedMatches_ok(2) [OF loop(1) assms(3)] by (auto simp: signed_scans_def)
  let ?r = "((lv_shared S)\<lparr>sh_to_send := {}\<rparr>)\<lparr>sh_to_send := signed_scans (w_db w)\<rparr>"
  let ?S = "S\<lparr>lv_shared := widen {} (sh_to_send (lv_shared S)) ?r\<rparr>"
  have "statement_step k ((lv_shared S)\<lparr>sh_to_send := {}\<rparr>) ?r"
    using read_signed [of k "(lv_shared S)\<lparr>sh_to_send := {}\<rparr>"] assms(2) by simp
  then have read: "live_step k client cfg contract selector decode S ?S" by (rule live_statement)
  have "live_run k client cfg contract selector decode ?S c' (w_db w') {}"
    by (rule live_loop [OF assms(4,5) loop(3)]) (use assms(2) loop(2) ms in auto)
  from live_run_after [OF r_into_rtranclp [of "live_step k client cfg contract selector decode", OF read] _ this]
  show ?thesis by simp
qed

section \<open>What every interleaving keeps\<close>

text \<open>The bytes of a match's identifier, the row it was read from, and the transactions that submit it.\<close>

definition match_bytes :: "RelayerMatch \<Rightarrow> byte list" where
  "match_bytes m = projr (hex_decode (rm_CanonicalID m))"

definition named :: "tables \<Rightarrow> RelayerMatch \<Rightarrow> bool" where
  "named t m \<longleftrightarrow> (\<exists>r \<in> set (matches t). row_id r = rm_ID m \<and> row_canonical_id r = rm_CanonicalID m)"

definition submits :: "address \<Rightarrow> (byte list \<Rightarrow> abi_value list option) \<Rightarrow> RelayerMatch \<Rightarrow> signed_tx \<Rightarrow> bool" where
  "submits contract decode m stx \<longleftrightarrow> TxTo (SignedPayload stx) = contract \<and>
     (\<exists>rest. decode (TxData (SignedPayload stx)) = Some (AbiBytes32 (match_bytes m) # rest))"

text \<open>
  The invariant of the tables and what has been read; a transaction that was taken submits its match
  and is still with the node; what was accepted is recorded; and so is every broadcasted row.
\<close>

definition live_inv ::
  "(byte list \<Rightarrow> byte list) \<Rightarrow> ('c \<Rightarrow> MatchRegistry) \<Rightarrow> (signed_tx \<Rightarrow> 'c \<Rightarrow> bool) \<Rightarrow> address \<Rightarrow>
   (byte list \<Rightarrow> abi_value list option) \<Rightarrow> 'c live \<Rightarrow> bool" where
  "live_inv k registry sent contract decode S \<longleftrightarrow>
     shared_inv k (lv_shared S) \<and> (\<forall>m \<in> sh_to_send (lv_shared S). named (sh_db (lv_shared S)) m) \<and>
     (\<forall>(m, stx) \<in> lv_sent S. m \<in> sh_to_send (lv_shared S) \<and> submits contract decode m stx \<and> sent stx (lv_node S)) \<and>
     (\<forall>m \<in> lv_accepted S. m \<in> sh_to_send (lv_shared S) \<and> recorded (registry (lv_node S)) (match_bytes m)) \<and>
     late_rows (recorded_row (registry (lv_node S))) (sh_db (lv_shared S))"

lemma live_invD:
  assumes "live_inv k registry sent contract decode S"
  shows "shared_inv k (lv_shared S)" and "m \<in> sh_to_send (lv_shared S) \<Longrightarrow> named (sh_db (lv_shared S)) m"
    and "(m, stx) \<in> lv_sent S \<Longrightarrow> m \<in> sh_to_send (lv_shared S) \<and> submits contract decode m stx \<and> sent stx (lv_node S)"
    and "m \<in> lv_accepted S \<Longrightarrow> m \<in> sh_to_send (lv_shared S) \<and> recorded (registry (lv_node S)) (match_bytes m)"
    and "late_rows (recorded_row (registry (lv_node S))) (sh_db (lv_shared S))"
  using assms unfolding live_inv_def by auto

lemma scan_signed_name: "scan_signed r = Some m \<Longrightarrow> rm_ID m = row_id r \<and> rm_CanonicalID m = row_canonical_id r"
  by (auto simp: scan_signed_def split: option.splits sum.splits)

lemma scans_named:
  assumes "m \<in> signed_scans t"
  shows "named t m"
proof -
  from assms obtain r where "r \<in> set (matches t)" "scan_signed r = Some m" unfolding signed_scans_def by blast
  with scan_signed_name [OF this(2)] show ?thesis unfolding named_def by (intro bexI [of _ r]) simp_all
qed

lemma named_grown:
  assumes "named t m" and "grown t t'"
  shows "named t' m"
proof -
  from assms(1) obtain r where r: "r \<in> set (matches t)" "row_id r = rm_ID m" "row_canonical_id r = rm_CanonicalID m"
    by (auto simp: named_def)
  obtain r' where r': "r' \<in> set (matches t')" "row_identity r' = row_identity r" by (rule grown_row [OF assms(2) r(1)])
  with row_identity_eqD [OF r'(2)] r(2,3) show ?thesis by (auto simp: named_def)
qed

lemma named_bytes:
  assumes "named t m" and "\<forall>r \<in> set (matches t). row_ok k r"
  obtains r where "row_ok k r" "row_canonical_id r = rm_CanonicalID m" "row_bytes r = match_bytes m"
proof -
  from assms obtain r where r: "row_ok k r" "row_canonical_id r = rm_CanonicalID m" by (auto simp: named_def)
  show thesis by (rule that [OF r]) (simp add: row_bytes_def match_bytes_def r(2))
qed

lemma match_hash_bytes:
  assumes "named t m" and "\<forall>r \<in> set (matches t). row_ok k r" and "\<And>bs. length (k bs) = 32" and "hash_codec e"
  shows "match_hash e m = match_bytes m"
proof -
  obtain r where r: "row_ok k r" "row_canonical_id r = rm_CanonicalID m" "row_bytes r = match_bytes m"
    using assms(1,2) by (rule named_bytes)
  from row_hash_bytes [OF r(1) assms(3,4)] r(2,3) show ?thesis by (simp add: row_hash_def match_hash_def)
qed

lemma match_bytes_nonzero:
  assumes "named t m" and "\<forall>r \<in> set (matches t). row_ok k r"
    and "\<And>comp h a d. known_competition comp \<Longrightarrow> k (packed_match comp h a d) \<noteq> zero_bytes32"
  shows "match_bytes m \<noteq> zero_bytes32"
proof -
  obtain r where r: "row_ok k r" "row_bytes r = match_bytes m" using assms(1,2) by (rule named_bytes)
  show ?thesis by (rule row_bytes_id [OF r(1)]) (use assms(3) r(2) in simp)
qed

text \<open>What a call of the contract that is executed, or refused as known, says about its first argument.\<close>

lemma call_executed_recorded:
  assumes "call_submitMatch o_env cs ts (AbiBytes32 i # rest) before = Some (Inr after)" and "i \<noteq> zero_bytes32"
  shows "recorded after i"
proof -
  from assms(1) obtain c h a hs as d sig where "submitMatch o_env cs ts i c h a hs as d sig before = Inr after"
    by (auto simp: call_submitMatch_def split: list.splits abi_value.splits)
  from submitMatch_ok(12) [OF this] assms(2) show ?thesis by (simp add: recorded_def)
qed

lemma call_refused_recorded:
  assumes "call_submitMatch o_env cs ts (AbiBytes32 i # rest) reg = Some (Inl (MatchAlreadySubmitted mid))"
  shows "recorded reg i"
proof -
  from assms obtain c h a hs as d sig where
    "submitMatch o_env cs ts i c h a hs as d sig reg = Inl (MatchAlreadySubmitted mid)"
    by (auto simp: call_submitMatch_def split: list.splits abi_value.splits)
  then show ?thesis
    by (auto simp: submitMatch_def recorded_def validateSignature_def Let_def split: if_splits sum.splits)
qed

text \<open>The transaction a relayer signs for a match it has read submits that match.\<close>

lemma signs_submits:
  assumes "signs_call e cfg m stx" and "relays_to e cfg contract selector decode" and "match_hash e m = match_bytes m"
  shows "submits contract decode m stx"
proof -
  from assms(1) obtain tx where tx: "buildCalldata e m = Inr (TxData tx)" "TxTo tx = BcContractAddress cfg"
    "sign_tx e tx (BcChainID cfg) (BcPrivateKey cfg) = Inr stx" by (auto simp: signs_call_def)
  have payload: "SignedPayload stx = tx" "BcContractAddress cfg = contract"
    using assms(2) tx(3) by (auto simp: relays_to_def)
  with relays_to_calldata [OF assms(2) tx(1)] tx(2) assms(3) show ?thesis
    by (simp add: submits_def submit_args_def Let_def match_hash_def)
qed

text \<open>The statements of the other services touch a broadcasted row only to put it back.\<close>

lemma statement_late_rows:
  assumes "statement_step k \<sigma> \<sigma>'" and "sh_to_send \<sigma> = {}" and "late_rows P (sh_db \<sigma>)"
    and "\<And>r. row_status r = Signed \<Longrightarrow> P r"
  shows "late_rows P (sh_db \<sigma>')"
  using assms(1)
proof (cases rule: statement_step.cases)
  case (save_stmt e p m now)
  have "row_status (match_to_row e m) = Finished" using save_stmt(5) by (simp add: match_to_row_def)
  note late = upsert_late_rows [OF _ this assms(3)]
  show ?thesis
    unfolding save_stmt(1) exec_on_simps
    by (rule run_statement_cases [where P = "late_rows P"]) (erule late, rule assms(3))
next
  case (commit_tx e p m now i t)
  then obtain n t1 where t1: "upsert_match now (match_to_row e m) (sh_db \<sigma>) = Inr (n, t1)" "matches t = matches t1"
    by (auto simp: saved_and_removed_def)
  have "row_status (match_to_row e m) = Finished" using commit_tx(5) by (simp add: match_to_row_def)
  from late_rows_same [OF t1(2) upsert_late_rows [OF t1(1) this assms(3)]] show ?thesis by (simp add: commit_tx(1))
next
  case (sign_stmt m s key c x)
  show ?thesis
    unfolding sign_stmt(1) exec_on_simps
    by (rule run_statement_cases)
      (use assms(3,4) in \<open>auto simp: store_signature_def late_rows_def Signed_def split: if_splits\<close>)
next
  case (mark_stmt m)
  with assms(2) show ?thesis by simp
qed (use assms(3) in \<open>auto simp: run_statement_def enqueue_recon_def upsert_sync_def late_rows_def split: sum.splits if_splits\<close>)

lemma recorded_row_keeps: "(registry_step o_env)\<^sup>*\<^sup>* reg reg' \<Longrightarrow> recorded_row reg r \<Longrightarrow> recorded_row reg' r"
  unfolding recorded_row_def using recorded_keeps by blast

context oracle_node
begin

text \<open>The node moves on; what it has taken and recorded stays.\<close>

lemma live_inv_node:
  assumes "live_inv k registry sent contract decode S" and "client_call client (lv_node S) c"
  shows "live_inv k registry sent contract decode (S\<lparr>lv_node := c\<rparr>)"
proof -
  note inv = live_invD [OF assms(1)]
  have reg: "(registry_step o_env)\<^sup>*\<^sup>* (registry (lv_node S)) (registry c)" by (rule call_evolves [OF assms(2)])
  have "sent stx c" if "sent stx (lv_node S)" for stx using evolves [OF assms(2)] that by blast
  moreover have "late_rows (recorded_row (registry c)) (sh_db (lv_shared S))"
    using inv(5) recorded_row_keeps [OF reg] by (auto simp: late_rows_def)
  ultimately show ?thesis
    using assms(1) recorded_keeps [OF reg] unfolding live_inv_def by auto
qed

lemma live_inv_accept:
  assumes "live_inv k registry sent contract decode S" and "m \<in> sh_to_send (lv_shared S)"
    and "recorded (registry (lv_node S)) (match_bytes m)"
  shows "live_inv k registry sent contract decode (S\<lparr>lv_accepted := insert m (lv_accepted S)\<rparr>)"
  using assms unfolding live_inv_def by auto

lemma live_inv_statement:
  assumes "live_inv k registry sent contract decode S" and "statement_step k ((lv_shared S)\<lparr>sh_to_send := {}\<rparr>) \<tau>"
  shows "live_inv k registry sent contract decode (S\<lparr>lv_shared := widen {} (sh_to_send (lv_shared S)) \<tau>\<rparr>)"
proof -
  note inv = live_invD [OF assms(1)]
  note step = live_statement_shared [OF assms(2)]
  let ?\<sigma> = "widen {} (sh_to_send (lv_shared S)) \<tau>"
  have grown: "grown (sh_db (lv_shared S)) (sh_db ?\<sigma>)" by (rule statement_step_grown [OF step])
  have "late_rows (recorded_row (registry (lv_node S))) (sh_db \<tau>)"
    by (rule statement_late_rows [OF assms(2)])
      (use inv(5) in \<open>simp_all add: recorded_row_def Signed_def BROADCASTED_STATUS_def\<close>)
  moreover have "named (sh_db ?\<sigma>) m" if "m \<in> sh_to_send ?\<sigma>" for m
    using that statement_step_reads [OF step] inv(2) scans_named named_grown [OF _ grown] by blast
  ultimately show ?thesis
    using statement_step_inv [OF step inv(1)] assms(1) statement_step_reads [OF step] unfolding live_inv_def by auto
qed

lemma live_inv_refused:
  assumes "live_inv k registry sent contract decode S" and "m \<in> sh_to_send (lv_shared S)"
    and "relays_to rel cfg contract selector decode" and "submits contract decode m stx"
    and "SendTransaction client stx (lv_node S) = (Inl err, c)" and "isMatchAlreadySubmitted rel err (BcContractABI cfg)"
  shows "live_inv k registry sent contract decode (S\<lparr>lv_node := c, lv_accepted := insert m (lv_accepted S)\<rparr>)"
proof -
  have call: "client_call client (lv_node S) c" using assms(5) by (auto simp: client_call_def intro: exI [of _ stx])
  obtain msg s bs where err: "err = DataError msg (StringData s)" "hex_decode (trim_prefix s ''0x'') = Inr bs"
    "4 \<le> length bs" "take 4 bs = selector"
    by (rule already_submitted_selector [OF assms(6,3)])
  from refused [OF assms(5) [unfolded err(1)] _ err(2-4)] assms(4) obtain rest mid where
    "call_submitMatch o_env cs ts (AbiBytes32 (match_bytes m) # rest) (registry c) = Some (Inl (MatchAlreadySubmitted mid))"
    by (auto simp: submits_def)
  from live_inv_accept [OF live_inv_node [OF assms(1) call], of m] assms(2) call_refused_recorded [OF this]
  show ?thesis by simp
qed

lemma live_inv_receipt:
  assumes "live_inv k registry sent contract decode S" and "(m, stx) \<in> lv_sent S"
    and "TransactionReceipt client (SignedHash stx) (lv_node S) = (Inr rc, c)" and "ReceiptStatus rc = ReceiptStatusSuccessful"
    and "match_bytes m \<noteq> zero_bytes32"
  shows "live_inv k registry sent contract decode (S\<lparr>lv_node := c, lv_accepted := insert m (lv_accepted S)\<rparr>)"
proof -
  have call: "client_call client (lv_node S) c" using assms(3) client_receipt [of client "lv_node S"] by (metis snd_conv)
  have m: "m \<in> sh_to_send (lv_shared S)" "submits contract decode m stx" "sent stx (lv_node S)"
    using live_invD(3) [OF assms(1,2)] by simp_all
  from executed [OF m(3) assms(3,4)] m(2) obtain rest before after where
    "call_submitMatch o_env cs ts (AbiBytes32 (match_bytes m) # rest) before = Some (Inr after)"
    "(registry_step o_env)\<^sup>*\<^sup>* after (registry c)"
    by (auto simp: submits_def)
  with call_executed_recorded [OF this(1) assms(5)] recorded_keeps
  have "recorded (registry c) (match_bytes m)" by blast
  with live_inv_accept [OF live_inv_node [OF assms(1) call], of m] m(1) show ?thesis by simp
qed

lemma live_inv_mark:
  assumes "live_inv k registry sent contract decode S" and "m \<in> lv_accepted S"
  shows "live_inv k registry sent contract decode
    (S\<lparr>lv_shared := exec_on (set_status (rm_ID m) BROADCASTED_STATUS) (lv_shared S)\<rparr>)"
proof -
  note inv = live_invD [OF assms(1)]
  have m: "m \<in> sh_to_send (lv_shared S)" "recorded (registry (lv_node S)) (match_bytes m)"
    using inv(4) [OF assms(2)] by simp_all
  note step = statement_step.mark_stmt [OF m(1), of k]
  let ?\<sigma> = "exec_on (set_status (rm_ID m) BROADCASTED_STATUS) (lv_shared S)"
  have "inj_on row_id (set (matches (sh_db (lv_shared S))))"
    using inv(1) by (simp add: shared_inv_def wf_tables_def distinct_map)
  with inv(2) [OF m(1)] m(2) have "recorded (registry (lv_node S)) (row_bytes r)"
    if "r \<in> set (matches (sh_db (lv_shared S)))" "row_id r = rm_ID m" for r
    using that by (auto simp: named_def inj_on_def row_bytes_def match_bytes_def)
  then have "late_rows (recorded_row (registry (lv_node S))) (sh_db ?\<sigma>)"
    using inv(5) by (auto simp: late_rows_def run_mark recorded_row_def row_bytes_def)
  moreover have "named (sh_db ?\<sigma>) x" if "named (sh_db (lv_shared S)) x" for x
    using that statement_step_grown [OF step] by (rule named_grown)
  ultimately show ?thesis
    using statement_step_inv [OF step inv(1)] assms(1) unfolding live_inv_def by auto
qed

lemma live_step_inv:
  assumes "live_step k client cfg contract selector decode S S'" and "live_inv k registry sent contract decode S"
    and len: "\<And>bs. length (k bs) = 32"
    and nz: "\<And>comp h a d. known_competition comp \<Longrightarrow> k (packed_match comp h a d) \<noteq> zero_bytes32"
  shows "live_inv k registry sent contract decode S'"
proof -
  note inv = live_invD [OF assms(2)]
  have ok: "\<forall>r \<in> set (matches (sh_db (lv_shared S))). row_ok k r" using inv(1) by (simp add: shared_inv_def)
  note bytes = match_hash_bytes [OF inv(2) ok len]
  note nonzero = match_bytes_nonzero [OF inv(2) ok nz]
  from assms(1) show ?thesis
  proof (cases rule: live_step.cases)
    case (live_statement \<tau>)
    with live_inv_statement [OF assms(2)] show ?thesis by simp
  next
    case (live_call c)
    with live_inv_node [OF assms(2) live_call(2)] show ?thesis by simp
  next
    case (live_taken m rel stx c)
    have "client_call client (lv_node S) c" using live_taken(6) by (auto simp: client_call_def intro: exI [of _ stx])
    from live_inv_node [OF assms(2) this] taken [OF live_taken(6)] live_taken(2)
      signs_submits [OF live_taken(5,4) bytes [OF live_taken(2,3)]]
    show ?thesis unfolding live_taken(1) live_inv_def by auto
  next
    case (live_refused m rel stx err c)
    from live_inv_refused [OF assms(2) live_refused(2,4) signs_submits [OF live_refused(5,4) bytes [OF live_refused(2,3)]]
        live_refused(6,7)] show ?thesis by (simp add: live_refused(1))
  next
    case (live_receipt m stx rc c)
    have "m \<in> sh_to_send (lv_shared S)" using inv(3) [OF live_receipt(2)] by simp
    from live_inv_receipt [OF assms(2) live_receipt(2-4) nonzero [OF this]] show ?thesis by (simp add: live_receipt(1))
  next
    case (live_mark m)
    with live_inv_mark [OF assms(2)] show ?thesis by simp
  qed
qed

lemma live_inv_reachable:
  assumes "(live_step k client cfg contract selector decode)\<^sup>*\<^sup>* (live_idle empty_tables c0) S"
    and "\<And>bs. length (k bs) = 32"
    and "\<And>comp h a d. known_competition comp \<Longrightarrow> k (packed_match comp h a d) \<noteq> zero_bytes32"
  shows "live_inv k registry sent contract decode S"
  using assms(1)
proof (induction rule: rtranclp_induct)
  case base
  show ?case by (simp add: live_inv_def shared_inv_def wf_empty_tables late_rows_def) (simp add: empty_tables_def)
next
  case (step S S')
  from live_step_inv [OF step(2,3) assms(2,3)] show ?case .
qed

end

section \<open>Serial runs\<close>

lemma live_run_interleaved:
  assumes "interleaved k (idle (sh_db (lv_shared S))) \<sigma>'" and "sh_to_send \<sigma>' = {}"
  shows "live_run k client cfg contract selector decode S (lv_node S) (sh_db \<sigma>') {}"
proof -
  let ?A = "sh_to_sign (lv_shared S)" and ?B = "sh_to_send (lv_shared S)"
  have "S\<lparr>lv_shared := widen ?A ?B (idle (sh_db (lv_shared S)))\<rparr> = S"
    by (simp add: widen_def idle_def)
  with live_of_interleaved [OF assms, where client = client and cfg = cfg and contract = contract and selector = selector
      and decode = decode and S = S and A = ?A and B = ?B]
  show ?thesis unfolding live_run_def by (intro exI [of _ "S\<lparr>lv_shared := widen ?A ?B \<sigma>'\<rparr>"]) simp
qed

lemma joint_step_live:
  assumes "joint_step k client cfg contract selector decode (t, c) (t', c')" and "wf_tables t"
    and "sh_db (lv_shared S) = t" and "lv_node S = c"
  shows "live_run k client cfg contract selector decode S c' t' {}"
  using assms(1)
proof (cases rule: joint_step.cases)
  case (joint_sync e provider competition clock w r w')
  from live_run_interleaved [of k S "idle t'"] sync_interleaves [OF joint_sync(5,4,6)] joint_sync(1-3) assms(3,4)
  show ?thesis by simp
next
  case (joint_reconcile e w r w')
  from live_run_interleaved [of k S "idle t'"] reconcile_interleaves [OF joint_reconcile(5,4,6)] joint_reconcile(1-3) assms(2-4)
  show ?thesis by simp
next
  case (joint_sign s w code g w')
  from signer_interleaves [OF joint_sign(4,5), of k] obtain X where
    "interleaved k (idle (w_db w)) ((idle (w_db w'))\<lparr>sh_to_sign := X\<rparr>)" ..
  from live_run_interleaved [of k S "(idle (w_db w'))\<lparr>sh_to_sign := X\<rparr>"] this joint_sign(1-3) assms(3,4)
  show ?thesis by simp
next
  case (joint_relay rel drv w code w')
  from live_relayer [OF joint_relay(6) [folded assms(4)] _ joint_relay(3-5), of k] joint_relay(1,2) assms(3)
  show ?thesis by simp
next
  case joint_chain
  from live_run_refl [of "S\<lparr>lv_node := c'\<rparr>" c' t'] joint_chain(1) assms(3)
  have "live_run k client cfg contract selector decode (S\<lparr>lv_node := c'\<rparr>) c' t' {}" by simp
  from live_run_after [OF r_into_rtranclp [of "live_step k client cfg contract selector decode",
        OF live_call [OF joint_chain(2) [folded assms(4)]]] _ this] show ?thesis by simp
qed

lemma joint_live:
  assumes "(joint_step k client cfg contract selector decode)\<^sup>*\<^sup>* (empty_tables, c0) (t, c)"
  shows "live_run k client cfg contract selector decode (live_idle empty_tables c0) c t {}"
  using assms
proof (induction "(t, c)" arbitrary: t c rule: rtranclp_induct)
  case base
  show ?case by (simp add: live_run_refl)
next
  case (step y)
  obtain t1 c1 where y: "y = (t1, c1)" by (cases y)
  from step(3) [OF y] obtain S1 where S1:
    "(live_step k client cfg contract selector decode)\<^sup>*\<^sup>* (live_idle empty_tables c0) S1" "lv_node S1 = c1"
    "sh_db (lv_shared S1) = t1" unfolding live_run_def by auto
  have "wf_tables t1" using joint_db_inv [OF step(1) [unfolded y]] by (simp add: db_inv_def)
  from live_run_after [OF S1(1) _ joint_step_live [OF step(2) [unfolded y] this S1(3,2)]] show ?case by simp
qed

lemma live_recorded:
  assumes "oracle_node client attempts last_sent registry sent contract selector decode o_env cs ts"
    and "(live_step k client cfg contract selector decode)\<^sup>*\<^sup>* (live_idle empty_tables c0) S"
    and "\<And>bs. length (k bs) = 32"
    and "\<And>comp h a d. known_competition comp \<Longrightarrow> k (packed_match comp h a d) \<noteq> replicate 32 0"
    and "r \<in> set (matches (sh_db (lv_shared S)))" and "row_status r = 5"
  shows "\<exists>mid. row_canonical_id r = hex_encode mid \<and> om_matchId (submitted (registry (lv_node S)) mid) \<noteq> replicate 32 0"
proof -
  have "live_inv k registry sent contract decode S"
    by (rule oracle_node.live_inv_reachable [OF assms(1-3)]) (use assms(4) in \<open>simp add: zero_bytes32_def\<close>)
  note inv = live_invD [OF this]
  have rec: "recorded (registry (lv_node S)) (row_bytes r)"
    using inv(5) assms(5,6) by (simp add: late_rows_def recorded_row_def BROADCASTED_STATUS_def)
  have "row_ok k r" using inv(1) assms(5) by (simp add: shared_inv_def)
  then show ?thesis by (rule row_bytes_id) (use rec in \<open>auto simp: recorded_def zero_bytes32_def\<close>)
qed

section \<open>Properties\<close>

text \<open>
  C1: Broadcasted means recorded, also when everything runs at the same time: however the statements of
  any number of runs of the provider, the signer and the relayer and the calls of any number of
  relayers interleave, and whatever others submit meanwhile, a row the database calls broadcasted is
  one the contract holds a result for, on every node that keeps the promises of the interface.
\<close>

theorem live_broadcasted_is_recorded:
  assumes "oracle_node client attempts last_sent registry sent contract selector decode o_env cs ts"
    and "(live_step k client cfg contract selector decode)\<^sup>*\<^sup>* (live_idle empty_tables c0) S"
    and "\<And>bs. length (k bs) = 32"
    and "\<And>comp h a d. known_competition comp \<Longrightarrow> k (packed_match comp h a d) \<noteq> replicate 32 0"
    and "r \<in> set (matches (sh_db (lv_shared S)))" and "row_status r = 5"
  shows "\<exists>mid. row_canonical_id r = hex_encode mid \<and> om_matchId (submitted (registry (lv_node S)) mid) \<noteq> replicate 32 0"
  by (rule live_recorded [OF assms])

text \<open>
  C2: Serial runs are interleavings: whatever runs of the four programs, one after the other, and the
  chain have made of the tables and the node, statements and calls of the concurrent system make of
  them too. In particular a run of the relayer takes only steps it is entitled to: it marks a match
  only after the node has taken its call and given a receipt with success, or refused it as known.
\<close>

theorem runs_are_live:
  assumes "(joint_step k client cfg contract selector decode)\<^sup>*\<^sup>* (empty_tables, c0) (t, c)"
  shows "\<exists>S. (live_step k client cfg contract selector decode)\<^sup>*\<^sup>* (live_idle empty_tables c0) S \<and>
    sh_db (lv_shared S) = t \<and> lv_node S = c"
  using joint_live [OF assms] unfolding live_run_def by auto

text \<open>
  C3: Broadcasted means recorded: in every state that the four programs, run one after the other in any
  order, and the chain can reach together, a row the database calls broadcasted is one the contract
  holds a result for, whatever others submit meanwhile, however the runs end and whatever database
  calls fail, on every node that keeps the promises of the interface.
\<close>

theorem broadcasted_is_recorded:
  assumes "oracle_node client attempts last_sent registry sent contract selector decode o_env cs ts"
    and "(joint_step k client cfg contract selector decode)\<^sup>*\<^sup>* (empty_tables, c0) (t, c)"
    and "\<And>bs. length (k bs) = 32"
    and "\<And>comp h a d. known_competition comp \<Longrightarrow> k (packed_match comp h a d) \<noteq> replicate 32 0"
    and "r \<in> set (matches t)" and "row_status r = 5"
  shows "\<exists>mid. row_canonical_id r = hex_encode mid \<and> om_matchId (submitted (registry c) mid) \<noteq> replicate 32 0"
proof -
  from joint_live [OF assms(2)] obtain S where
    "(live_step k client cfg contract selector decode)\<^sup>*\<^sup>* (live_idle empty_tables c0) S" "lv_node S = c"
    "sh_db (lv_shared S) = t" unfolding live_run_def by auto
  with live_recorded [OF assms(1) this(1) assms(3,4)] assms(5,6) show ?thesis by auto
qed

text \<open>
  The sample match, signed, in tables of any other contents; a relayer that packs its call, and a node with
  a fresh contract and a name for every id.
\<close>

definition chain_row :: match_row where
  "chain_row = sign_row quiet_signer sample_key 11155111 synced_row"

definition chain_args :: "abi_value list" where
  "chain_args = submit_args quiet_relayer (the (scan_signed chain_row))"

definition packing_relayer :: "unit relayer_env" where
  "packing_relayer = quiet_relayer\<lparr>abi_pack := \<lambda>_ _ args. if args = chain_args then Inr [1, 2, 3] else Inl ''arguments''\<rparr>"

definition named_competitions :: CompetitionRegistry where
  "named_competitions = \<lparr>competitionIdCounter = 6, competitions = (\<lambda>_. ''C''), competition_events = []\<rparr>"

definition named_teams :: TeamRegistry where
  "named_teams = \<lparr>teamIdCounter = 120, teams = (\<lambda>_. ''T''), team_events = []\<rparr>"

definition sample_node_client :: "chain_node ChainClient" where
  "sample_node_client = node_client sample_oracle named_competitions named_teams [1] [0xAA, 0xBB, 0xCC, 0xDD]
     (\<lambda>_. Some chain_args)"

definition fresh_node :: chain_node where
  "fresh_node = \<lparr>node_registry = fresh_registry, node_txs = [], node_attempts = 0, node_last = None\<rparr>"

definition chain_run :: "sync_row list \<Rightarrow> recon_row list \<Rightarrow> (int \<times> chain_node \<times> world) option" where
  "chain_run ss rs = relayer_Run packing_relayer unit_driver sample_node_client sample_cfg fresh_node
     (start_world \<lparr>matches = [chain_row], sync_state = ss, match_reconciliation = rs\<rparr>)"

lemma chain_run_returns:
  obtains c' w' where "chain_run ss rs = Some (0, c', w')" "map row_status (matches (w_db w')) = [5]"
    "map row_canonical_id (matches (w_db w')) = [row_canonical_id synced_row]"
proof -
  have "map_option (\<lambda>(code, c, w). (code, map row_status (matches (w_db w)), map row_canonical_id (matches (w_db w)))) (chain_run ss rs) =
      Some (0, [5], [row_canonical_id synced_row])" by code_simp
  then show thesis using that by (auto split: prod.splits)
qed

lemma chain_path:
  obtains t c' r where "(joint_step (keccak sample_env) sample_node_client sample_cfg [1] [0xAA, 0xBB, 0xCC, 0xDD]
      (\<lambda>_. Some chain_args))\<^sup>*\<^sup>* (empty_tables, fresh_node) (t, c')" "matches t = [r]" "row_status r = 5"
proof -
  let ?step = "joint_step (keccak sample_env) sample_node_client sample_cfg [1] [0xAA, 0xBB, 0xCC, 0xDD] (\<lambda>_. Some chain_args)"
  let ?signed = "synced_tables\<lparr>matches := [chain_row]\<rparr>"
  have one: "?step (empty_tables, fresh_node) (synced_tables, fresh_node)"
    using joint_sync [OF refl sample_env_faithful, of "''football_org''" "''la_liga''" "SystemClock sample_env" "start_world empty_tables"
      _ _ sample_node_client sample_cfg "[1]" "[0xAA, 0xBB, 0xCC, 0xDD]" "\<lambda>_. Some chain_args" fresh_node]
    by (simp add: synced_tables_def start_world_def) (metis prod.collapse)
  obtain code g w' where "signer_Run quiet_signer (Some ()) (no_globals, start_world synced_tables) = (code, g, w')"
    "w_db w' = ?signed"
    by (rule synced_signed_run) (simp add: chain_row_def synced_tables_def sample_sync)
  from joint_sign [OF quiet_signer_simps(2) this(1), of "keccak sample_env" sample_node_client sample_cfg "[1]"
      "[0xAA, 0xBB, 0xCC, 0xDD]" "\<lambda>_. Some chain_args" fresh_node] this(2)
  have two: "?step (synced_tables, fresh_node) (?signed, fresh_node)" by (simp add: start_world_def)
  obtain c' w2 where run: "chain_run (sync_state synced_tables) (match_reconciliation synced_tables) = Some (0, c', w2)"
    "map row_status (matches (w_db w2)) = [5]" "map row_canonical_id (matches (w_db w2)) = [row_canonical_id synced_row]"
    by (rule chain_run_returns)
  have signed: "?signed = \<lparr>matches = [chain_row], sync_state = sync_state synced_tables,
      match_reconciliation = match_reconciliation synced_tables\<rparr>" by simp
  have env: "faithful_order packing_relayer" "hash_codec packing_relayer"
    "relays_to packing_relayer sample_cfg [1] [0xAA, 0xBB, 0xCC, 0xDD] (\<lambda>_. Some chain_args)"
    by (simp_all add: faithful_order_def hash_codec_def relays_to_def packing_relayer_def quiet_relayer_def sample_cfg_def
        hex_decode_encode)
  have three: "?step (?signed, fresh_node) (w_db w2, c')"
    using joint_relay [OF env run(1) [unfolded chain_run_def], of "keccak sample_env"] unfolding signed
    by (simp add: start_world_def)
  from one two three have path: "?step\<^sup>*\<^sup>* (empty_tables, fresh_node) (w_db w2, c')"
    by (meson converse_rtranclp_into_rtranclp r_into_rtranclp)
  obtain r where r: "matches (w_db w2) = [r]" "row_status r = 5" using run(2) by auto
  from that [OF path r] show thesis .
qed

lemma sample_ids_nonzero:
  assumes "known_competition cmp"
  shows "keccak sample_env (packed_match cmp h a d) \<noteq> replicate 32 0"
proof
  assume "keccak sample_env (packed_match cmp h a d) = replicate 32 0"
  then have "take 4 (keccak sample_env (packed_match cmp h a d)) = take 4 (replicate 32 0)" by simp
  then have "uint32ToBytes cmp = replicate 4 0"
    by (simp add: sample_env_def quiet_env_def packed_match_def uint32ToBytes_def)
  then have "put_uint32 cmp = replicate 4 0" by (simp add: uint32ToBytes_def)
  moreover have "put_uint32 LaLiga \<noteq> replicate 4 0 \<and> put_uint32 PremierLeague \<noteq> replicate 4 0 \<and>
      put_uint32 Championship \<noteq> replicate 4 0" by code_simp
  ultimately show False using assms by (auto simp: known_competition_def)
qed

lemma sample_ids_length: "length (keccak sample_env bs) = 32"
  by (simp add: sample_env_def quiet_env_def)

theorem live_broadcasted_is_recorded_witness:
  "\<exists>(S :: chain_node live) r mid. (live_step (keccak sample_env) sample_node_client sample_cfg [1] [0xAA, 0xBB, 0xCC, 0xDD]
       (\<lambda>_. Some chain_args))\<^sup>*\<^sup>* (live_idle empty_tables fresh_node) S \<and>
     matches (sh_db (lv_shared S)) = [r] \<and> row_status r = 5 \<and> row_canonical_id r = hex_encode mid \<and>
     om_matchId (submitted (node_registry (lv_node S)) mid) \<noteq> replicate 32 0"
proof -
  obtain t c r where path: "(joint_step (keccak sample_env) sample_node_client sample_cfg [1] [0xAA, 0xBB, 0xCC, 0xDD]
      (\<lambda>_. Some chain_args))\<^sup>*\<^sup>* (empty_tables, fresh_node) (t, c)" and r: "matches t = [r]" "row_status r = 5"
    by (rule chain_path)
  from joint_live [OF path] obtain S where S: "(live_step (keccak sample_env) sample_node_client sample_cfg [1]
      [0xAA, 0xBB, 0xCC, 0xDD] (\<lambda>_. Some chain_args))\<^sup>*\<^sup>* (live_idle empty_tables fresh_node) S"
    "sh_db (lv_shared S) = t" unfolding live_run_def by auto
  from live_broadcasted_is_recorded [OF node.oracle_node_axioms S(1) [unfolded sample_node_client_def] sample_ids_length
      sample_ids_nonzero _ r(2)] S(2) r(1)
  obtain mid where "row_canonical_id r = hex_encode mid" "om_matchId (submitted (node_registry (lv_node S)) mid) \<noteq> replicate 32 0"
    by auto
  with S r show ?thesis by blast
qed

theorem runs_are_live_witness:
  "\<exists>(S :: chain_node live) r. (live_step (keccak sample_env) sample_node_client sample_cfg [1] [0xAA, 0xBB, 0xCC, 0xDD]
       (\<lambda>_. Some chain_args))\<^sup>*\<^sup>* (live_idle empty_tables fresh_node) S \<and>
     matches (sh_db (lv_shared S)) = [r] \<and> row_status r = 5"
proof -
  obtain t c r where path: "(joint_step (keccak sample_env) sample_node_client sample_cfg [1] [0xAA, 0xBB, 0xCC, 0xDD]
      (\<lambda>_. Some chain_args))\<^sup>*\<^sup>* (empty_tables, fresh_node) (t, c)" and r: "matches t = [r]" "row_status r = 5"
    by (rule chain_path)
  from runs_are_live [OF path] r show ?thesis by blast
qed

theorem broadcasted_is_recorded_witness:
  "\<exists>t (c :: chain_node) r mid. (joint_step (keccak sample_env) sample_node_client sample_cfg [1] [0xAA, 0xBB, 0xCC, 0xDD]
       (\<lambda>_. Some chain_args))\<^sup>*\<^sup>* (empty_tables, fresh_node) (t, c) \<and>
     matches t = [r] \<and> row_status r = 5 \<and> row_canonical_id r = hex_encode mid \<and>
     om_matchId (submitted (node_registry c) mid) \<noteq> replicate 32 0"
proof -
  obtain t c r where path: "(joint_step (keccak sample_env) sample_node_client sample_cfg [1] [0xAA, 0xBB, 0xCC, 0xDD]
      (\<lambda>_. Some chain_args))\<^sup>*\<^sup>* (empty_tables, fresh_node) (t, c)" and r: "matches t = [r]" "row_status r = 5"
    by (rule chain_path)
  from broadcasted_is_recorded [OF node.oracle_node_axioms path [unfolded sample_node_client_def] sample_ids_length
      sample_ids_nonzero _ r(2)] r(1)
  obtain mid where "row_canonical_id r = hex_encode mid" "om_matchId (submitted (node_registry c) mid) \<noteq> replicate 32 0"
    by auto
  with path r show ?thesis by blast
qed

end
