(* ===== verification/Json_Codec.thy ===== *)
theory Json_Codec
  imports Apifootball
begin

text \<open>
  The JSON scanner of \<open>Go_Json\<close> against a printer: its fuel never runs out, and what the printer
  writes it reads back, so the body of a response gives exactly the events it was written from.
\<close>

section \<open>What is scanned is consumed\<close>

lemma utf8_len_le: "utf8_len s \<le> length s"
  by (cases s rule: utf8_len.cases) (auto simp: Let_def split: list.split)

lemma hex4_shorter: "hex4 s = Some (n, u) \<Longrightarrow> length u < length s"
  by (auto simp: hex4_def split: list.splits option.splits if_splits)

lemma surrogate_pair_shorter: "surrogate_pair r s = Some (n, u) \<Longrightarrow> length u < length s"
  by (auto simp: surrogate_pair_def Let_def split: list.splits option.splits if_splits dest!: hex4_shorter)

text \<open>
  One step of the string scanner: it ends at the quote, fails, or decodes a first part and goes on with
  a shorter input.
\<close>

lemma scan_string_step:
  obtains (stop) r where "\<And>fuel. scan_string (Suc fuel) s = r" "\<And>t u. r = Some (t, u) \<Longrightarrow> length u < length s"
  | (more) p s' where "length s' < length s"
      "\<And>fuel. scan_string (Suc fuel) s = map_option (\<lambda>(t, u). (p @ t, u)) (scan_string fuel s')"
proof (cases s)
  case Nil
  with stop [of None] show thesis by simp
next
  case (Cons c rest)
  show thesis
  proof (cases "c = CHR 0x22 \<or> c \<noteq> CHR 0x5C \<and> byte_val c < 32")
    case True
    then have ends: "scan_string (Suc fuel) s = (if c = CHR 0x22 then Some ([], rest) else None)" for fuel
      using Cons by auto
    show thesis by (rule stop [OF ends]) (use Cons in \<open>auto split: if_splits\<close>)
  next
    case no: False
    show thesis
    proof (cases "c = CHR 0x5C")
      case False
      then have "length (drop (utf8_len s) s) < length s \<or> utf8_len s = 0" using Cons by auto
      with no False Cons more [of rest "utf8_encode replacement_char"] more [of "drop (utf8_len s) s" "take (utf8_len s) s"]
      show thesis by (cases "utf8_len s") auto
    next
      case True
      show thesis
      proof (cases rest)
        case Nil
        with True Cons stop [of None] show thesis by simp
      next
        case rest: (Cons x rest')
        show thesis
        proof (cases "x = CHR ''u''")
          case False
          with True Cons rest stop [of None] more [of rest' "[the (simple_escape x)]"] show thesis
            by (cases "simple_escape x") auto
        next
          case u: True
          show thesis
          proof (cases "hex4 rest'")
            case None
            with True Cons rest u stop [of None] show thesis by simp
          next
            case (Some ru)
            obtain r rest2 where ru: "ru = (r, rest2)" by (cases ru)
            obtain cp rest3 where p: "(if is_surrogate r
                then (case surrogate_pair r rest2 of Some (cp, rest3) \<Rightarrow> (cp, rest3) | None \<Rightarrow> (replacement_char, rest2))
                else (r, rest2)) = (cp, rest3)" by fastforce
            have "length rest2 < length rest'" using hex4_shorter Some ru by blast
            moreover have "length rest3 \<le> length rest2"
              using p by (auto split: if_splits option.splits dest: surrogate_pair_shorter)
            ultimately have "length rest3 < length s" using Cons rest by simp
            then show thesis using True Cons rest u Some ru p by (intro more [of rest3 "utf8_encode cp"]) simp_all
          qed
        qed
      qed
    qed
  qed
qed

lemma scan_string_shorter: "scan_string fuel s = Some (t, u) \<Longrightarrow> length u < length s"
proof (induction fuel arbitrary: s t u)
  case (Suc fuel)
  show ?case
  proof (cases rule: scan_string_step [where s = s])
    case (stop r)
    with Suc.prems show ?thesis by simp
  next
    case (more p s')
    with Suc.prems obtain t' where "scan_string fuel s' = Some (t', u)" by auto
    with Suc.IH more(1) show ?thesis by fastforce
  qed
qed simp

lemma scan_string_fuel: "length s < fuel \<Longrightarrow> length s < fuel' \<Longrightarrow> scan_string fuel s = scan_string fuel' s"
proof (induction fuel arbitrary: s fuel')
  case (Suc fuel)
  then obtain n where n: "fuel' = Suc n" by (cases fuel') auto
  show ?case
  proof (cases rule: scan_string_step [where s = s])
    case (stop r)
    then show ?thesis by (simp only: n)
  next
    case (more p s')
    moreover have "scan_string fuel s' = scan_string n s'"
      by (rule Suc.IH) (use Suc.prems n more(1) in simp_all)
    ultimately show ?thesis by (simp only: n)
  qed
qed simp

lemma scan_number_shorter: "scan_number s = Some (t, u) \<Longrightarrow> length u < length s"
proof -
  have le: "length (dropWhile P xs) \<le> length xs" for P and xs :: string by (rule length_dropWhile_le)
  have int: "scan_int_part s = Some (t, u) \<Longrightarrow> length u < length s" for s t u
    by (auto simp: scan_int_part_def le_imp_less_Suc length_dropWhile_le split: list.splits if_splits)
  have frac: "scan_frac_part s = Some (t, u) \<Longrightarrow> length u \<le> length s" for s t u
    by (auto simp: scan_frac_part_def le_SucI length_dropWhile_le split: list.splits if_splits)
  have exp: "scan_exp_part s = Some (t, u) \<Longrightarrow> length u \<le> length s" for s t u
    by (auto simp: scan_exp_part_def Let_def le_SucI length_dropWhile_le split: list.splits if_splits)
  assume "scan_number s = Some (t, u)"
  obtain sg s1 where s1: "(case s of c # rest \<Rightarrow> if c = CHR ''-'' then ([c], rest) else ([], s) | [] \<Rightarrow> ([], s)) = (sg, s1)"
    by fastforce
  then have "length s1 \<le> length s" by (auto split: list.splits if_splits)
  moreover from \<open>scan_number s = Some (t, u)\<close> s1 obtain ip s2 fp s3 ep where "scan_int_part s1 = Some (ip, s2)"
    "scan_frac_part s2 = Some (fp, s3)" "scan_exp_part s3 = Some (ep, u)"
    by (auto simp: scan_number_def Let_def split: option.splits)
  ultimately show ?thesis using int [of s1 ip s2] frac [of s2 fp s3] exp [of s3 ep u] by linarith
qed

section \<open>Fuel\<close>

declare scan_string.simps [simp del] scan_value.simps [simp del] scan_elements.simps [simp del] scan_members.simps [simp del]

lemmas scan_0 = scan_value.simps(1) scan_elements.simps(1) scan_members.simps(1)

lemma skip_ws_le: "length (skip_ws s) \<le> length s"
  by (simp add: skip_ws_def length_dropWhile_le)

lemma skip_ws_Cons: "skip_ws s = c # rest \<Longrightarrow> length rest < length s"
  using skip_ws_le [of s] by simp

lemma scan_value_shorter_step:
  assumes "\<And>d s vs u. scan_elements fuel d s = Some (vs, u) \<Longrightarrow> length u < length s"
    and "\<And>d s ms u. scan_members fuel d s = Some (ms, u) \<Longrightarrow> length u < length s"
    and "scan_value (Suc fuel) d s = Some (v, u)"
  shows "length u < length s"
proof (cases "skip_ws s")
  case Nil
  with assms(3) show ?thesis by (simp add: scan_value.simps(2))
next
  case (Cons c rest)
  have len: "length rest < length s" using skip_ws_Cons [OF Cons] .
  have drop: "length (drop n rest) < length s" for n using len by simp
  have inner: "length xs < length s" if "skip_ws rest = x # xs" for x xs
    using skip_ws_Cons [OF that] len by simp
  have number: "length u < length s" if "scan_number (c # rest) = Some (t, u)" for t u
    using scan_number_shorter [OF that] skip_ws_le [of s] Cons by simp
  have elements: "length u < length s" if "scan_elements fuel d' rest = Some (vs, u)" for d' vs u
    using assms(1) [OF that] len by simp
  have members: "length u < length s" if "scan_members fuel d' rest = Some (ms, u)" for d' ms u
    using assms(2) [OF that] len by simp
  have string: "length u < length s" if "scan_string n rest = Some (t, u)" for n t u
    using scan_string_shorter [OF that] len by simp
  from assms(3) show ?thesis
    unfolding scan_value.simps(2) Cons list.case
    using len drop inner number
    by (auto split: if_splits list.splits
        dest: elements members string)
qed

lemma scan_elements_shorter_step:
  assumes "\<And>d s v u. scan_value fuel d s = Some (v, u) \<Longrightarrow> length u < length s"
    and "\<And>d s vs u. scan_elements fuel d s = Some (vs, u) \<Longrightarrow> length u < length s"
    and "scan_elements (Suc fuel) d s = Some (vs, u)"
  shows "length u < length s"
proof -
  from assms(3) obtain v s1 c rest where 1: "scan_value fuel d s = Some (v, s1)" "skip_ws s1 = c # rest"
    by (auto simp: scan_elements.simps(2) split: option.splits list.splits)
  have len: "length rest < length s" using assms(1) [OF 1(1)] skip_ws_Cons [OF 1(2)] by simp
  from assms(3) 1 show ?thesis using len less_trans [OF assms(2) len] by (auto simp: scan_elements.simps(2) split: if_splits)
qed

lemma scan_members_shorter_step:
  assumes "\<And>d s v u. scan_value fuel d s = Some (v, u) \<Longrightarrow> length u < length s"
    and "\<And>d s ms u. scan_members fuel d s = Some (ms, u) \<Longrightarrow> length u < length s"
    and "scan_members (Suc fuel) d s = Some (ms, u)"
  shows "length u < length s"
proof -
  from assms(3) obtain rest key s1 s2 v s3 c s4 where 1: "skip_ws s = CHR 0x22 # rest"
    "scan_string (Suc (length rest)) rest = Some (key, s1)" "skip_ws s1 = CHR '':'' # s2"
    "scan_value fuel d s2 = Some (v, s3)" "skip_ws s3 = c # s4"
    by (auto simp: scan_members.simps(2) split: option.splits list.splits if_splits)
  have len: "length s4 < length s"
    using skip_ws_Cons [OF 1(1)] scan_string_shorter [OF 1(2)] skip_ws_Cons [OF 1(3)] assms(1) [OF 1(4)]
      skip_ws_Cons [OF 1(5)] by simp
  from assms(3) 1 show ?thesis using len less_trans [OF assms(2) len] by (auto simp: scan_members.simps(2) split: if_splits)
qed

lemma scan_shorter_all:
  "(\<forall>d s v u. scan_value fuel d s = Some (v, u) \<longrightarrow> length u < length s) \<and>
   (\<forall>d s vs u. scan_elements fuel d s = Some (vs, u) \<longrightarrow> length u < length s) \<and>
   (\<forall>d s ms u. scan_members fuel d s = Some (ms, u) \<longrightarrow> length u < length s)"
proof (induction fuel)
  case (Suc fuel)
  then have 1: "scan_value fuel d s = Some (v, u) \<Longrightarrow> length u < length s"
    and 2: "scan_elements fuel d s = Some (vs, u) \<Longrightarrow> length u < length s"
    and 3: "scan_members fuel d s = Some (ms, u) \<Longrightarrow> length u < length s" for d s v u vs ms
    by blast+
  from scan_value_shorter_step [OF 2 3] scan_elements_shorter_step [OF 1 2] scan_members_shorter_step [OF 1 3]
  show ?case by (intro conjI allI impI)
qed (simp add: scan_0)

lemmas scan_shorter =
  scan_shorter_all [THEN conjunct1, rule_format]
  scan_shorter_all [THEN conjunct2, THEN conjunct1, rule_format]
  scan_shorter_all [THEN conjunct2, THEN conjunct2, rule_format]

text \<open>One member of an object: its key is read without fuel of the caller, the rest with it.\<close>

definition member_rest :: "nat \<Rightarrow> nat \<Rightarrow> string \<Rightarrow> string \<Rightarrow> ((string \<times> json) list \<times> string) option" where
  "member_rest fuel d key s2 =
     (case scan_value fuel d s2 of
        None \<Rightarrow> None
      | Some (v, s3) \<Rightarrow>
          (case skip_ws s3 of
             [] \<Rightarrow> None
           | c # s4 \<Rightarrow>
               if c = CHR ''}'' then Some ([(key, v)], s4)
               else if c = CHR '','' then map_option (\<lambda>(ms, u). ((key, v) # ms, u)) (scan_members fuel d s4)
               else None))"

lemma scan_members_step:
  obtains (stop) "\<And>fuel. scan_members (Suc fuel) d s = None"
  | (more) key s2 where "length s2 < length s" "\<And>fuel. scan_members (Suc fuel) d s = member_rest fuel d key s2"
proof (cases "\<exists>rest key s1 s2. skip_ws s = CHR 0x22 # rest \<and> scan_string (Suc (length rest)) rest = Some (key, s1) \<and>
    skip_ws s1 = CHR '':'' # s2")
  case True
  then obtain rest key s1 s2 where 1: "skip_ws s = CHR 0x22 # rest"
    "scan_string (Suc (length rest)) rest = Some (key, s1)" "skip_ws s1 = CHR '':'' # s2" by blast
  have "length s2 < length s"
    using skip_ws_Cons [OF 1(1)] scan_string_shorter [OF 1(2)] skip_ws_Cons [OF 1(3)] by simp
  then show thesis
    by (rule more) (simp add: 1 scan_members.simps(2) member_rest_def)
next
  case False
  then have "scan_members (Suc fuel) d s = None" for fuel
    by (auto simp: scan_members.simps(2) split: list.split option.split)
  then show thesis by (rule stop)
qed

text \<open>With the fuel its input needs, a scan gives the same result as with any more.\<close>

lemma scan_fuel_all:
  "(\<forall>fuel' d s. 2 * length s < fuel \<longrightarrow> 2 * length s < fuel' \<longrightarrow> scan_value fuel d s = scan_value fuel' d s) \<and>
   (\<forall>fuel' d s. 2 * length s + 1 < fuel \<longrightarrow> 2 * length s + 1 < fuel' \<longrightarrow>
      scan_elements fuel d s = scan_elements fuel' d s) \<and>
   (\<forall>fuel' d s. 2 * length s + 1 < fuel \<longrightarrow> 2 * length s + 1 < fuel' \<longrightarrow>
      scan_members fuel d s = scan_members fuel' d s)"
proof (induction fuel)
  case (Suc fuel)
  then have val_eq: "2 * length s < fuel \<Longrightarrow> 2 * length s < n \<Longrightarrow> scan_value fuel d s = scan_value n d s"
    and elements: "2 * length s + 1 < fuel \<Longrightarrow> 2 * length s + 1 < n \<Longrightarrow> scan_elements fuel d s = scan_elements n d s"
    and members: "2 * length s + 1 < fuel \<Longrightarrow> 2 * length s + 1 < n \<Longrightarrow> scan_members fuel d s = scan_members n d s"
    for n d s by blast+
  have A: "scan_value (Suc fuel) d s = scan_value (Suc n) d s" if "2 * length s < Suc fuel" "2 * length s < Suc n" for n d s
  proof (cases "skip_ws s")
    case (Cons c rest)
    have len: "2 * length rest + 1 < fuel" "2 * length rest + 1 < n" using skip_ws_Cons [OF Cons] that by simp_all
    show ?thesis by (simp add: scan_value.simps(2) Cons elements [OF len] members [OF len] split: list.split)
  qed (simp add: scan_value.simps(2))
  have B: "scan_elements (Suc fuel) d s = scan_elements (Suc n) d s"
    if f: "2 * length s + 1 < Suc fuel" "2 * length s + 1 < Suc n" for n d s
  proof (cases "scan_value fuel d s")
    case None
    with val_eq [of s n d] f show ?thesis by (simp add: scan_elements.simps(2))
  next
    case (Some vu)
    obtain v s1 where vu: "vu = (v, s1)" by (cases vu)
    with Some have v: "scan_value fuel d s = Some (v, s1)" by simp
    moreover have "scan_value fuel d s = scan_value n d s" using f by (intro val_eq) simp_all
    ultimately have v': "scan_value n d s = Some (v, s1)" by simp
    show ?thesis
    proof (cases "skip_ws s1")
      case (Cons c rest)
      have "2 * length rest + 1 < fuel \<and> 2 * length rest + 1 < n"
        using scan_shorter(1) [OF v] skip_ws_Cons [OF Cons] f by simp
      then have "scan_elements fuel d rest = scan_elements n d rest" by (intro elements) simp_all
      with v v' Cons show ?thesis by (simp add: scan_elements.simps(2))
    qed (simp add: v v' scan_elements.simps(2))
  qed
  have C: "scan_members (Suc fuel) d s = scan_members (Suc n) d s"
    if f: "2 * length s + 1 < Suc fuel" "2 * length s + 1 < Suc n" for n d s
  proof (cases rule: scan_members_step [where s = s and d = d])
    case stop
    then show ?thesis by simp
  next
    case (more key s2)
    have v: "scan_value fuel d s2 = scan_value n d s2" using more(1) f by (intro val_eq) simp_all
    have "scan_members fuel d s4 = scan_members n d s4"
      if "scan_value n d s2 = Some (v, s3)" "skip_ws s3 = c # s4" for v s3 c s4
      using scan_shorter(1) [OF that(1)] skip_ws_Cons [OF that(2)] more(1) f by (intro members) simp_all
    then show ?thesis by (simp add: more(2) v member_rest_def split: option.split list.split)
  qed
  show ?case
  proof (intro conjI allI impI)
    fix m d and s :: string
    assume "2 * length s < Suc fuel" "2 * length s < m"
    then show "scan_value (Suc fuel) d s = scan_value m d s" using A [of s "m - 1" d] by (cases m) auto
  next
    fix m d and s :: string
    assume "2 * length s + 1 < Suc fuel" "2 * length s + 1 < m"
    then show "scan_elements (Suc fuel) d s = scan_elements m d s" using B [of s "m - 1" d] by (cases m) auto
  next
    fix m d and s :: string
    assume "2 * length s + 1 < Suc fuel" "2 * length s + 1 < m"
    then show "scan_members (Suc fuel) d s = scan_members m d s" using C [of s "m - 1" d] by (cases m) auto
  qed
qed (simp add: scan_0)

lemmas scan_fuel =
  scan_fuel_all [THEN conjunct1, rule_format]
  scan_fuel_all [THEN conjunct2, THEN conjunct1, rule_format]
  scan_fuel_all [THEN conjunct2, THEN conjunct2, rule_format]

text \<open>The fuel \<open>json_parse\<close> gives to the scanner is enough: more of it changes nothing.\<close>

lemma json_parse_fuel:
  "2 * length s + 2 \<le> fuel \<Longrightarrow>
     json_parse s = (case scan_value fuel 0 s of None \<Rightarrow> None | Some (v, rest) \<Rightarrow> if skip_ws rest = [] then Some v else None)"
  unfolding json_parse_def by (subst scan_fuel(1) [of s "2 * length s + 2" fuel]) simp_all

section \<open>Documents a printer writes\<close>

lemma utf8_len_append: "utf8_len s \<noteq> 0 \<Longrightarrow> utf8_len (s @ t) = utf8_len s"
proof -
  assume nz: "utf8_len s \<noteq> 0"
  then obtain c rest where s: "s = c # rest" by (cases s) auto
  consider "rest = []" | x where "rest = [x]" | x y where "rest = [x, y]" | x y z r where "rest = x # y # z # r"
    by (metis list.exhaust)
  then show ?thesis using nz by cases (simp_all add: s Let_def split: if_splits)
qed

declare utf8_len.simps [simp del]

text \<open>A string that needs no escapes: well-formed UTF-8 with no control character, quote or backslash.\<close>

function plain :: "string \<Rightarrow> bool" where
  "plain [] = True"
| "plain (c # s) =
     (if byte_val c < 32 \<or> c = CHR 0x22 \<or> c = CHR 0x5C \<or> utf8_len (c # s) = 0 then False
      else plain (drop (utf8_len (c # s)) (c # s)))"
  by pat_completeness auto
termination
  by (relation "measure length") auto

declare plain.simps(2) [simp del]

text \<open>The text of a natural number: digits, and no zero in front of others.\<close>

definition number_text :: "string \<Rightarrow> bool" where
  "number_text t \<longleftrightarrow> t \<noteq> [] \<and> list_all json_digit t \<and> (hd t = CHR ''0'' \<longrightarrow> t = ''0'')"

text \<open>Values whose strings need no escapes, nested no deeper than the scanner follows.\<close>

fun printable :: "nat \<Rightarrow> json \<Rightarrow> bool"
  and printables :: "nat \<Rightarrow> json list \<Rightarrow> bool"
  and printable_members :: "nat \<Rightarrow> (string \<times> json) list \<Rightarrow> bool" where
  "printable d JNull = True"
| "printable d (JBool b) = True"
| "printable d (JNumber t) = number_text t"
| "printable d (JString s) = plain s"
| "printable d (JArray vs) = (d < max_depth \<and> printables (Suc d) vs)"
| "printable d (JObject ms) = (d < max_depth \<and> printable_members (Suc d) ms)"
| "printables d [] = True"
| "printables d (v # vs) = (printable d v \<and> printables d vs)"
| "printable_members d [] = True"
| "printable_members d ((k, v) # ms) = (plain k \<and> printable d v \<and> printable_members d ms)"

definition quoted :: "string \<Rightarrow> string" where
  "quoted s = CHR 0x22 # s @ [CHR 0x22]"

fun render :: "json \<Rightarrow> string"
  and render_elements :: "json list \<Rightarrow> string"
  and render_members :: "(string \<times> json) list \<Rightarrow> string" where
  "render JNull = ''null''"
| "render (JBool b) = (if b then ''true'' else ''false'')"
| "render (JNumber t) = t"
| "render (JString s) = quoted s"
| "render (JArray vs) = ''['' @ render_elements vs"
| "render (JObject ms) = CHR ''{'' # render_members ms"
| "render_elements [] = '']''"
| "render_elements (v # vs) = render v @ (if vs = [] then '']'' else '','' @ render_elements vs)"
| "render_members [] = ''}''"
| "render_members ((k, v) # ms) =
     quoted k @ '':'' @ render v @ (if ms = [] then ''}'' else '','' @ render_members ms)"

lemma scan_string_plain:
  "plain s \<Longrightarrow> length s < fuel \<Longrightarrow> scan_string fuel (s @ CHR 0x22 # rest) = Some (s, rest)"
proof (induction s arbitrary: fuel rule: plain.induct)
  case 1
  then show ?case by (cases fuel) (auto simp: scan_string.simps)
next
  case (2 c s)
  let ?n = "utf8_len (c # s)"
  from 2 obtain m where m: "fuel = Suc m" "length s < m" by (cases fuel) auto
  from \<open>plain (c # s)\<close> have c: "32 \<le> byte_val c" "c \<noteq> CHR 0x22" "c \<noteq> CHR 0x5C" "?n \<noteq> 0" "plain (drop ?n (c # s))"
    by (simp_all add: plain.simps(2) split: if_splits)
  have le: "?n \<le> length (c # s)" by (rule utf8_len_le)
  have len: "utf8_len ((c # s) @ CHR 0x22 # rest) = ?n" by (rule utf8_len_append) (rule c(4))
  have "scan_string m (drop ?n (c # s) @ CHR 0x22 # rest) = Some (drop ?n (c # s), rest)"
    using 2(1) c m le by simp
  moreover have "drop ?n ((c # s) @ CHR 0x22 # rest) = drop ?n (c # s) @ CHR 0x22 # rest"
    "take ?n ((c # s) @ CHR 0x22 # rest) = take ?n (c # s)"
    by (simp_all only: drop_append take_append diff_is_0_eq' [OF le] drop_0 take_0 append_Nil2)
  moreover obtain n where n: "?n = Suc n" using c(4) by (cases ?n) auto
  ultimately have "scan_string (Suc m) ((c # s) @ CHR 0x22 # rest) =
      Some (take ?n (c # s) @ drop ?n (c # s), rest)"
    using c len by (simp add: scan_string.simps(2) del: append_take_drop_id)
  then show ?case by (simp add: m)
qed

lemma scan_quoted:
  "plain s \<Longrightarrow> scan_string (Suc (length (s @ CHR 0x22 # rest))) (s @ CHR 0x22 # rest) = Some (s, rest)"
  by (rule scan_string_plain) simp_all

text \<open>What follows a value: the end of the text, or a character that ends a number.\<close>

definition delimited :: "string \<Rightarrow> bool" where
  "delimited s \<longleftrightarrow> (case s of [] \<Rightarrow> True | c # _ \<Rightarrow> c = CHR '']'' \<or> c = CHR ''}'' \<or> c = CHR '','')"

lemma json_digit_char: "json_digit c \<Longrightarrow> 48 \<le> byte_val c \<and> byte_val c \<le> 57"
  by (auto simp: json_digit_def digit_val_def byte_val_def Let_def split: if_splits)

lemma digit_is_not:
  assumes "json_digit c"
  shows "c \<noteq> CHR ''-''" "c \<noteq> CHR 0x22" "c \<noteq> CHR ''[''" "c \<noteq> CHR '']''" "c \<noteq> CHR ''{''" "c \<noteq> CHR ''}''"
    "c \<noteq> CHR ''t''" "c \<noteq> CHR ''f''" "c \<noteq> CHR ''n''" "c \<noteq> CHR '' ''" "c \<noteq> CHR 0x09" "c \<noteq> CHR 0x0A" "c \<noteq> CHR 0x0D"
  using json_digit_char [OF assms] by (auto simp: byte_val_def)

lemma scan_number_text:
  assumes t: "number_text t" and rest: "delimited rest"
  shows "scan_number (t @ rest) = Some (t, rest)"
proof -
  obtain c ds where c: "t = c # ds" using t by (cases t) (auto simp: number_text_def)
  have digits: "list_all json_digit t" using t by (simp add: number_text_def)
  have nodigit: "\<not> json_digit x" if "x = CHR '']'' \<or> x = CHR ''}'' \<or> x = CHR '',''" for x
    using that by (auto simp: json_digit_def digit_val_def)
  have split: "takeWhile json_digit (t @ rest) = t \<and> dropWhile json_digit (t @ rest) = rest"
    using digits rest nodigit by (cases rest) (auto simp: delimited_def list_all_iff takeWhile_append dropWhile_append)
  have "scan_int_part (t @ rest) = Some (t, rest)"
    using t split digits c by (auto simp: scan_int_part_def number_text_def)
  moreover have "scan_frac_part rest = Some ([], rest)" "scan_exp_part rest = Some ([], rest)"
    using rest by (auto simp: delimited_def scan_frac_part_def scan_exp_part_def split: list.splits)
  moreover have "c \<noteq> CHR ''-''" using digits c digit_is_not by auto
  ultimately show ?thesis by (simp add: scan_number_def c)
qed

text \<open>A printed value starts with a character that is neither white space nor a closing bracket.\<close>

lemma render_head:
  assumes "printable d v"
  obtains c cs where "render v = c # cs" "\<And>rest. skip_ws (c # rest) = c # rest" "c \<noteq> CHR '']''" "c \<noteq> CHR ''}''"
proof (cases v)
  case (JNumber t)
  with assms obtain c ds where c: "t = c # ds" "json_digit c" by (cases t) (auto simp: number_text_def)
  show thesis using JNumber c digit_is_not [OF c(2)] by (intro that [of c ds]) (auto simp: skip_ws_def)
next
  case (JBool b)
  then show thesis using that by (cases b) (auto simp: skip_ws_def)
qed (use that in \<open>auto simp: skip_ws_def quoted_def\<close>)

lemma render_length: "printable d v \<Longrightarrow> 0 < length (render v)"
  by (rule render_head [of d v]) simp_all

lemma skip_ws_delimited: "delimited s \<Longrightarrow> skip_ws s = s"
  by (auto simp: delimited_def skip_ws_def split: list.splits)

lemma skip_ws_open:
  "skip_ws (CHR ''['' # s) = CHR ''['' # s" "skip_ws (CHR ''{'' # s) = CHR ''{'' # s"
  "skip_ws (CHR 0x22 # s) = CHR 0x22 # s" "skip_ws (CHR '':'' # s) = CHR '':'' # s"
  by (simp_all add: skip_ws_def)

lemma scan_render:
  "printable d v \<Longrightarrow> delimited rest \<Longrightarrow> 2 * length (render v) \<le> fuel \<Longrightarrow>
     scan_value fuel d (render v @ rest) = Some (v, rest)"
  "vs \<noteq> [] \<Longrightarrow> printables d vs \<Longrightarrow> 2 * length (render_elements vs) \<le> fuel \<Longrightarrow>
     scan_elements fuel d (render_elements vs @ rest) = Some (vs, rest)"
  "ms \<noteq> [] \<Longrightarrow> printable_members d ms \<Longrightarrow> 2 * length (render_members ms) \<le> fuel \<Longrightarrow>
     scan_members fuel d (render_members ms @ rest) = Some (ms, rest)"
proof (induction v and vs and ms arbitrary: d rest fuel and d rest fuel and d rest fuel
    rule: render_render_elements_render_members.induct)
  case 1
  then show ?case by (cases fuel) (auto simp: scan_value.simps(2) skip_ws_def)
next
  case (2 b)
  then show ?case by (cases fuel; cases b) (auto simp: scan_value.simps(2) skip_ws_def)
next
  case (3 t)
  obtain c cs where c: "t = c # cs" "json_digit c" using 3 by (cases t) (auto simp: number_text_def)
  with 3 scan_number_text [of t rest] digit_is_not [OF c(2)] show ?case
    by (cases fuel) (auto simp: scan_value.simps(2) skip_ws_def)
next
  case (4 s)
  with scan_quoted [of s rest] show ?case by (cases fuel) (auto simp: scan_value.simps(2) skip_ws_def quoted_def)
next
  case (5 vs)
  then obtain n where n: "fuel = Suc n" by (cases fuel) auto
  show ?case
  proof (cases vs)
    case Nil
    with 5 n show ?thesis by (simp add: scan_value.simps(2) skip_ws_def)
  next
    case (Cons v ws)
    from Cons 5 have "printable (Suc d) v" by simp
    then obtain c cs where c: "render v = c # cs" "\<And>x. skip_ws (c # x) = c # x" "c \<noteq> CHR '']''" "c \<noteq> CHR ''}''"
      by (rule render_head) blast
    have "scan_elements n (Suc d) (render_elements vs @ rest) = Some (vs, rest)"
      by (rule 5(1)) (use 5 n Cons in auto)
    with 5 n Cons c show ?thesis by (simp add: scan_value.simps(2) skip_ws_open)
  qed
next
  case (6 ms)
  then obtain n where n: "fuel = Suc n" by (cases fuel) auto
  show ?case
  proof (cases ms)
    case Nil
    with 6 n show ?thesis by (simp add: scan_value.simps(2) skip_ws_open skip_ws_delimited delimited_def)
  next
    case (Cons kv ms')
    have "scan_members n (Suc d) (render_members ms @ rest) = Some (ms, rest)"
      by (rule 6(1)) (use 6 n Cons in auto)
    with 6 n Cons show ?thesis by (cases kv) (simp add: scan_value.simps(2) skip_ws_open quoted_def)
  qed
next
  case 7
  then show ?case by simp
next
  case (8 v vs)
  obtain n where n: "fuel = Suc n" using 8 render_length [of d v] by (cases fuel) auto
  let ?rest = "(if vs = [] then '']'' else '','' @ render_elements vs) @ rest"
  have "scan_value n d (render v @ ?rest) = Some (v, ?rest)"
    by (rule 8(1)) (use 8 n in \<open>auto simp: delimited_def split: if_splits\<close>)
  moreover have "scan_elements n d (render_elements vs @ rest) = Some (vs, rest)" if "vs \<noteq> []"
    by (rule 8(2)) (use 8 n that in auto)
  ultimately show ?case using n by (auto simp: scan_elements.simps(2) skip_ws_delimited delimited_def)
next
  case 9
  then show ?case by simp
next
  case (10 k v ms)
  obtain n where n: "fuel = Suc n" using 10 by (cases fuel) (auto simp: quoted_def)
  let ?rest = "(if ms = [] then ''}'' else '','' @ render_members ms) @ rest"
  let ?body = "'':'' @ render v @ ?rest"
  have "scan_value n d (render v @ ?rest) = Some (v, ?rest)"
    by (rule 10(1)) (use 10 n in \<open>auto simp: delimited_def quoted_def split: if_splits\<close>)
  moreover have "scan_members n d (render_members ms @ rest) = Some (ms, rest)" if "ms \<noteq> []"
    by (rule 10(2)) (use 10 n that in \<open>auto simp: quoted_def\<close>)
  moreover have "scan_string (Suc (length (k @ CHR 0x22 # ?body))) (k @ CHR 0x22 # ?body) = Some (k, ?body)"
    by (rule scan_quoted) (use 10 in simp)
  ultimately show ?case
    using n by (auto simp: scan_members.simps(2) skip_ws_delimited delimited_def skip_ws_open quoted_def)
qed

theorem parse_render: "printable 0 v \<Longrightarrow> json_parse (render v) = Some v"
  using scan_render(1) [of 0 v "[]"] by (simp add: json_parse_def delimited_def skip_ws_def)

section \<open>The bodies of the match service\<close>

definition event_members :: "apifootballEvent \<Rightarrow> (string \<times> json) list" where
  "event_members ev =
     [(''match_id'', JString (MatchID ev)), (''league_id'', JString (LeagueID ev)),
      (''match_date'', JString (MatchDate ev)), (''match_time'', JString (MatchTime ev)),
      (''match_status'', JString (MatchStatus ev)), (''match_hometeam_id'', JString (MatchHometeamID ev)),
      (''match_awayteam_id'', JString (MatchAwayteamID ev)),
      (''match_hometeam_score'', JString (MatchHometeamScore ev)),
      (''match_awayteam_score'', JString (MatchAwayteamScore ev))]"

definition events_body :: "apifootballEvent list \<Rightarrow> string" where
  "events_body evs = render (JArray (map (\<lambda>ev. JObject (event_members ev)) evs))"

definition error_body :: "nat \<Rightarrow> string \<Rightarrow> string" where
  "error_body code message = render (JObject [(''error'', JNumber (show_nat code)), (''message'', JString message)])"

definition plain_event :: "apifootballEvent \<Rightarrow> bool" where
  "plain_event ev \<longleftrightarrow>
     list_all plain [MatchID ev, LeagueID ev, MatchDate ev, MatchTime ev, MatchStatus ev, MatchHometeamID ev,
       MatchAwayteamID ev, MatchHometeamScore ev, MatchAwayteamScore ev]"

text \<open>The keys as the decoder folds them.\<close>

lemma folded_keys:
  "fold_name ''match_id'' = ''MATCH_ID''" "fold_name ''league_id'' = ''LEAGUE_ID''"
  "fold_name ''match_date'' = ''MATCH_DATE''" "fold_name ''match_time'' = ''MATCH_TIME''"
  "fold_name ''match_status'' = ''MATCH_STATUS''" "fold_name ''match_hometeam_id'' = ''MATCH_HOMETEAM_ID''"
  "fold_name ''match_awayteam_id'' = ''MATCH_AWAYTEAM_ID''"
  "fold_name ''match_hometeam_score'' = ''MATCH_HOMETEAM_SCORE''"
  "fold_name ''match_awayteam_score'' = ''MATCH_AWAYTEAM_SCORE''"
  "fold_name ''error'' = ''ERROR''" "fold_name ''message'' = ''MESSAGE''"
  by code_simp+

lemma decode_event: "decode_struct set_event_field zero_event (JObject (event_members ev)) = Some ev"
  by (simp add: decode_struct_def event_members_def folded_keys set_event_field_def event_fields_def set_string_def
      zero_event_def del: fold_name.simps)

lemma decode_events_body:
  "decode_slice set_event_field zero_event (JArray (map (\<lambda>ev. JObject (event_members ev)) evs)) = Some evs"
  by (simp add: decode_slice_def decode_event list_all_iff comp_def del: fold_name.simps)

lemma plain_keys:
  "plain ''match_id''" "plain ''league_id''" "plain ''match_date''" "plain ''match_time''"
  "plain ''match_status''" "plain ''match_hometeam_id''" "plain ''match_awayteam_id''"
  "plain ''match_hometeam_score''" "plain ''match_awayteam_score''" "plain ''error''" "plain ''message''"
  by code_simp+

lemma printable_event: "plain_event ev \<Longrightarrow> printable 1 (JObject (event_members ev))"
  by (simp add: event_members_def plain_event_def max_depth_def plain_keys)

lemma printable_events:
  assumes "list_all plain_event evs"
  shows "printable 0 (JArray (map (\<lambda>ev. JObject (event_members ev)) evs))"
proof -
  from assms have "printables 1 (map (\<lambda>ev. JObject (event_members ev)) evs)"
    by (induction evs) (simp_all add: printable_event [simplified One_nat_def] del: printable.simps)
  then show ?thesis by (simp add: max_depth_def)
qed

lemma json_digit_digit_char: "n < 10 \<Longrightarrow> json_digit (digit_char n)"
  by (simp add: json_digit_def digit_val_char)

lemma digit_char_zero: "n < 10 \<Longrightarrow> digit_char n = CHR ''0'' \<Longrightarrow> n = 0"
  using digit_val_char [of n] by (simp add: digit_val_def)

lemma show_nat_digits: "list_all json_digit (show_nat n) \<and> (hd (show_nat n) = CHR ''0'' \<longrightarrow> n = 0)"
proof (induction n rule: show_nat.induct)
  case (1 n)
  show ?case
  proof (cases "n < 10")
    case True
    then show ?thesis by (simp add: show_nat.simps [of n] json_digit_digit_char digit_char_zero)
  next
    case False
    then have "n div 10 \<noteq> 0" by presburger
    with 1 False show ?thesis by (simp add: show_nat.simps [of n] json_digit_digit_char hd_append)
  qed
qed

lemma number_text_show_nat: "number_text (show_nat n)"
  using show_nat_digits [of n] by (auto simp: number_text_def show_nat.simps [of 0] digit_char_def)

lemma decode_events_of_body: "list_all plain_event evs \<Longrightarrow> decode_events (events_body evs) = Inr evs"
  using parse_render [OF printable_events, of evs] decode_events_body [of evs]
  by (simp add: decode_events_def events_body_def decode_struct_def Let_def)

lemma parse_int_show_nat:
  assumes "n < 2 ^ 63"
  shows "parse_int 64 (show_nat n) = Inr (int n)"
proof -
  obtain c cs where c: "show_nat n = c # cs" by (cases "show_nat n") auto
  then have "json_digit c" using show_nat_digits [of n] by simp
  then have "c \<noteq> CHR ''+''" "c \<noteq> CHR ''-''" by (auto simp: json_digit_def digit_val_def)
  moreover have "parse_uint 64 (c # cs) = Inr n" unfolding c [symmetric] by (rule parse_uint_show_nat) (use assms in simp)
  ultimately show ?thesis using assms by (simp add: parse_int_def c)
qed

lemma decode_error_body:
  assumes "n < 2 ^ 63"
  shows "decode_struct set_error_field \<lparr>Error = 0, Message = []\<rparr>
      (JObject [(''error'', JNumber (show_nat n)), (''message'', JString message)]) =
    Some \<lparr>Error = int n, Message = message\<rparr>"
  using parse_int_show_nat [OF assms]
  by (simp add: decode_struct_def folded_keys set_error_field_def set_int_def set_string_def del: fold_name.simps)

lemma decode_events_of_error:
  assumes "plain message" and "code < 2 ^ 63"
  shows "decode_events (error_body code message) =
    (if code = 404 then Inr [] else if code = 0 then Inl DecodeError else Inl (ApiError (int code) message))"
proof -
  have "printable 0 (JObject [(''error'', JNumber (show_nat code)), (''message'', JString message)])"
    using assms(1) plain_keys by (simp add: number_text_show_nat max_depth_def)
  from parse_render [OF this] decode_error_body [OF assms(2), of message] show ?thesis
    by (simp add: decode_events_def error_body_def decode_slice_def)
qed

end
