(* ===== verification/Mock_Server.thy ===== *)
theory Mock_Server
  imports Json_Codec
begin

text \<open>
  The mock of the match services (\<open>src/provider/testutil/server.go\<close>): the builder of a server, its
  handler with the requests it captures, and the query parameters it reads back; with what the
  handler uses of \<open>net/url\<close>.
\<close>

section \<open>net/url: reading a query\<close>

fun query_unescape :: "string \<Rightarrow> string option" where
  "query_unescape [] = Some []"
| "query_unescape (c # rest) =
     (if c = CHR ''%'' then
        (case rest of
           a # b # rest' \<Rightarrow>
             (case (hex_val a, hex_val b) of
                (Some x, Some y) \<Rightarrow> map_option (\<lambda>t. char_of (x * 16 + y) # t) (query_unescape rest')
              | _ \<Rightarrow> None)
         | _ \<Rightarrow> None)
      else map_option (\<lambda>t. (if c = CHR ''+'' then CHR '' '' else c) # t) (query_unescape rest))"

definition cut :: "char \<Rightarrow> string \<Rightarrow> string \<times> string" where
  "cut c s = (takeWhile (\<lambda>x. x \<noteq> c) s, drop 1 (dropWhile (\<lambda>x. x \<noteq> c) s))"

fun split_on :: "char \<Rightarrow> string \<Rightarrow> string list" where
  "split_on c [] = [[]]"
| "split_on c (x # xs) =
     (if x = c then [] # split_on c xs
      else (case split_on c xs of [] \<Rightarrow> [[x]] | p # ps \<Rightarrow> (x # p) # ps))"

text \<open>One setting of a query; a setting that is empty or malformed is left out.\<close>

definition parse_setting :: "string \<Rightarrow> (string \<times> string) option" where
  "parse_setting s =
     (if s = [] \<or> CHR '';'' \<in> set s then None
      else (case cut (CHR ''='') s of (k, v) \<Rightarrow>
        (case query_unescape k of None \<Rightarrow> None
         | Some k' \<Rightarrow> (case query_unescape v of None \<Rightarrow> None | Some v' \<Rightarrow> Some (k', v')))))"

definition parse_query :: "string \<Rightarrow> (string \<times> string) list" where
  "parse_query s = List.map_filter parse_setting (split_on (CHR ''&'') s)"

text \<open>\<open>Values.Get\<close>: the first value of the key, the empty string when there is none.\<close>

definition values_get :: "(string \<times> string) list \<Rightarrow> string \<Rightarrow> string" where
  "values_get ps k = (case map_of ps k of None \<Rightarrow> [] | Some v \<Rightarrow> v)"

text \<open>The raw query of a URL: from the first question mark to the fragment.\<close>

definition raw_query :: "string \<Rightarrow> string" where
  "raw_query u = snd (cut (CHR ''?'') (fst (cut (CHR ''#'') u)))"

section \<open>The server\<close>

text \<open>
  A server stands for its URL; the state of the handler is the last URL it was asked for and the
  number of requests. Status codes are those that may carry a body.
\<close>

record ServerWithRequestCapture =
  Server :: string
  RequestURL :: "string option"
  RequestsCount :: go_uint

record ServerBuilder =
  statusCode :: nat
  responseBody :: string
  delay :: duration

definition CreateServerBuilder :: ServerBuilder where
  "CreateServerBuilder = \<lparr>statusCode = 200, responseBody = [], delay = 0\<rparr>"

definition WithStatusCode :: "nat \<Rightarrow> ServerBuilder \<Rightarrow> ServerBuilder" where
  "WithStatusCode code b = b\<lparr>statusCode := code\<rparr>"

definition WithResponseBody :: "string \<Rightarrow> ServerBuilder \<Rightarrow> ServerBuilder" where
  "WithResponseBody body b = b\<lparr>responseBody := body\<rparr>"

definition WithDelay :: "duration \<Rightarrow> ServerBuilder \<Rightarrow> ServerBuilder" where
  "WithDelay d b = b\<lparr>delay := d\<rparr>"

text \<open>The handler captures the request, sleeps if it was told to, and answers.\<close>

definition serve :: "ServerBuilder \<Rightarrow> string \<Rightarrow> ServerWithRequestCapture \<Rightarrow> http_result \<times> ServerWithRequestCapture" where
  "serve b u capture =
     (HttpResponse (statusCode b) (Some (responseBody b)),
      capture\<lparr>RequestURL := Some u, RequestsCount := RequestsCount capture + 1\<rparr>)"

text \<open>
  \<open>Build\<close> starts a server at a URL and points the environment variables of both data sources to it. A
  run in that environment meets the handler; a handler that sleeps may outlast the deadline of the
  context.
\<close>

definition Build :: "string \<Rightarrow> ServerBuilder \<Rightarrow> (string \<Rightarrow> string) \<Rightarrow> ServerWithRequestCapture \<times> (string \<Rightarrow> string)" where
  "Build u b env =
     (\<lparr>Server = u, RequestURL = None, RequestsCount = 0\<rparr>,
      env(''FOOTBALL_ORG_API_ENDPOINT'' := u, ''APIFOOTBALL_API_ENDPOINT'' := u, ''APIFOOTBALL_API_KEY'' := ''test-key''))"

definition on_server :: "string \<Rightarrow> ServerBuilder \<Rightarrow> provider_env \<Rightarrow> provider_env" where
  "on_server u b e =
     e\<lparr>getenv := snd (Build u b (getenv e)),
       http_get := \<lambda>n url.
         if 0 < delay b \<and> ctx_done e (Suc n) then HttpFailed else fst (serve b url (fst (Build u b (getenv e))))\<rparr>"

definition GetQueryParam :: "ServerWithRequestCapture \<Rightarrow> string \<Rightarrow> string" where
  "GetQueryParam s key = (case RequestURL s of None \<Rightarrow> [] | Some u \<Rightarrow> values_get (parse_query (raw_query u)) key)"

definition ExpectNumberOfRequests :: "ServerWithRequestCapture \<Rightarrow> go_uint \<Rightarrow> bool" where
  "ExpectNumberOfRequests server numberOfRequests \<longleftrightarrow> RequestsCount server = numberOfRequests"

text \<open>What the server has captured after the requests of a log.\<close>

fun captured :: "ServerBuilder \<Rightarrow> io_event list \<Rightarrow> ServerWithRequestCapture \<Rightarrow> ServerWithRequestCapture" where
  "captured b [] capture = capture"
| "captured b (ApiRequest u # evs) capture = captured b evs (snd (serve b u capture))"
| "captured b (_ # evs) capture = captured b evs capture"

section \<open>A query is read as it was written\<close>

lemma split_on_plain: "c \<notin> set s \<Longrightarrow> split_on c s = [s]"
  by (induction s) auto

lemma split_on_append: "c \<notin> set s \<Longrightarrow> split_on c (s @ c # t) = s # split_on c t"
  by (induction s) auto

lemma split_on_join:
  "xs \<noteq> [] \<Longrightarrow> \<forall>x\<in>set xs. c \<notin> set x \<Longrightarrow> split_on c (join_strings [c] xs) = xs"
  by (induction "[c]" xs rule: join_strings.induct) (simp_all add: split_on_plain split_on_append)

lemma cut_append: "c \<notin> set s \<Longrightarrow> cut c (s @ c # t) = (s, t)"
  unfolding cut_def by (induction s) auto

lemma cut_plain: "c \<notin> set s \<Longrightarrow> cut c s = (s, [])"
  unfolding cut_def by (induction s) auto

lemma hex_val_upper: "n < 16 \<Longrightarrow> hex_val (upper_hex_char n) = Some n"
  by (auto simp: hex_val_def upper_hex_char_def Let_def)

lemma of_char_div_less: "of_char c div 16 < (16 :: nat)"
proof -
  have "of_char c < (256 :: nat)" by simp
  then show ?thesis by linarith
qed

lemma unescape_escape_char: "query_unescape (query_escape_char c @ s) = map_option (\<lambda>t. c # t) (query_unescape s)"
proof (cases "url_unreserved c")
  case True
  then have "c \<noteq> CHR ''%''" "c \<noteq> CHR ''+''" by (auto simp: url_unreserved_def)
  with True show ?thesis by (simp add: query_escape_char_def)
next
  case False
  show ?thesis
  proof (cases "c = CHR '' ''")
    case True
    with False show ?thesis by (simp add: query_escape_char_def)
  next
    case c: False
    have "hex_val (upper_hex_char (of_char c div 16)) = Some (of_char c div 16)"
      "hex_val (upper_hex_char (of_char c mod 16)) = Some (of_char c mod 16)"
      using of_char_div_less [of c] by (simp_all add: hex_val_upper)
    moreover have "of_char c div 16 * 16 + of_char c mod 16 = (of_char c :: nat)" by simp
    ultimately show ?thesis using False c by (simp add: query_escape_char_def)
  qed
qed

lemma unescape_escape: "query_unescape (query_escape s) = Some s"
  by (induction s) (simp_all add: query_escape_def unescape_escape_char del: query_unescape.simps(2))

text \<open>None of the characters that structure a query or a URL survives the escaping.\<close>

lemma upper_hex_char_unreserved: "n < 16 \<Longrightarrow> url_unreserved (upper_hex_char n)"
  by (auto simp: url_unreserved_def upper_hex_char_def Let_def)

definition url_safe :: "char \<Rightarrow> bool" where
  "url_safe c \<longleftrightarrow> c \<notin> set ''&=;#?''"

lemma url_safe_unreserved: "url_unreserved c \<Longrightarrow> url_safe c"
  by (auto simp: url_unreserved_def url_safe_def)

lemma escape_safe: "list_all url_safe (query_escape s)"
proof -
  have "list_all url_safe (query_escape_char c)" for c
    using of_char_div_less [of c]
    by (auto simp: query_escape_char_def url_safe_unreserved upper_hex_char_unreserved) (simp_all add: url_safe_def)
  then show ?thesis by (induction s) (simp_all add: query_escape_def)
qed

lemma escape_without: "c \<in> set ''&=;#?'' \<Longrightarrow> c \<notin> set (query_escape s)"
  using escape_safe [of s] by (auto simp: list_all_iff url_safe_def)

definition setting :: "string \<times> string \<Rightarrow> string" where
  "setting p = query_escape (fst p) @ ''='' @ query_escape (snd p)"

lemma parse_setting_of: "parse_setting (setting p) = Some p"
proof -
  have "cut (CHR ''='') (setting p) = (query_escape (fst p), query_escape (snd p))"
    unfolding setting_def using cut_append [OF escape_without, of "CHR ''=''" "fst p" "query_escape (snd p)"] by simp
  moreover have "CHR '';'' \<notin> set (setting p)" by (auto simp: setting_def escape_without)
  moreover have "setting p \<noteq> []" by (simp add: setting_def)
  ultimately show ?thesis by (simp add: parse_setting_def unescape_escape)
qed

lemma encode_values_settings: "encode_values ps = join_strings ''&'' (map setting (sort_params ps))"
  by (simp add: encode_values_def setting_def [abs_def] case_prod_unfold)

lemma parse_settings: "List.map_filter parse_setting (map setting ps) = ps"
  by (induction ps) (simp_all add: map_filter_simps parse_setting_of)

lemma parse_query_encode: "parse_query (encode_values ps) = sort_params ps"
proof (cases "sort_params ps = []")
  case True
  then show ?thesis by (simp add: parse_query_def encode_values_settings parse_setting_def map_filter_simps)
next
  case False
  have "split_on (CHR ''&'') (encode_values ps) = map setting (sort_params ps)"
    unfolding encode_values_settings using False by (intro split_on_join) (auto simp: setting_def escape_without)
  then show ?thesis by (simp add: parse_query_def parse_settings)
qed

lemma encode_values_plain: "c \<in> set ''#?'' \<Longrightarrow> c \<notin> set (encode_values ps)"
proof -
  have join: "set (join_strings sep xs) \<subseteq> set sep \<union> (\<Union>x\<in>set xs. set x)" for sep xs
    by (induction sep xs rule: join_strings.induct) auto
  assume c: "c \<in> set ''#?''"
  then have "c \<notin> set (setting p)" for p by (auto simp: setting_def escape_without)
  with join [of "''&''" "map setting (sort_params ps)"] c show ?thesis by (auto simp: encode_values_settings)
qed

lemma keys_insert_param: "fst ` set (insert_param p ps) = insert (fst p) (fst ` set ps)"
  by (induction ps) auto

lemma map_of_insert_param: "fst p \<notin> fst ` set ps \<Longrightarrow> map_of (insert_param p ps) = (map_of ps)(fst p \<mapsto> snd p)"
  by (induction ps) (auto simp: fun_upd_twist)

lemma map_of_sort_params: "distinct (map fst ps) \<Longrightarrow> fst ` set (sort_params ps) = fst ` set ps \<and> map_of (sort_params ps) = map_of ps"
  by (induction ps) (auto simp: sort_params_def keys_insert_param map_of_insert_param image_iff)

text \<open>The parameters of a request: those given, over the three that are always there.\<close>

lemma set_param_facts:
  assumes "distinct (map fst ps)"
  shows "distinct (map fst (set_param k v ps))" "map_of (set_param k v ps) = (map_of ps)(k \<mapsto> v)"
proof -
  show "distinct (map fst (set_param k v ps))" using assms by (auto simp: set_param_def distinct_map inj_on_def)
  show "map_of (set_param k v ps) = (map_of ps)(k \<mapsto> v)"
    by (induction ps) (auto simp: set_param_def fun_eq_iff)
qed

lemma foldl_set_param:
  "distinct (map fst ps) \<Longrightarrow> distinct (map fst qs) \<Longrightarrow>
     distinct (map fst (foldl (\<lambda>ps (k, v). set_param k v ps) ps qs)) \<and>
     map_of (foldl (\<lambda>ps (k, v). set_param k v ps) ps qs) = map_of ps ++ map_of qs"
proof (induction qs arbitrary: ps)
  case (Cons q qs)
  obtain k v where q: "q = (k, v)" by (cases q)
  have "map_of qs k = None" using Cons.prems q by (simp add: map_of_eq_None_iff)
  then have "(map_of ps)(k \<mapsto> v) ++ map_of qs = map_of ps ++ (map_of qs)(k \<mapsto> v)"
    by (auto simp: fun_eq_iff map_add_def split: option.split)
  moreover note set_param_facts [OF Cons.prems(1), of k v]
  moreover note Cons.IH [of "set_param k v ps"]
  ultimately show ?case using Cons.prems(2) unfolding q
    by (simp only: foldl_Cons prod.case map_of.simps fst_conv snd_conv list.simps distinct.simps simp_thms)
qed simp

definition always_params :: "APIFootballProvider \<Rightarrow> string \<Rightarrow> string option" where
  "always_params p = map_of [(''action'', ''get_events''), (''APIkey'', apiKey p), (''timezone'', ''utc'')]"

lemma request_parameters:
  assumes "distinct (map fst params)" and "set (baseURL p) \<inter> set ''?#'' = {}"
  shows "values_get (parse_query (raw_query (request_url p params))) key =
    (case (always_params p ++ map_of params) key of None \<Rightarrow> [] | Some v \<Rightarrow> v)"
proof -
  define ps where "ps = foldl (\<lambda>ps (k, v). set_param k v ps)
    [(''action'', ''get_events''), (''APIkey'', apiKey p), (''timezone'', ''utc'')] params"
  have ps: "distinct (map fst ps) \<and> map_of ps = always_params p ++ map_of params"
    unfolding ps_def always_params_def by (rule foldl_set_param) (use assms(1) in simp_all)
  have url: "request_url p params = baseURL p @ ''?'' @ encode_values ps"
    by (simp add: request_url_def ps_def)
  have "CHR ''#'' \<notin> set (request_url p params)"
    using assms(2) by (auto simp: url encode_values_plain)
  then have "raw_query (request_url p params) = encode_values ps"
    using cut_append [of "CHR ''?''" "baseURL p" "encode_values ps"] assms(2) by (simp add: raw_query_def cut_plain url)
  then show ?thesis using map_of_sort_params [of ps] ps by (simp add: parse_query_encode values_get_def)
qed

section \<open>What is served arrives\<close>

text \<open>
  C27: What the match service serves arrives: when it answers with status 200 and the text of a list of
  events whose strings need no escapes, \<open>get\<close> returns exactly these events, in their order and with every
  field in its place, whatever was asked for and however long the list is.
\<close>

theorem served_events_arrive:
  assumes "http_get e (w_tick w) (request_url p params) = HttpResponse 200 (Some (events_body evs))"
    and "list_all plain_event evs"
  shows "fst (api_get e p params w) = Inr evs"
  using assms by (simp add: api_get_def decode_events_of_body)

definition serving :: "string \<Rightarrow> provider_env" where
  "serving body = on_server ''u'' (WithResponseBody body CreateServerBuilder) quiet_env"

lemma serving_facts: "http_get (serving body) n u = HttpResponse 200 (Some body)"
  by (simp add: serving_def on_server_def serve_def WithResponseBody_def CreateServerBuilder_def)

theorem served_events_arrive_witness:
  "fst (api_get (serving (events_body [sample_event, sample_event\<lparr>MatchHometeamScore := ''3''\<rparr>]))
     \<lparr>baseURL = ''u'', apiKey = ''k''\<rparr> [] (start_world sample_queue)) =
   Inr [sample_event, sample_event\<lparr>MatchHometeamScore := ''3''\<rparr>]"
proof -
  have "list_all plain_event [sample_event, sample_event\<lparr>MatchHometeamScore := ''3''\<rparr>]" by code_simp
  then show ?thesis by (intro served_events_arrive) (simp_all add: serving_facts)
qed

text \<open>
  The error object of the match service: with status 200 and an error object as the body, code 404 is an
  empty list of events, any other code but 0 is an API error that carries the code and the message, and
  code 0 (which is not an error to the program, and no list either) is a decoding error.
\<close>

theorem served_errors_arrive:
  assumes "http_get e (w_tick w) (request_url p params) = HttpResponse 200 (Some (error_body code message))"
    and "plain message" and "code < 2 ^ 63"
  shows "fst (api_get e p params w) =
    (if code = 404 then Inr [] else if code = 0 then Inl DecodeError else Inl (ApiError (int code) message))"
  using assms by (simp add: api_get_def decode_events_of_error)

theorem served_errors_arrive_witness:
  "fst (api_get (serving (error_body 404 ''No event found'')) \<lparr>baseURL = ''u'', apiKey = ''k''\<rparr> [] (start_world sample_queue)) =
     Inr [] \<and>
   fst (api_get (serving (error_body 500 ''down'')) \<lparr>baseURL = ''u'', apiKey = ''k''\<rparr> [] (start_world sample_queue)) =
     Inl (ApiError 500 ''down'')"
proof -
  have "plain ''No event found''" "plain ''down''" by code_simp+
  then show ?thesis
    using served_errors_arrive [of "serving (error_body 404 ''No event found'')" "start_world sample_queue"
        "\<lparr>baseURL = ''u'', apiKey = ''k''\<rparr>" "[]" 404 "''No event found''"]
      served_errors_arrive [of "serving (error_body 500 ''down'')" "start_world sample_queue"
        "\<lparr>baseURL = ''u'', apiKey = ''k''\<rparr>" "[]" 500 "''down''"]
    by (simp add: serving_facts)
qed


section \<open>What is asked is seen\<close>

lemma convert_events_log: "w_log (snd (convert_events e c evs w)) = w_log w"
  by (induction evs arbitrary: w) (simp_all add: case_prod_beta split: sum.split)

text \<open>What a server built at a URL has captured of the requests made between two states of a run.\<close>

definition asked :: "string \<Rightarrow> ServerBuilder \<Rightarrow> provider_env \<Rightarrow> world \<Rightarrow> world \<Rightarrow> ServerWithRequestCapture" where
  "asked u b e w w' = captured b (drop (length (w_log w)) (w_log w')) (fst (Build u b (getenv e)))"

lemma asked_one:
  assumes "w_log w' = w_log w @ [ApiRequest (request_url p params)]"
    and "distinct (map fst params)" and "set (baseURL p) \<inter> set ''?#'' = {}"
  shows "ExpectNumberOfRequests (asked u b e w w') 1"
    and "GetQueryParam (asked u b e w w') key =
      (case (always_params p ++ map_of params) key of None \<Rightarrow> [] | Some v \<Rightarrow> v)"
  using request_parameters [OF assms(2,3)]
  by (simp_all add: asked_def assms(1) serve_def ExpectNumberOfRequests_def GetQueryParam_def Build_def)

lemma api_NewProvider_on_server:
  "u \<noteq> [] \<Longrightarrow> api_NewProvider (on_server u b e) = \<lparr>baseURL = u, apiKey = ''test-key''\<rparr>"
  by (simp add: on_server_def Build_def api_NewProvider_def)

lemma asked_by_id:
  assumes "u \<noteq> []" and "set u \<inter> set ''?#'' = {}"
    and "w' = snd (api_FetchMatchByID e' (api_NewProvider (on_server u b e)) pmid w)"
  shows "map (GetQueryParam (asked u b e w w')) [''action'', ''APIkey'', ''timezone'', ''match_id''] =
      [''get_events'', ''test-key'', ''utc'', pmid]"
    and "ExpectNumberOfRequests (asked u b e w w') 1"
proof -
  have log: "w_log w' = w_log w @ [ApiRequest (request_url (api_NewProvider (on_server u b e)) [(''match_id'', pmid)])]"
    by (simp add: assms(3) api_FetchMatchByID_log)
  show "map (GetQueryParam (asked u b e w w')) [''action'', ''APIkey'', ''timezone'', ''match_id''] =
      [''get_events'', ''test-key'', ''utc'', pmid]"
    and "ExpectNumberOfRequests (asked u b e w w') 1"
    using asked_one [OF log, where u = u and b = b and e = e] assms(1,2)
    by (simp_all add: api_NewProvider_on_server always_params_def)
qed

lemma asked_by_competition:
  assumes "u \<noteq> []" and "set u \<inter> set ''?#'' = {}" and "CompetitionToAPIFootballID c = Some league"
    and "w' = snd (api_FetchMatches e' (api_NewProvider (on_server u b e)) c from_t to_t w)"
  shows "map (GetQueryParam (asked u b e w w')) [''action'', ''APIkey'', ''timezone'', ''from'', ''to'', ''league_id''] =
      [''get_events'', ''test-key'', ''utc'', format_date_only from_t, format_date_only to_t, league]"
    and "ExpectNumberOfRequests (asked u b e w w') 1"
proof -
  define params where
    "params = [(''from'', format_date_only from_t), (''to'', format_date_only to_t), (''league_id'', league)]"
  have log: "w_log w' = w_log w @ [ApiRequest (request_url (api_NewProvider (on_server u b e)) params)]"
    using assms(3) convert_events_log [of e' c]
    by (auto simp: assms(4) api_FetchMatches_def api_get_log params_def [symmetric] case_prod_beta split: sum.split prod.split)
  have "distinct (map fst params)" by (simp add: params_def)
  note asked = asked_one [OF log this, where u = u and b = b and e = e]
  show "map (GetQueryParam (asked u b e w w')) [''action'', ''APIkey'', ''timezone'', ''from'', ''to'', ''league_id''] =
      [''get_events'', ''test-key'', ''utc'', format_date_only from_t, format_date_only to_t, league]"
    and "ExpectNumberOfRequests (asked u b e w w') 1"
    using asked assms(1,2) by (simp_all add: api_NewProvider_on_server always_params_def params_def)
qed

text \<open>
  C28: A request arrives as it was meant, whatever characters it holds. For any parameters with different
  names, of any characters and in any order, and any API key, \<open>get\<close> makes exactly one request to the mock
  server, and the server reads from its URL each of them with its value, the three parameters that are
  always there unless they were given, and nothing under any other name. So a fetch by id asks for that
  id, whatever string the queue holds, and a fetch of a competition asks for the two dates as calendar
  days and for the id of the league, both with the key of the environment.
\<close>

theorem server_sees_request:
  assumes "u \<noteq> []" and "set u \<inter> set ''?#'' = {}" and "distinct (map fst params)"
  shows "(let e' = on_server u b e; server = asked u b e w (snd (api_get e' \<lparr>baseURL = u, apiKey = key\<rparr> params w))
      in ExpectNumberOfRequests server 1 \<and>
         (\<forall>name. GetQueryParam server name =
            (case map_of params name of Some v \<Rightarrow> v
             | None \<Rightarrow> if name = ''action'' then ''get_events'' else if name = ''APIkey'' then key
                 else if name = ''timezone'' then ''utc'' else []))) \<and>
    (let e' = on_server u b e; server = asked u b e w (snd (api_FetchMatchByID e' (api_NewProvider e') pmid w))
      in ExpectNumberOfRequests server 1 \<and>
         map (GetQueryParam server) [''action'', ''APIkey'', ''timezone'', ''match_id''] =
           [''get_events'', ''test-key'', ''utc'', pmid]) \<and>
    (CompetitionToAPIFootballID c = Some league \<longrightarrow>
      (let e' = on_server u b e; server = asked u b e w (snd (api_FetchMatches e' (api_NewProvider e') c from_t to_t w))
       in ExpectNumberOfRequests server 1 \<and>
          map (GetQueryParam server) [''action'', ''APIkey'', ''timezone'', ''from'', ''to'', ''league_id''] =
            [''get_events'', ''test-key'', ''utc'', format_date_only from_t, format_date_only to_t, league]))"
proof -
  let ?p = "\<lparr>baseURL = u, apiKey = key\<rparr> :: APIFootballProvider"
  note get = asked_one [OF api_get_log [of "on_server u b e" ?p params w] assms(3), where u = u and b = b and e = e]
  have "(case (always_params ?p ++ map_of params) name of None \<Rightarrow> [] | Some v \<Rightarrow> v) =
      (case map_of params name of Some v \<Rightarrow> v
       | None \<Rightarrow> if name = ''action'' then ''get_events'' else if name = ''APIkey'' then key
           else if name = ''timezone'' then ''utc'' else [])" for name
    by (simp add: always_params_def map_add_def split: option.split)
  note get = get [unfolded APIFootballProvider.select_convs, OF assms(2), unfolded this]
  show ?thesis
    unfolding Let_def
    by (intro conjI impI allI get asked_by_id [OF assms(1,2) refl] asked_by_competition [OF assms(1,2) _ refl])
qed

definition odd_params :: "(string \<times> string) list" where
  "odd_params = [(''match id'', ''a&b=c d%''), (''action'', ''#x?;''), (''from&to'', ''1+1'')]"

theorem server_sees_request_witness:
  "let b = WithStatusCode 500 CreateServerBuilder; u = ''http://127.0.0.1:80''; e' = on_server u b quiet_env;
      w = start_world sample_queue;
      server = asked u b quiet_env w (snd (api_get e' \<lparr>baseURL = u, apiKey = ''k&y''\<rparr> odd_params w));
      by_id = asked u b quiet_env w (snd (api_FetchMatchByID e' (api_NewProvider e') ''4&APIkey=none'' w));
      fetch = asked u b quiet_env w (snd (api_FetchMatches e' (api_NewProvider e') Championship epoch epoch w))
    in map (GetQueryParam server) [''match id'', ''action'', ''from&to'', ''APIkey'', ''timezone'', ''match''] =
         [''a&b=c d%'', ''#x?;'', ''1+1'', ''k&y'', ''utc'', []] \<and>
       map (GetQueryParam by_id) [''match_id'', ''APIkey''] = [''4&APIkey=none'', ''test-key''] \<and>
       GetQueryParam fetch ''league_id'' = ''153''"
proof -
  have league: "CompetitionToAPIFootballID Championship = Some ''153''" by code_simp
  have odd: "distinct (map fst odd_params)"
    "map_of odd_params ''match id'' = Some ''a&b=c d%''" "map_of odd_params ''action'' = Some ''#x?;''"
    "map_of odd_params ''from&to'' = Some ''1+1''" "map_of odd_params ''APIkey'' = None"
    "map_of odd_params ''timezone'' = None" "map_of odd_params ''match'' = None"
    by (simp_all add: odd_params_def)
  note seen = server_sees_request [of "''http://127.0.0.1:80''" odd_params "WithStatusCode 500 CreateServerBuilder" quiet_env
      "start_world sample_queue" "''k&y''" "''4&APIkey=none''" Championship "''153''" epoch epoch]
  show ?thesis using seen league odd by (simp add: Let_def)
qed

end
