(* ===== verification/Deployment.thy ===== *)
theory Deployment
  imports Match_Registry Json_Codec
begin

text \<open>
  The deployment script (\<open>src/oracle/script/Deploy.s.sol\<close>): its checks, the three contracts it creates
  from the data files, and the ownership it hands over. The cheat codes of Forge, the JSON reader of
  its library and OpenZeppelin's \<open>transferOwnership\<close> are functions of the environment; console output
  is left out.
\<close>

section \<open>The environment of a script\<close>

text \<open>
  \<open>vm_addr\<close> is the address of a private key, \<open>vm_env_uint\<close> and \<open>vm_env_address\<close> read environment
  variables, \<open>vm_read_file\<close> reads a file, \<open>read_string_array\<close> is \<open>stdJson.readStringArray\<close>; they revert
  with \<open>None\<close>. \<open>transfer_ownership caller new current\<close> is the owner after the call, or \<open>None\<close> for a revert.
\<close>

record forge_env =
  vm_addr :: "nat \<Rightarrow> eth_address option"
  vm_env_uint :: "string \<Rightarrow> nat option"
  vm_env_address :: "string \<Rightarrow> eth_address option"
  vm_read_file :: "string \<Rightarrow> string option"
  read_string_array :: "string \<Rightarrow> string \<Rightarrow> string list option"
  transfer_ownership :: "eth_address \<Rightarrow> eth_address \<Rightarrow> eth_address \<Rightarrow> eth_address option"

datatype deploy_error =
    RequireFailed string
  | CheatcodeFailed string
  | CompetitionRegistryReverted registry_error
  | TeamRegistryReverted registry_error
  | MatchRegistryReverted submit_error
  | TransferReverted

text \<open>A contract with its owner, and what the script leaves in its state variables.\<close>

record 'c owned =
  contract_state :: 'c
  owner :: eth_address

record Deploy =
  competitionRegistry :: "CompetitionRegistry owned"
  teamRegistry :: "TeamRegistry owned"
  matchRegistry :: "MatchRegistry owned"

definition COMPETITIONS_JSON :: string where "COMPETITIONS_JSON = ''./script/data/competitions.json''"

definition TEAMS_JSON :: string where "TEAMS_JSON = ''./script/data/teams.json''"

definition load_names :: "forge_env \<Rightarrow> string \<Rightarrow> string \<Rightarrow> (deploy_error, string list) result" where
  "load_names e file path =
     (case vm_read_file e file of
        None \<Rightarrow> Inl (CheatcodeFailed file)
      | Some json \<Rightarrow>
          (case read_string_array e json path of None \<Rightarrow> Inl (CheatcodeFailed path) | Some names \<Rightarrow> Inr names))"

definition loadCompetitions :: "forge_env \<Rightarrow> (deploy_error, string list) result" where
  "loadCompetitions e = load_names e COMPETITIONS_JSON ''.competitions''"

definition loadTeams :: "forge_env \<Rightarrow> (deploy_error, string list) result" where
  "loadTeams e = load_names e TEAMS_JSON ''.teams''"

text \<open>A contract just created by the deployer, given to its owner.\<close>

definition hand_over :: "forge_env \<Rightarrow> eth_address \<Rightarrow> eth_address \<Rightarrow> 'c \<Rightarrow> (deploy_error, 'c owned) result" where
  "hand_over e deployer contractsOwner c =
     (case transfer_ownership e deployer contractsOwner deployer of
        None \<Rightarrow> Inl TransferReverted
      | Some new \<Rightarrow> Inr \<lparr>contract_state = c, owner = new\<rparr>)"

section \<open>The steps\<close>

definition deploy_competitions :: "forge_env \<Rightarrow> eth_address \<Rightarrow> eth_address \<Rightarrow> (deploy_error, CompetitionRegistry owned) result" where
  "deploy_competitions e deployer contractsOwner =
     (case loadCompetitions e of
        Inl er \<Rightarrow> Inl er
      | Inr names \<Rightarrow>
          (case new_CompetitionRegistry names of
             Inl er \<Rightarrow> Inl (CompetitionRegistryReverted er)
           | Inr c \<Rightarrow> hand_over e deployer contractsOwner c))"

definition deploy_teams :: "forge_env \<Rightarrow> eth_address \<Rightarrow> eth_address \<Rightarrow> (deploy_error, TeamRegistry owned) result" where
  "deploy_teams e deployer contractsOwner =
     (case loadTeams e of
        Inl er \<Rightarrow> Inl er
      | Inr names \<Rightarrow>
          (case new_TeamRegistry names of
             Inl er \<Rightarrow> Inl (TeamRegistryReverted er)
           | Inr c \<Rightarrow> hand_over e deployer contractsOwner c))"

definition deploy_matches ::
  "forge_env \<Rightarrow> eth_address \<Rightarrow> eth_address \<Rightarrow> eth_address \<Rightarrow> (deploy_error, MatchRegistry owned) result" where
  "deploy_matches e deployer authSigner contractsOwner =
     (case new_MatchRegistry authSigner of
        Inl er \<Rightarrow> Inl (MatchRegistryReverted er)
      | Inr c \<Rightarrow> hand_over e deployer contractsOwner c)"

definition deploy :: "forge_env \<Rightarrow> nat \<Rightarrow> eth_address \<Rightarrow> eth_address \<Rightarrow> (deploy_error, Deploy) result" where
  "deploy e deployerPrivateKey authSigner contractsOwner =
     (if authSigner = 0 then Inl (RequireFailed ''AUTHORIZED_SIGNER_ADDRESS cannot be zero'')
      else if contractsOwner = 0 then Inl (RequireFailed ''CONTRACTS_OWNER_ADDRESS cannot be zero'')
      else if authSigner = contractsOwner
      then Inl (RequireFailed ''AUTHORIZED_SIGNER_ADDRESS and CONTRACTS_OWNER_ADDRESS must be distinct'')
      else (case vm_addr e deployerPrivateKey of
        None \<Rightarrow> Inl (CheatcodeFailed ''addr'')
      | Some deployer \<Rightarrow>
        if deployer = authSigner
        then Inl (RequireFailed ''Deployer and AUTHORIZED_SIGNER_ADDRESS must be distinct'')
        else if deployer = contractsOwner
        then Inl (RequireFailed ''Deployer and CONTRACTS_OWNER_ADDRESS must be distinct'')
        else (case deploy_competitions e deployer contractsOwner of
                Inl er \<Rightarrow> Inl er
              | Inr cs \<Rightarrow>
                  (case deploy_teams e deployer contractsOwner of
                     Inl er \<Rightarrow> Inl er
                   | Inr ts \<Rightarrow>
                       (case deploy_matches e deployer authSigner contractsOwner of
                          Inl er \<Rightarrow> Inl er
                        | Inr ms \<Rightarrow> Inr \<lparr>competitionRegistry = cs, teamRegistry = ts, matchRegistry = ms\<rparr>)))))"

text \<open>The entry point: three environment variables, read in this order.\<close>

definition run_script :: "forge_env \<Rightarrow> (deploy_error, Deploy) result" where
  "run_script e =
     (case vm_env_uint e ''DEPLOYER_PRIVATE_KEY'' of
        None \<Rightarrow> Inl (CheatcodeFailed ''DEPLOYER_PRIVATE_KEY'')
      | Some key \<Rightarrow>
          (case vm_env_address e ''AUTHORIZED_SIGNER_ADDRESS'' of
             None \<Rightarrow> Inl (CheatcodeFailed ''AUTHORIZED_SIGNER_ADDRESS'')
           | Some authSigner \<Rightarrow>
               (case vm_env_address e ''CONTRACTS_OWNER_ADDRESS'' of
                  None \<Rightarrow> Inl (CheatcodeFailed ''CONTRACTS_OWNER_ADDRESS'')
                | Some contractsOwner \<Rightarrow> deploy e key authSigner contractsOwner)))"

section \<open>What a deployment leaves\<close>













end
