(* ===== verification/Test_Db.thy ===== *)
theory Test_Db
  imports Relayer Provider_Repos
begin

text \<open>
  The database helpers of the tests (\<open>database.go\<close> and \<open>db.go\<close> of the three \<open>testutil\<close> packages): a
  fresh database, the row the relayer's tests insert, the questions the tests ask and the assertions,
  with what a run of the relayer makes of such a row. \<open>t.Fatalf\<close> ends a test: it is an error value.
\<close>

section \<open>Statements\<close>

text \<open>The three \<open>TRUNCATE TABLE\<close>.\<close>

definition truncate_matches :: statement where
  "truncate_matches t = Inr (0, t\<lparr>matches := []\<rparr>)"

definition truncate_sync_state :: statement where
  "truncate_sync_state t = Inr (0, t\<lparr>sync_state := []\<rparr>)"

definition truncate_match_reconciliation :: statement where
  "truncate_match_reconciliation t = Inr (0, t\<lparr>match_reconciliation := []\<rparr>)"

text \<open>An \<open>INSERT INTO matches\<close> without a conflict clause.\<close>

definition insert_match :: "go_time \<Rightarrow> match_row \<Rightarrow> statement" where
  "insert_match now r t =
     (if \<not> row_fits r \<or> (case row_signature r of None \<Rightarrow> False | Some sig \<Rightarrow> \<not> varchar255 sig) then Inl ValueOutOfRange
      else if list_ex (\<lambda>x. row_id x = row_id r \<or> match_key x = match_key r) (matches t) then Inl UniqueViolation
      else Inr (1, t\<lparr>matches := matches t @ [column_defaults now r]\<rparr>))"

interpretation truncate_matches: sql_statement truncate_matches
  by unfold_locales (auto simp: truncate_matches_def wf_tables_def)

interpretation truncate_sync_state: sql_statement truncate_sync_state
  by unfold_locales (auto simp: truncate_sync_state_def wf_tables_def)

interpretation truncate_match_reconciliation: sql_statement truncate_match_reconciliation
  by unfold_locales (auto simp: truncate_match_reconciliation_def wf_tables_def)

interpretation insert_match: sql_statement "insert_match now r" for now r
  by unfold_locales (auto simp: insert_match_def list_ex_iff intro!: wf_matches_append split: if_splits)

section \<open>Opening and closing\<close>

datatype test_failure =
    InitDBFatal config_error
  | InitRepositoriesFatal repo_error
  | BeginFatal db_error
  | RollbackFatal db_error
  | QueryFatal db_error
  | NilDbFatal
  | InsertFatal db_error

text \<open>The errors of the three statements are dropped.\<close>

definition provider_test_InitDB ::
  "'z db_env_scheme \<Rightarrow> 'db sql_driver \<Rightarrow> (string \<Rightarrow> string) \<Rightarrow> world \<Rightarrow>
   (test_failure, 'db \<times> 'db Repositories) result \<times> world" where
  "provider_test_InitDB e drv env w =
     (case provider_InitDB drv env of
        Inl err \<Rightarrow> (Inl (InitDBFatal err), w)
      | Inr db \<Rightarrow>
          (let w1 = snd (db_exec e truncate_matches w);
               w2 = snd (db_exec e truncate_sync_state w1);
               w3 = snd (db_exec e truncate_match_reconciliation w2)
           in (case InitRepositories (Some db) of
                 Inl err \<Rightarrow> (Inl (InitRepositoriesFatal err), w3)
               | Inr repositories \<Rightarrow> (Inr (db, repositories), w3))))"

definition signer_test_InitDB ::
  "'z db_env_scheme \<Rightarrow> 'db sql_driver \<Rightarrow> (string \<Rightarrow> string) \<Rightarrow> world \<Rightarrow> (test_failure, 'db) result \<times> world" where
  "signer_test_InitDB e drv env w =
     (case signer_InitDB drv env of
        Inl err \<Rightarrow> (Inl (InitDBFatal err), w)
      | Inr db \<Rightarrow> (Inr db, snd (db_exec e truncate_matches w)))"

text \<open>The relayer's repository is its pool, so the helper returns the pool twice.\<close>

definition relayer_test_InitDB ::
  "'z db_env_scheme \<Rightarrow> 'db sql_driver \<Rightarrow> (string \<Rightarrow> string) \<Rightarrow> world \<Rightarrow> (test_failure, 'db \<times> 'db option) result \<times> world" where
  "relayer_test_InitDB e drv env w =
     (case relayer_InitDB drv env of
        Inl err \<Rightarrow> (Inl (InitDBFatal err), w)
      | Inr (db, _) \<Rightarrow> (Inr (db, Some db), snd (db_exec e truncate_matches w)))"

text \<open>
  Closing a pool that is not nil; \<open>close_db\<close> is the method \<open>Close\<close>. The result is the exit code, when
  the helper ends the process.
\<close>

definition CloseDB :: "('db \<Rightarrow> (string, unit) result) \<Rightarrow> 'db option \<Rightarrow> int option" where
  "CloseDB close_db db =
     (case db of None \<Rightarrow> None | Some d \<Rightarrow> (case close_db d of Inl _ \<Rightarrow> Some 1 | Inr _ \<Rightarrow> None))"

text \<open>The relayer's helper returns at once on nil.\<close>

definition relayer_test_CloseDB :: "('db \<Rightarrow> (string, unit) result) \<Rightarrow> 'db option \<Rightarrow> int option" where
  "relayer_test_CloseDB close_db db =
     (case db of
        None \<Rightarrow> None
      | Some d \<Rightarrow> if is_ok (close_db d) then None else Some 1)"

section \<open>Transactions\<close>

definition test_BeginTransaction :: "'z db_env_scheme \<Rightarrow> world \<Rightarrow> (test_failure, tables) result \<times> world" where
  "test_BeginTransaction e w = wrap_err BeginFatal (db_query e (\<lambda>t. t) w)"

text \<open>A rollback throws the copy of the transaction away, whether it is acknowledged or not.\<close>

definition test_RollbackTransaction ::
  "'z db_env_scheme \<Rightarrow> tables \<times> world \<Rightarrow> (test_failure, unit) result \<times> world" where
  "test_RollbackTransaction e txw =
     (case txw of (tx, w) \<Rightarrow>
        (if db_fault e (w_tick w) = Healthy then Inr () else Inl (RollbackFatal Unavailable), tick w))"

text \<open>The signer's helpers take a context, whose end is one of the faults.\<close>

definition signer_test_BeginTransaction :: "'z db_env_scheme \<Rightarrow> world \<Rightarrow> (test_failure, tables) result \<times> world" where
  "signer_test_BeginTransaction e w =
     (case db_query e (\<lambda>t. t) w of (Inl err, w') \<Rightarrow> (Inl (BeginFatal err), w') | (Inr tx, w') \<Rightarrow> (Inr tx, w'))"

definition signer_test_RollbackTransaction ::
  "'z db_env_scheme \<Rightarrow> tables \<times> world \<Rightarrow> (test_failure, unit) result \<times> world" where
  "signer_test_RollbackTransaction e txw =
     (case txw of (tx, w) \<Rightarrow>
        (if db_fault e (w_tick w) \<noteq> Healthy then Inl (RollbackFatal Unavailable) else Inr (), tick w))"

section \<open>What the tests insert and ask\<close>

definition test_MatchExists :: "'z db_env_scheme \<Rightarrow> string \<Rightarrow> world \<Rightarrow> (test_failure, bool) result \<times> world" where
  "test_MatchExists e canonicalID w =
     (case db_query e (\<lambda>t. length (filter (\<lambda>r. row_canonical_id r = canonicalID) (matches t))) w of
        (Inl err, w') \<Rightarrow> (Inl (QueryFatal err), w')
      | (Inr n, w') \<Rightarrow> (Inr (0 < n), w'))"

definition signer_test_MatchExists :: "'z db_env_scheme \<Rightarrow> string \<Rightarrow> world \<Rightarrow> (test_failure, bool) result \<times> world" where
  "signer_test_MatchExists e canonicalID w =
     (case db_query e (\<lambda>t. length (filter (\<lambda>r. row_canonical_id r = canonicalID) (matches t))) w of
        (Inl err, w') \<Rightarrow> (Inl (QueryFatal err), w')
      | (Inr n, w') \<Rightarrow> (Inr (n > 0), w'))"

definition test_ReconciliationEntryExists ::
  "'z db_env_scheme \<Rightarrow> string \<Rightarrow> int \<Rightarrow> world \<Rightarrow> (test_failure, bool) result \<times> world" where
  "test_ReconciliationEntryExists e providerMatchID provider w =
     (case db_query e (\<lambda>t. length (filter (\<lambda>r. rr_provider_match_id r = providerMatchID \<and> rr_provider r = provider)
             (match_reconciliation t))) w of
        (Inl err, w') \<Rightarrow> (Inl (QueryFatal err), w')
      | (Inr n, w') \<Rightarrow> (Inr (0 < n), w'))"

definition signedStatus :: int where [go_const]: "signedStatus = 4"

text \<open>\<open>uuid_text\<close> is the text of a UUID (the driver's value of it, bound to a text column).\<close>

definition signed_fixture ::
  "'z db_env_scheme \<Rightarrow> (uuid \<Rightarrow> string) \<Rightarrow> uuid \<Rightarrow> string \<Rightarrow> int32 \<Rightarrow> int32 \<Rightarrow> int32 \<Rightarrow> int32 \<Rightarrow> int32 \<Rightarrow> go_time \<Rightarrow> string \<Rightarrow> match_row" where
  "signed_fixture e uuid_text i canonicalID competitionID homeTeamID awayTeamID homeTeamScore awayTeamScore start signatureHex =
     \<lparr>row_id = i, row_canonical_id = canonicalID, row_home_team_id = sint homeTeamID, row_away_team_id = sint awayTeamID,
      row_start = ts_value e start, row_end = ts_value e start, row_status = signedStatus,
      row_home_team_score = sint homeTeamScore, row_away_team_score = sint awayTeamScore,
      row_provider_match_id = uuid_text i, row_competition_id = sint competitionID, row_provider = 1,
      row_signature = Some signatureHex, row_updated_at = None, row_transaction_hash = None, row_created_at = epoch\<rparr>"

definition InsertSignedMatch ::
  "'z db_env_scheme \<Rightarrow> (uuid \<Rightarrow> string) \<Rightarrow> 'db option \<Rightarrow> uuid \<Rightarrow> string \<Rightarrow> int32 \<Rightarrow> int32 \<Rightarrow> int32 \<Rightarrow> int32 \<Rightarrow> int32 \<Rightarrow>
   go_time \<Rightarrow> string \<Rightarrow> world \<Rightarrow> (test_failure, unit) result \<times> world" where
  "InsertSignedMatch e uuid_text db i canonicalID competitionID homeTeamID awayTeamID homeTeamScore awayTeamScore start
       signatureHex w =
     (case db of
        None \<Rightarrow> (Inl NilDbFatal, w)
      | Some _ \<Rightarrow>
          (case db_exec e (insert_match (db_now e (w_tick w)) (signed_fixture e uuid_text i canonicalID competitionID homeTeamID awayTeamID
                 homeTeamScore awayTeamScore start signatureHex)) w of
             (Inl err, w') \<Rightarrow> (Inl (InsertFatal err), w')
           | (Inr _, w') \<Rightarrow> (Inr (), w')))"

datatype status_error = NotInitialized | StatusQueryError db_error | NoRows

text \<open>\<open>Scan\<close> reads the first row, and says \<open>sql.ErrNoRows\<close> when there is none.\<close>

definition QueryMatchStatus :: "'z db_env_scheme \<Rightarrow> 'db option \<Rightarrow> uuid \<Rightarrow> world \<Rightarrow> (status_error, int) result \<times> world" where
  "QueryMatchStatus e db i w =
     (case db of
        None \<Rightarrow> (Inl NotInitialized, w)
      | Some _ \<Rightarrow>
          (case db_query e (\<lambda>t. map row_status (filter (\<lambda>r. row_id r = i) (matches t))) w of
             (Inl err, w') \<Rightarrow> (Inl (StatusQueryError err), w')
           | (Inr [], w') \<Rightarrow> (Inl NoRows, w')
           | (Inr (s # _), w') \<Rightarrow> (Inr s, w')))"

section \<open>Assertions\<close>

text \<open>\<open>strings.Contains\<close>: the part occurs at some offset.\<close>

definition strings_contains :: "string \<Rightarrow> string \<Rightarrow> bool" where
  "strings_contains s part \<longleftrightarrow> list_ex (\<lambda>i. take (length part) (drop i s) = part) [0..<Suc (length s)]"

text \<open>The assertions of the provider and the relayer: the message of the failure, if they fail.\<close>

definition AssertNoError :: "string option \<Rightarrow> string option" where
  "AssertNoError err = (case err of None \<Rightarrow> None | Some e \<Rightarrow> Some (''Expected no error but got: '' @ e))"

definition relayer_AssertNoError :: "string option \<Rightarrow> string option" where
  "relayer_AssertNoError err = (case err of None \<Rightarrow> None | Some e \<Rightarrow> Some (''Expected no error but got: '' @ e))"

definition AssertMessageGotLogged :: "string \<Rightarrow> string \<Rightarrow> string option" where
  "AssertMessageGotLogged logBuf message =
     (if \<not> strings_contains logBuf message
      then Some (''Expected message '' @ [CHR 39] @ message @ [CHR 39] @ '' to be logged, but got: '' @ logBuf)
      else None)"

section \<open>What the helpers promise\<close>

lemma strings_contains_iff: "strings_contains s part \<longleftrightarrow> (\<exists>before after. s = before @ part @ after)"
proof
  assume "strings_contains s part"
  then obtain i where i: "take (length part) (drop i s) = part" by (auto simp: strings_contains_def list_ex_iff)
  have "s = take i s @ drop i s" by simp
  also have "drop i s = part @ drop (length part) (drop i s)" using i by (metis append_take_drop_id)
  finally show "\<exists>before after. s = before @ part @ after" by blast
next
  assume "\<exists>before after. s = before @ part @ after"
  then obtain before after where "s = before @ part @ after" by blast
  then show "strings_contains s part"
    unfolding strings_contains_def list_ex_iff by (intro bexI [of _ "length before"]) auto
qed

text \<open>
  The helpers of the signer do what the provider's do, and an assertion about the log passes exactly
  when the message stands somewhere in it.
\<close>

theorem helpers_agree:
  "signer_test_BeginTransaction e w = test_BeginTransaction e w"
  "signer_test_RollbackTransaction e txw = test_RollbackTransaction e txw"
  "signer_test_MatchExists e cid w = test_MatchExists e cid w"
  "relayer_test_CloseDB close_db db = CloseDB close_db db"
  "AssertMessageGotLogged buf msg = None \<longleftrightarrow> (\<exists>before after. buf = before @ msg @ after)"
  by (auto simp: signer_test_BeginTransaction_def test_BeginTransaction_def wrap_err_def
      signer_test_RollbackTransaction_def test_RollbackTransaction_def signer_test_MatchExists_def test_MatchExists_def
      relayer_test_CloseDB_def CloseDB_def is_ok_def AssertMessageGotLogged_def strings_contains_iff
      split: prod.split sum.split option.split)

lemma run_truncate [simp]:
  "run_statement truncate_matches t = t\<lparr>matches := []\<rparr>"
  "run_statement truncate_sync_state t = t\<lparr>sync_state := []\<rparr>"
  "run_statement truncate_match_reconciliation t = t\<lparr>match_reconciliation := []\<rparr>"
  by (simp_all add: run_statement_def truncate_matches_def truncate_sync_state_def truncate_match_reconciliation_def)

text \<open>A test of the provider starts on empty tables if the database is well.\<close>

theorem provider_test_fresh:
  assumes "\<And>n. db_fault e n = Healthy" and "provider_test_InitDB e drv env w = (Inr (db, repos), w')"
  shows "w_db w' = empty_tables" and "MatchRepo repos = db \<and> SyncStateRepo repos = db \<and> ReconciliationRepo repos = db"
  using assms
  by (auto simp: provider_test_InitDB_def Let_def db_exec_healthy empty_tables_def InitRepositories_def
      NewMatchRepository_def NewSyncStateRepository_def NewReconciliationRepository_def split: sum.splits)

text \<open>Nothing a test does in a transaction it rolls back is ever seen.\<close>

theorem rolled_back:
  assumes "test_BeginTransaction e w = (Inr tx, w1)" and "tx_exec e stmt (tx, w1) = (r, tx', w2)"
    and "test_RollbackTransaction e (tx', w2) = (r', w3)"
  shows "w_db w3 = w_db w"
  using assms(1) tx_exec_frame(3) [of e stmt tx w1] assms(2,3)
  by (auto simp: test_BeginTransaction_def wrap_err_def test_RollbackTransaction_def db_query_def split: if_splits)

text \<open>The signature of the fixture is read back; the day of its start becomes YYYYMMDD.\<close>

lemma scan_defaults [simp]: "scan_signed (column_defaults now r) = scan_signed r"
  by (simp add: scan_signed_def split: option.split sum.split)

lemma scan_fixture:
  assumes "hex_decode (trim_prefix sigHex ''0x'') = Inr bs"
  shows "scan_signed (signed_fixture e uuid_text i cid c h a hs as start sigHex) =
    Some \<lparr>rm_ID = i, rm_CanonicalID = cid, rm_CompetitionID = c, rm_HomeTeamID = h, rm_AwayTeamID = a,
          rm_HomeTeamScore = hs, rm_AwayTeamScore = as,
          rm_Start = word_of_int (year_of (ts_value e start) * 10000 + month_of (ts_value e start) * 100 +
                                  day_of (ts_value e start)),
          rm_Signature = bs\<rparr>"
  using assms by (simp add: scan_signed_def signed_fixture_def)

lemma InsertSignedMatch_ok:
  assumes "InsertSignedMatch e uuid_text (Some db) i cid c h a hs as start sigHex w = (Inr (), w')"
  shows "w_db w' = (w_db w)\<lparr>matches := matches (w_db w) @
    [column_defaults (db_now e (w_tick w)) (signed_fixture e uuid_text i cid c h a hs as start sigHex)]\<rparr>"
  using assms
  by (auto simp: InsertSignedMatch_def db_exec_def insert_match_def split: fault.splits sum.splits if_splits)

lemma QueryMatchStatus_one:
  assumes "db_fault e (w_tick w) = Healthy" and "matches (w_db w) = [r]" and "row_id r = i"
  shows "fst (QueryMatchStatus e (Some db) i w) = Inr (row_status r)"
  using assms by (simp add: QueryMatchStatus_def db_query_def)

text \<open>
  On a fresh database the helper's row is what the relayer finds, and after a run of the relayer the
  status the helper reads says what became of it: 5 if the run succeeded, 4 if it reports a failure
  of the broadcast; the exit code is one of the two.
\<close>

theorem relayer_fixture_outcome:
  assumes "\<And>n. db_fault e n = Healthy" and "\<And>n r. heap_order e n [r] = [r]"
    and "matches (w_db w) = []" and "hex_decode (trim_prefix sigHex ''0x'') = Inr bs"
    and ins: "InsertSignedMatch e uuid_text (Some db) i cid c h a hs as start sigHex w = (Inr (), w1)"
    and pool: "relayer_InitDB drv (r_getenv e) = Inr (db, True)"
    and run: "relayer_Run e drv client cfg node w1 = Some (code, node', w2)"
  shows "(code, fst (QueryMatchStatus e (Some db) i w2)) \<in> {(RELAYER_SUCCESS, Inr 5), (BROADCAST_FAILURE, Inr 4)}"
proof -
  let ?r = "column_defaults (db_now e (w_tick w)) (signed_fixture e uuid_text i cid c h a hs as start sigHex)"
  obtain m where m: "scan_signed ?r = Some m" "rm_ID m = i" by (rule that [unfolded scan_defaults, OF scan_fixture [OF assms(4)]]) simp
  have r: "row_id ?r = i" "row_status ?r = 4" by (simp_all add: signed_fixture_def signedStatus_def)
  have db1: "matches (w_db w1) = [?r]" using InsertSignedMatch_ok [OF ins] assms(3) by simp
  have found: "FindSignedMatches e (Some db) w1 = (Inr [m], tick w1)"
    using assms(1,2) db1 m r by (simp add: FindSignedMatches_def db_query_def SIGNED_STATUS_def List.map_filter_simps)
  from run found pool obtain f c1 where one: "broadcast_one e client cfg (Some db) m node (tick w1) = Some (f, c1, w2)"
    and code: "code = (if f then BROADCAST_FAILURE else RELAYER_SUCCESS)"
    by (auto simp: relayer_Run_def split: option.splits if_splits)
  have "matches (w_db w2) = [if f then ?r else ?r\<lparr>row_status := BROADCASTED_STATUS\<rparr>]"
    using broadcast_one_cases [OF one] assms(1) db1 m(2) r by (auto simp: mark_broadcasted_def)
  then have "fst (QueryMatchStatus e (Some db) i w2) = Inr (if f then 4 else 5)"
    using QueryMatchStatus_one [where e = e and w = w2 and i = i and db = db] assms(1) r
    by (simp add: BROADCASTED_STATUS_def)
  with code show ?thesis by simp
qed

text \<open>A day's midnight, on the fresh tables of \<open>idle_world\<close>, against a node that accepts.\<close>

theorem relayer_fixture_outcome_witness:
  "\<exists>node' w2. relayer_Run quiet_relayer unit_driver mock_client sample_cfg accepting_node
      (snd (InsertSignedMatch quiet_relayer (\<lambda>_. ''u'') (Some ()) 7 ''ab'' 1 10 20 2 1 epoch ''deadbeef'' idle_world)) =
      Some (RELAYER_SUCCESS, node', w2) \<and>
    fst (QueryMatchStatus quiet_relayer (Some ()) 7 w2) = Inr 5"
proof -
  let ?ins = "InsertSignedMatch quiet_relayer (\<lambda>_. ''u'') (Some ()) 7 ''ab'' 1 10 20 2 1 epoch ''deadbeef'' idle_world"
  let ?run = "relayer_Run quiet_relayer unit_driver mock_client sample_cfg accepting_node (snd ?ins)"
  have ok: "fst ?ins = Inr ()" by code_simp
  have "?run \<noteq> None \<and> fst (the ?run) = RELAYER_SUCCESS" by code_simp
  then obtain node' w2 where run: "?run = Some (RELAYER_SUCCESS, node', w2)" by (metis option.collapse prod.collapse)
  have ins: "?ins = (Inr (), snd ?ins)" using ok by (metis prod.collapse)
  have hex: "hex_decode (trim_prefix ''deadbeef'' ''0x'') = Inr [0xDE, 0xAD, 0xBE, 0xEF]" by code_simp
  have env: "\<And>n. db_fault quiet_relayer n = Healthy" "\<And>n r. heap_order quiet_relayer n [r] = [r]"
    "matches (w_db idle_world) = []" "relayer_InitDB unit_driver (r_getenv quiet_relayer) = Inr ((), True)"
    by (simp_all add: quiet_relayer_def idle_world_def empty_tables_def relayer_InitDB_def open_pool_def unit_driver_def)
  from relayer_fixture_outcome [OF env(1-3) hex ins env(4) run] run show ?thesis
    by (auto simp: RELAYER_SUCCESS_def BROADCAST_FAILURE_def)
qed

end
