(* ===== verification/Spec2Isabelle.thy ===== *)
theory Spec2Isabelle
  imports Live_Chain Mock_Server Deployment Test_Db
begin

text \<open>
  Sports Pulse: a verification of the off-chain services and of the oracle contracts.

  \<^bold>\<open>The program.\<close> Three Go binaries share one PostgreSQL database, and the last of them talks to an
  Ethereum contract. The \<^emph>\<open>provider\<close> (\<open>src/provider\<close>) fetches football results from two data
  sources, gives every match a canonical identity (a Keccak hash of competition, teams and day) and
  stores the finished ones in \<open>matches\<close>; what it cannot store goes to the queue
  \<open>match_reconciliation\<close>, which its second mode works off. The \<^emph>\<open>signer\<close> (\<open>src/signer\<close>) signs every
  finished row with EIP-712. The \<^emph>\<open>relayer\<close> (\<open>src/relayer\<close>) sends every signed row to \<open>submitMatch\<close> of
  the \<open>MatchRegistry\<close> contract (\<open>src/oracle\<close>) and marks it as broadcasted. The status of a row is the
  only protocol between them: Finished (3), Signed (4), Broadcasted (5).

  \<^bold>\<open>Theories and the code they model.\<close>
  \<^item> \<open>Prelude\<close>: Go's integer types as words, the result type of fallible calls (\<open>Inl\<close> an error), the
    collections \<open>go_const\<close> and \<open>frame_simps\<close>, generic list lemmas, and the contract of a fixed-width
    encoder (locale \<open>fixed_width_codec\<close>).
  \<^item> \<open>Go_Text\<close>, \<open>Go_Time\<close>, \<open>Go_Json\<close>: what the source uses of \<open>strings\<close>, \<open>encoding/hex\<close>,
    \<open>encoding/binary\<close>, \<open>strconv\<close>, \<open>time\<close> (civil dates, formatting and parsing) and \<open>encoding/json\<close>.
  \<^item> \<open>Entity\<close>: \<open>provider/internal/entity\<close>, with \<open>NewMatch\<close> and \<open>generateMatchID\<close>.
  \<^item> \<open>Store\<close>: \<open>postgres/init\<close>, the tables as lists of rows with their keys and column ranges, every SQL
    statement as a function on the tables, calls under faults, transactions.
  \<^item> \<open>Provider_Env\<close>, \<open>Provider_Repos\<close>: the environment of a run, and the three repositories of
    \<open>provider/internal/repository\<close>, method by method.
  \<^item> \<open>Provider_Api\<close>, \<open>Football_Org\<close>, \<open>Apifootball\<close>: the interfaces \<open>SyncProvider\<close> and
    \<open>ReconcileProvider\<close> as records, their contract (locale \<open>data_source\<close>), and the two packages that
    are interpreted as data sources.
  \<^item> \<open>Saver\<close>, \<open>Sync\<close>, \<open>Reconcile\<close>: \<open>save/save.go\<close>, \<open>service/sync.go\<close>, \<open>service/reconcile.go\<close>.
  \<^item> \<open>Db_Config\<close>, \<open>Provider_Main\<close>: the three \<open>config/db.go\<close> and \<open>cmd/provider/main.go\<close>.
  \<^item> \<open>Eth_Keys\<close>, \<open>Signer\<close>: key loading of both sides, and the whole of \<open>src/signer\<close>.
  \<^item> \<open>Chain_Client\<close>, \<open>Relayer\<close>: the interface \<open>ChainClient\<close> as a record of methods over the node's state
    (locale \<open>chain_client\<close>), the repository's mock as its instance, and the whole of \<open>src/relayer\<close>.
  \<^item> \<open>Registries\<close>, \<open>Match_Registry\<close>: the three Solidity contracts and the names they are deployed with;
    \<open>Deployment\<close>: the script that deploys them (\<open>oracle/script/Deploy.s.sol\<close>).
  \<^item> \<open>Pipeline\<close>, \<open>Settlement\<close>: the components together, run after run, up to the answer of the contract.
  \<^item> \<open>Interleaving\<close>: the components running at the same time, statement by statement
    (\<open>statement_step\<close>): the tables, with what the signer and the relayer have read and not yet written.
  \<^item> \<open>On_Chain\<close>: the tables and an Ethereum node together under serial runs (\<open>joint_step\<close>): what a node must
    promise (locale \<open>oracle_node\<close>, which extends \<open>chain_client\<close>), and a node that executes calls on the
    contract's model.
  \<^item> \<open>Live_Chain\<close>: everything at the same time, the statements of all services and the single calls of
    all relayers to the node (\<open>live_step\<close>).
  \<^item> \<open>Json_Codec\<close>, \<open>Mock_Server\<close>: the JSON scanner against a printer, and the mock of the match services
    (\<open>provider/testutil/server.go\<close>), with the query parsing of \<open>net/url\<close>.
  \<^item> \<open>Test_Db\<close>: the database helpers of the tests (\<open>database.go\<close> and \<open>db.go\<close> of the three \<open>testutil\<close>
    packages), and the outcome of a relayer run on the row its tests insert.

  \<^bold>\<open>State and effects.\<close> A run is a function on a \<open>world\<close>: the tables, a tick that counts the
  interactions with the outside, and a log. Everything outside the repository is a function in an
  environment record (\<open>db_env\<close>, \<open>provider_env\<close>, \<open>signer_env\<close>, \<open>relayer_env\<close>, \<open>oracle_env\<close>), most of
  them indexed by the tick, so that each call may answer differently: clock, UUIDs, HTTP, the
  football-data.org client, Keccak, ECDSA, go-ethereum's typed data, ABI packing, transaction
  signing, the row order of a \<open>SELECT\<close> without \<open>ORDER BY\<close>, and the fate of a database call. That is one
  of \<open>Healthy\<close>, \<open>Lost\<close> (an error, nothing happened) and \<open>Unacked\<close> (an error, but the statement took
  effect). The log records requests to the data sources, pauses, and the messages the services emit
  about a match; the messages of repositories and transactions are left out. A panic of the source
  (indexing a short signature) is an error value. The node's state is the first component of the
  relayer's functions, so a client may be any state machine.

  \<^bold>\<open>Loops.\<close> The loops over a list are structural. Two loops need not end and are
  \<open>partial_function (option)\<close>: the batches of \<open>Reconcile\<close>, left by an empty batch, an error or the
  context's deadline, and the receipt polling of \<open>waitForReceipt\<close>. They are proved to return when the
  deadline passes at some tick (\<open>ctx_done\<close> is eventually true, which the source ensures with
  \<open>context.WithTimeout\<close>). Two theorems on \<open>Reconcile\<close> name the tick \<open>N\<close> of the deadline: a row that can
  never be saved keeps a run busy until then and stays queued, and an outage uses up all tries when the
  deadline leaves five ticks for each of them (two looks at the context, the request, the counter, the
  query of the batch). No fuel is used except in the JSON scanner: \<open>json_parse\<close> gives it twice the length of
  the input, and \<open>json_parse_fuel\<close> shows that more changes nothing.

  \<^bold>\<open>What the lemmas show.\<close> Of each component its functional behaviour on every branch and what it leaves
  alone (\<open>_frame\<close>, \<open>_wf\<close>); of \<open>Sync\<close> and \<open>Reconcile\<close> that no delivered match is lost and how the sync date
  moves; of the signer that a run is the row-wise function \<open>sign_row\<close> when the database is well; of the
  relayer which rows it marks and that it submits once. \<open>Pipeline\<close> composes them: \<open>system_step\<close> is one run of
  one binary, \<open>reachable\<close> what any sequence of runs leaves, and \<open>db_inv\<close> the invariant of all of them.
  \<open>Settlement\<close> follows a row to the contract: \<open>contract_answer\<close> computes the answer of
  \<open>submitMatch\<close> from the row alone. \<open>Interleaving\<close> shows that every run is a sequence of statements of one
  step relation, that its invariant (\<open>shared_inv\<close>) survives any interleaving, and where runs one after
  the other promise more: only they keep a signature next to the scores it was made for
  (\<open>deployed_step\<close> fixes the signer's configuration, so that the signature is a function of the row). The two
  races are theorems of their own, over the calls that race, in the order in which they do
  (\<open>signature_overtakes_correction\<close>, \<open>mark_overtakes_correction\<close>). The table of matches only grows, and which columns a statement may
  touch is \<open>row_identity\<close> (\<open>rows_are_permanent\<close>). \<open>Live_Chain\<close> closes the loop: however statements and calls
  interleave, a row the database calls broadcasted is one the contract holds a result for
  (\<open>live_broadcasted_is_recorded\<close>); serial runs are such interleavings (\<open>runs_are_live\<close>), so it holds of them
  too. \<open>Mock_Server\<close> shows that the events a server writes are the events
  \<open>get\<close> returns, and that the parameters of a request, of any characters, are read as
  they were meant.

  \<^bold>\<open>Hypotheses about the outside.\<close> A \<open>TIMESTAMP\<close> column keeps the calendar fields of a time
  (\<open>ts_faithful\<close>); a \<open>SELECT\<close> delivers each row once (\<open>faithful_order\<close>); \<open>HexToHash\<close> inverts hex
  encoding (\<open>hash_codec\<close>); Keccak returns 32 bytes; both sides implement EIP-712 alike
  (\<open>eip712_agree\<close>); the contract recovers the address of the key that signed (\<open>recovers\<close>), and from a
  signature of one result from no other (\<open>binds_scores\<close>); a contract's owner may hand it over
  (\<open>ownable\<close>) and Forge reads the data files as they are (\<open>data_files\<close>); a receipt with success means that
  the transaction was executed, and go-ethereum's ABI and signer keep what they are given
  (\<open>oracle_node\<close>, \<open>relays_to\<close>). Each theorem states the ones it needs, and its witness instantiates them.

  \<^bold>\<open>Not modelled.\<close> The test cases, the capture of log lines by a text handler (\<open>GetLogger\<close>) and container
  and proxy configuration are pure input and output; the Makefiles are build files. OpenZeppelin,
  Forge, go-ethereum, the football-data.org client and the drivers are not part of the repository and
  are parameters. No program uses the table \<open>test_football_org_matches\<close>.
\<close>

end
